(* ===== verification/Prelude.thy ===== *)
theory Prelude
  imports Main "HOL-Library.Word"
begin

text \<open>
  Shared material of the development: the outcomes a C++ function can have, byte buffers
  and their little-endian reading, and the region cursor, the linear scan
  \<open>while (i < v.size() && passed(v[i])) i++\<close> that MemorySearch.cc uses in three places.
\<close>

section \<open>Outcomes\<close>

text \<open>
  A function of the program returns a value, throws one of the three exception classes the
  sources use or one of the two an allocation can throw (with the \<open>what()\<close> text), or performs an operation the C++ standard leaves
  undefined. The last is a value of its own, so that a theorem can say where it happens and
  where it cannot. \<open>'a prog\<close> adds the outcome "does not return" (\<open>None\<close>) for loops.
\<close>

datatype exn =
    Invalid_argument string
  | Out_of_range string
  | Runtime_error string
  | Length_error string
  | Bad_alloc string

datatype ub =
    Past_buffer      \<comment> \<open>a read beyond the terminating NUL of a string's buffer\<close>
  | Past_end         \<comment> \<open>a dereference of an end iterator\<close>
  | Bad_erase        \<comment> \<open>erase of a range whose first iterator lies behind its last\<close>
  | Signed_overflow  \<comment> \<open>overflow of a signed integer operation\<close>

datatype failure =
    Throw exn
  | Undefined ub
  | Terminate      \<comment> \<open>\<open>std::terminate\<close>: an exception left a destructor\<close>

type_synonym 'a res = "failure + 'a"
type_synonym 'a prog = "(failure + 'a) option"

fun res_bind :: "'a res \<Rightarrow> ('a \<Rightarrow> 'b res) \<Rightarrow> 'b res" where
  "res_bind (Inl f) k = Inl f"
| "res_bind (Inr x) k = k x"

definition prog_bind :: "'a prog \<Rightarrow> ('a \<Rightarrow> 'b prog) \<Rightarrow> 'b prog" where
  "prog_bind m k = (case m of None \<Rightarrow> None | Some (Inl f) \<Rightarrow> Some (Inl f) | Some (Inr x) \<Rightarrow> k x)"

lemma prog_bind_simps [simp]:
  "prog_bind None k = None"
  "prog_bind (Some (Inl f)) k = Some (Inl f)"
  "prog_bind (Some (Inr x)) k = k x"
  by (simp_all add: prog_bind_def)

lemma res_bind_Inr_iff: "res_bind m k = Inr y \<longleftrightarrow> (\<exists>x. m = Inr x \<and> k x = Inr y)"
  by (cases m) auto

lemma res_bind_Inl_iff: "res_bind r k = Inl f \<longleftrightarrow> r = Inl f \<or> (\<exists>x. r = Inr x \<and> k x = Inl f)"
  by (cases r) auto

lemma prog_bind_Inr_iff:
  "prog_bind m k = Some (Inr y) \<longleftrightarrow> (\<exists>x. m = Some (Inr x) \<and> k x = Some (Inr y))"
  by (auto simp: prog_bind_def split: option.splits sum.splits)

text \<open>
  Functions that change the state of the target process or of the shell take the state and
  return it with their outcome: what was done before an exception stays done.
\<close>

type_synonym ('s, 'a) effect = "'s \<Rightarrow> 'a res \<times> 's"

type_synonym ('s, 'a) partial_effect = "'s \<Rightarrow> ('a res \<times> 's) option"

definition st_return :: "'a \<Rightarrow> ('s, 'a) effect" where
  "st_return x s = (Inr x, s)"

definition st_fail :: "failure \<Rightarrow> ('s, 'a) effect" where
  "st_fail f s = (Inl f, s)"

definition st_bind :: "('s, 'a) effect \<Rightarrow> ('a \<Rightarrow> ('s, 'b) effect) \<Rightarrow> ('s, 'b) effect" where
  "st_bind m k s = (case m s of (Inl f, s') \<Rightarrow> (Inl f, s') | (Inr x, s') \<Rightarrow> k x s')"

text \<open>\<open>try { m } catch (const E& e) { h }\<close>, where \<open>p\<close> tells the failures of class \<open>E\<close>.\<close>

definition st_catch :: "(failure \<Rightarrow> bool) \<Rightarrow> ('s, 'a) effect \<Rightarrow> (failure \<Rightarrow> ('s, 'a) effect) \<Rightarrow> ('s, 'a) effect" where
  "st_catch p m h s = (case m s of (Inl f, s') \<Rightarrow> if p f then h f s' else (Inl f, s') | (Inr x, s') \<Rightarrow> (Inr x, s'))"

fun is_exception :: "failure \<Rightarrow> bool" where
  "is_exception (Throw e) = True"
| "is_exception _ = False"

fun is_out_of_range :: "failure \<Rightarrow> bool" where
  "is_out_of_range (Throw (Out_of_range m)) = True"
| "is_out_of_range _ = False"

fun is_invalid_argument :: "failure \<Rightarrow> bool" where
  "is_invalid_argument (Throw (Invalid_argument m)) = True"
| "is_invalid_argument _ = False"

fun is_runtime_error :: "failure \<Rightarrow> bool" where
  "is_runtime_error (Throw (Runtime_error m)) = True"
| "is_runtime_error _ = False"

text \<open>\<open>e.what()\<close>.\<close>

fun what :: "failure \<Rightarrow> string" where
  "what (Throw (Invalid_argument m)) = m"
| "what (Throw (Out_of_range m)) = m"
| "what (Throw (Runtime_error m)) = m"
| "what (Throw (Length_error m)) = m"
| "what (Throw (Bad_alloc m)) = m"
| "what _ = []"

lemma st_simps [simp]:
  "st_return x s = (Inr x, s)"
  "st_fail f s = (Inl f, s)"
  "m s = (Inl f, s') \<Longrightarrow> st_bind m k s = (Inl f, s')"
  "m s = (Inr x, s') \<Longrightarrow> st_bind m k s = k x s'"
  "m s = (Inr x, s') \<Longrightarrow> st_catch p m h s = (Inr x, s')"
  "m s = (Inl f, s') \<Longrightarrow> st_catch p m h s = (if p f then h f s' else (Inl f, s'))"
  by (simp_all add: st_return_def st_fail_def st_bind_def st_catch_def)

lemma st_bind_split:
  "P (st_bind m k s) \<longleftrightarrow>
     (\<forall>f s'. m s = (Inl f, s') \<longrightarrow> P (Inl f, s')) \<and> (\<forall>x s'. m s = (Inr x, s') \<longrightarrow> P (k x s'))"
  by (simp add: st_bind_def split: prod.splits sum.splits)

section \<open>Bytes\<close>

type_synonym byte = "8 word"
type_synonym u64 = "64 word"

text \<open>
  The host is little-endian (the program is built for macOS on x86-64 and arm64): the value
  of a byte sequence has its first byte as the least significant one.
\<close>

fun le_nat :: "byte list \<Rightarrow> nat" where
  "le_nat [] = 0"
| "le_nat (b # bs) = unat b + 256 * le_nat bs"

lemma le_nat_less: "le_nat bs < 256 ^ length bs"
proof (induction bs)
  case Nil
  show ?case by simp
next
  case (Cons b bs)
  have "unat b < 256" using unsigned_less [of b] by simp
  with Cons show ?case by simp
qed

lemma le_nat_inj: "length as = length bs \<Longrightarrow> le_nat as = le_nat bs \<Longrightarrow> as = bs"
proof (induction as bs rule: list_induct2)
  case Nil
  show ?case by simp
next
  case (Cons a as b bs)
  have a: "unat a < 256" and b: "unat b < 256"
    using unsigned_less [of a] unsigned_less [of b] by simp_all
  have eq: "unat a + 256 * le_nat as = unat b + 256 * le_nat bs"
    using Cons.prems by simp
  have "unat a = unat b"
    using arg_cong [OF eq, of "\<lambda>n. n mod 256"] a b by simp
  with eq have "le_nat as = le_nat bs" by simp
  with Cons.IH \<open>unat a = unat b\<close> show ?case by (simp add: word_unat_eq_iff)
qed

text \<open>The bytes of a number, least significant first: the stores of the program.\<close>

fun to_le :: "nat \<Rightarrow> nat \<Rightarrow> byte list" where
  "to_le 0 v = []"
| "to_le (Suc n) v = of_nat v # to_le n (v div 256)"

lemma length_to_le [simp]: "length (to_le n v) = n"
  by (induction n v rule: to_le.induct) simp_all

lemma le_nat_to_le: "le_nat (to_le n v) = v mod 256 ^ n"
proof (induction n v rule: to_le.induct)
  case (1 v)
  show ?case by simp
next
  case (2 n v)
  have "unat (of_nat v :: byte) = v mod 256"
    by (simp add: unat_of_nat)
  then show ?case
    by (simp add: "2.IH" mod_mult2_eq)
qed

lemma to_le_le_nat: "to_le (length bs) (le_nat bs) = bs"
  by (rule le_nat_inj) (simp_all add: le_nat_to_le le_nat_less)

text \<open>
  Reads through a pointer into a \<open>std::string\<close>: \<open>at_offset s k\<close> is what can be read from
  \<open>s.data() + k\<close> on, the terminating NUL included; reading more is undefined.
\<close>

definition at_offset :: "byte list \<Rightarrow> nat \<Rightarrow> byte list" where
  "at_offset s k = drop k (s @ [0])"

definition load :: "nat \<Rightarrow> byte list \<Rightarrow> byte list res" where
  "load n p = (if n \<le> length p then Inr (take n p) else Inl (Undefined Past_buffer))"

lemma load_at_offset:
  "k + n \<le> length s \<Longrightarrow> load n (at_offset s k) = Inr (take n (drop k s))"
  by (simp add: load_def at_offset_def)

lemma load_past:
  "length s + 1 < k + n \<Longrightarrow> 0 < n \<Longrightarrow> load n (at_offset s k) = Inl (Undefined Past_buffer)"
  by (simp add: load_def at_offset_def)

section \<open>The cursor scan\<close>

text \<open>
  \<open>while ((i < rs.size()) && p(rs[i])) i++;\<close>
\<close>

function skip_while :: "('r \<Rightarrow> bool) \<Rightarrow> 'r list \<Rightarrow> nat \<Rightarrow> nat" where
  "skip_while p rs i = (if i < length rs \<and> p (rs ! i) then skip_while p rs (Suc i) else i)"
  by pat_completeness auto
termination
  by (relation "measure (\<lambda>(p, rs, i). length rs - i)") auto

declare skip_while.simps [simp del]

lemma skip_while_ge: "i \<le> skip_while p rs i"
proof (induction p rs i rule: skip_while.induct)
  case (1 p rs i)
  then show ?case by (subst skip_while.simps) (auto intro: Suc_leD)
qed

lemma skip_while_le: "i \<le> length rs \<Longrightarrow> skip_while p rs i \<le> length rs"
proof (induction p rs i rule: skip_while.induct)
  case (1 p rs i)
  then show ?case by (subst skip_while.simps) auto
qed

lemma skip_while_skipped: "i \<le> j \<Longrightarrow> j < skip_while p rs i \<Longrightarrow> p (rs ! j)"
proof (induction p rs i rule: skip_while.induct)
  case (1 p rs i)
  show ?case
  proof (cases "i < length rs \<and> p (rs ! i)")
    case True
    with 1 show ?thesis
      by (cases "i = j") (auto simp: skip_while.simps [of p rs i])
  next
    case False
    with 1 show ?thesis by (auto simp: skip_while.simps [of p rs i])
  qed
qed

lemma skip_while_stop: "skip_while p rs i < length rs \<Longrightarrow> \<not> p (rs ! skip_while p rs i)"
proof (induction p rs i rule: skip_while.induct)
  case (1 p rs i)
  then show ?case by (auto simp: skip_while.simps [of p rs i] split: if_splits)
qed

text \<open>
  The contract between a scan and the loop that carries its index along: an element that is
  passed at one address is passed at every higher one, and in an ordered table everything
  before the element that holds an address is passed there. Under it the carried index
  finds exactly the element a search of the whole table would find.
\<close>

locale region_cursor =
  fixes passed :: "'a::linorder \<Rightarrow> 'r \<Rightarrow> bool"
    and holds :: "'a \<Rightarrow> 'r \<Rightarrow> bool"
    and ordered :: "'r list \<Rightarrow> bool"
  assumes passed_mono: "passed a r \<Longrightarrow> a \<le> b \<Longrightarrow> passed b r"
    and holds_not_passed: "holds a r \<Longrightarrow> \<not> passed a r"
    and ordered_before:
      "ordered rs \<Longrightarrow> j < k \<Longrightarrow> k < length rs \<Longrightarrow> holds a (rs ! k) \<Longrightarrow> passed a (rs ! j)"
begin

definition behind :: "'r list \<Rightarrow> nat \<Rightarrow> 'a \<Rightarrow> bool" where
  "behind rs i a \<longleftrightarrow> (\<forall>j < i. j < length rs \<longrightarrow> passed a (rs ! j))"

lemma behind_0 [simp]: "behind rs 0 a"
  by (simp add: behind_def)

lemma behind_mono: "behind rs i a \<Longrightarrow> a \<le> b \<Longrightarrow> behind rs i b"
  using passed_mono by (auto simp: behind_def)

lemma behind_skip: "behind rs i a \<Longrightarrow> behind rs (skip_while (passed a) rs i) a"
  unfolding behind_def by (meson not_less skip_while_skipped)

lemma cursor_finds:
  assumes "ordered rs" and "behind rs i a" and "r \<in> set rs" and "holds a r"
  shows "skip_while (passed a) rs i < length rs \<and> rs ! skip_while (passed a) rs i = r"
proof -
  let ?k = "skip_while (passed a) rs i"
  from assms(3) obtain j where j: "j < length rs" "rs ! j = r"
    by (auto simp: in_set_conv_nth)
  have np: "\<not> passed a (rs ! j)"
    using holds_not_passed [OF assms(4)] j by simp
  have "\<not> j < ?k"
    using behind_skip [OF assms(2)] np j by (auto simp: behind_def)
  moreover have "\<not> ?k < j"
  proof
    assume "?k < j"
    then have "passed a (rs ! ?k)"
      using ordered_before [OF assms(1) _ j(1)] assms(4) j(2) by blast
    moreover have "\<not> passed a (rs ! ?k)"
      using skip_while_stop \<open>?k < j\<close> j(1) by (metis less_trans)
    ultimately show False by blast
  qed
  ultimately have "?k = j" by simp
  with j show ?thesis by simp
qed

lemma cursor_misses:
  assumes "\<forall>r \<in> set rs. \<not> holds a r"
  shows "skip_while (passed a) rs i < length rs \<longrightarrow> \<not> holds a (rs ! skip_while (passed a) rs i)"
  using assms by auto

end

end
