(* ===== verification/SearchTypes.thy ===== *)
theory SearchTypes
  imports Prelude
begin

text \<open>
  The value types and predicates of a search, with the name tables of MemorySearch.cc.
  \<open>ALL\<close> is HOL syntax, so that enumerator is \<open>ALL_P\<close>. Enumerators keep the source's order: \<open>type_index\<close> and \<open>predicate_index\<close> are the numeric
  values by which the source indexes its evaluator table.
\<close>

datatype search_type =
    UINT8 | UINT16 | UINT16_RE | UINT32 | UINT32_RE | UINT64 | UINT64_RE
  | INT8 | INT16 | INT16_RE | INT32 | INT32_RE | INT64 | INT64_RE
  | FLOAT | FLOAT_RE | DOUBLE | DOUBLE_RE | DATA

datatype predicate =
    LESS | GREATER | LESS_OR_EQUAL | GREATER_OR_EQUAL | EQUAL | NOT_EQUAL | FLAG | ALL_P

fun type_index :: "search_type \<Rightarrow> nat" where
  "type_index UINT8 = 0"
| "type_index UINT16 = 1"
| "type_index UINT16_RE = 2"
| "type_index UINT32 = 3"
| "type_index UINT32_RE = 4"
| "type_index UINT64 = 5"
| "type_index UINT64_RE = 6"
| "type_index INT8 = 7"
| "type_index INT16 = 8"
| "type_index INT16_RE = 9"
| "type_index INT32 = 10"
| "type_index INT32_RE = 11"
| "type_index INT64 = 12"
| "type_index INT64_RE = 13"
| "type_index FLOAT = 14"
| "type_index FLOAT_RE = 15"
| "type_index DOUBLE = 16"
| "type_index DOUBLE_RE = 17"
| "type_index DATA = 18"

fun predicate_index :: "predicate \<Rightarrow> nat" where
  "predicate_index LESS = 0"
| "predicate_index GREATER = 1"
| "predicate_index LESS_OR_EQUAL = 2"
| "predicate_index GREATER_OR_EQUAL = 3"
| "predicate_index EQUAL = 4"
| "predicate_index NOT_EQUAL = 5"
| "predicate_index FLAG = 6"
| "predicate_index ALL_P = 7"

text \<open>\<open>is_integer_search_type\<close>: the enumerators from 0 up to, but not including, FLOAT.\<close>

definition is_integer_search_type :: "search_type \<Rightarrow> bool" where
  "is_integer_search_type t \<longleftrightarrow> 0 \<le> type_index t \<and> type_index t < type_index FLOAT"

definition is_reverse_endian_search_type :: "search_type \<Rightarrow> bool" where
  "is_reverse_endian_search_type t \<longleftrightarrow>
     t = UINT16_RE \<or> t = INT16_RE \<or> t = UINT32_RE \<or> t = INT32_RE \<or>
     t = UINT64_RE \<or> t = INT64_RE \<or> t = FLOAT_RE \<or> t = DOUBLE_RE"

definition value_size_for_search_type :: "search_type \<Rightarrow> nat" where
  "value_size_for_search_type t =
     (case t of
        UINT8 \<Rightarrow> 1 | INT8 \<Rightarrow> 1
      | UINT16 \<Rightarrow> 2 | UINT16_RE \<Rightarrow> 2 | INT16 \<Rightarrow> 2 | INT16_RE \<Rightarrow> 2
      | UINT32 \<Rightarrow> 4 | UINT32_RE \<Rightarrow> 4 | INT32 \<Rightarrow> 4 | INT32_RE \<Rightarrow> 4
      | FLOAT \<Rightarrow> 4 | FLOAT_RE \<Rightarrow> 4
      | UINT64 \<Rightarrow> 8 | UINT64_RE \<Rightarrow> 8 | INT64 \<Rightarrow> 8 | INT64_RE \<Rightarrow> 8
      | DOUBLE \<Rightarrow> 8 | DOUBLE_RE \<Rightarrow> 8
      | _ \<Rightarrow> 0)"

fun name_for_search_type :: "search_type \<Rightarrow> string" where
  "name_for_search_type UINT8 = ''uint8''"
| "name_for_search_type UINT16 = ''uint16''"
| "name_for_search_type UINT16_RE = ''ruint16''"
| "name_for_search_type UINT32 = ''uint32''"
| "name_for_search_type UINT32_RE = ''ruint32''"
| "name_for_search_type UINT64 = ''uint64''"
| "name_for_search_type UINT64_RE = ''ruint64''"
| "name_for_search_type INT8 = ''int8''"
| "name_for_search_type INT16 = ''int16''"
| "name_for_search_type INT16_RE = ''rint16''"
| "name_for_search_type INT32 = ''int32''"
| "name_for_search_type INT32_RE = ''rint32''"
| "name_for_search_type INT64 = ''int64''"
| "name_for_search_type INT64_RE = ''rint64''"
| "name_for_search_type FLOAT = ''float''"
| "name_for_search_type FLOAT_RE = ''rfloat''"
| "name_for_search_type DOUBLE = ''double''"
| "name_for_search_type DOUBLE_RE = ''rdouble''"
| "name_for_search_type DATA = ''string''"

fun short_name_for_search_type :: "search_type \<Rightarrow> string" where
  "short_name_for_search_type UINT8 = ''u8''"
| "short_name_for_search_type UINT16 = ''u16''"
| "short_name_for_search_type UINT16_RE = ''ru16''"
| "short_name_for_search_type UINT32 = ''u32''"
| "short_name_for_search_type UINT32_RE = ''ru32''"
| "short_name_for_search_type UINT64 = ''u64''"
| "short_name_for_search_type UINT64_RE = ''ru64''"
| "short_name_for_search_type INT8 = ''s8''"
| "short_name_for_search_type INT16 = ''s16''"
| "short_name_for_search_type INT16_RE = ''rs16''"
| "short_name_for_search_type INT32 = ''s32''"
| "short_name_for_search_type INT32_RE = ''rs32''"
| "short_name_for_search_type INT64 = ''s64''"
| "short_name_for_search_type INT64_RE = ''rs64''"
| "short_name_for_search_type FLOAT = ''f''"
| "short_name_for_search_type FLOAT_RE = ''rf''"
| "short_name_for_search_type DOUBLE = ''d''"
| "short_name_for_search_type DOUBLE_RE = ''rd''"
| "short_name_for_search_type DATA = ''a''"

definition search_type_names :: "(string \<times> search_type) list" where
  "search_type_names =
    [(''u8'', UINT8),
     (''uint8'', UINT8),
     (''uint8_t'', UINT8),
     (''u16'', UINT16),
     (''uint16'', UINT16),
     (''uint16_t'', UINT16),
     (''ru16'', UINT16_RE),
     (''ruint16'', UINT16_RE),
     (''ruint16_t'', UINT16_RE),
     (''u32'', UINT32),
     (''uint32'', UINT32),
     (''uint32_t'', UINT32),
     (''ru32'', UINT32_RE),
     (''ruint32'', UINT32_RE),
     (''ruint32_t'', UINT32_RE),
     (''u64'', UINT64),
     (''uint64'', UINT64),
     (''uint64_t'', UINT64),
     (''ru64'', UINT64_RE),
     (''ruint64'', UINT64_RE),
     (''ruint64_t'', UINT64_RE),
     (''s8'', INT8),
     (''i8'', INT8),
     (''d8'', INT8),
     (''int8'', INT8),
     (''int8_t'', INT8),
     (''s16'', INT16),
     (''i16'', INT16),
     (''d16'', INT16),
     (''int16'', INT16),
     (''int16_t'', INT16),
     (''rs16'', INT16_RE),
     (''ri16'', INT16_RE),
     (''rd16'', INT16_RE),
     (''rint16'', INT16_RE),
     (''rint16_t'', INT16_RE),
     (''s32'', INT32),
     (''i32'', INT32),
     (''d32'', INT32),
     (''int32'', INT32),
     (''int32_t'', INT32),
     (''rs32'', INT32_RE),
     (''ri32'', INT32_RE),
     (''rd32'', INT32_RE),
     (''rint32'', INT32_RE),
     (''rint32_t'', INT32_RE),
     (''s64'', INT64),
     (''i64'', INT64),
     (''d64'', INT64),
     (''int64'', INT64),
     (''int64_t'', INT64),
     (''rs64'', INT64_RE),
     (''ri64'', INT64_RE),
     (''rd64'', INT64_RE),
     (''rint64'', INT64_RE),
     (''rint64_t'', INT64_RE),
     (''f'', FLOAT),
     (''fl'', FLOAT),
     (''flt'', FLOAT),
     (''float'', FLOAT),
     (''f32'', FLOAT),
     (''fl32'', FLOAT),
     (''flt32'', FLOAT),
     (''float32'', FLOAT),
     (''rf'', FLOAT_RE),
     (''rfl'', FLOAT_RE),
     (''rflt'', FLOAT_RE),
     (''rfloat'', FLOAT_RE),
     (''rf32'', FLOAT_RE),
     (''rfl32'', FLOAT_RE),
     (''rflt32'', FLOAT_RE),
     (''rfloat32'', FLOAT_RE),
     (''f64'', DOUBLE),
     (''fl64'', DOUBLE),
     (''flt64'', DOUBLE),
     (''float64'', DOUBLE),
     (''d'', DOUBLE),
     (''db'', DOUBLE),
     (''dbl'', DOUBLE),
     (''double'', DOUBLE),
     (''rf64'', DOUBLE_RE),
     (''rfl64'', DOUBLE_RE),
     (''rflt64'', DOUBLE_RE),
     (''rfloat64'', DOUBLE_RE),
     (''rd'', DOUBLE_RE),
     (''rdb'', DOUBLE_RE),
     (''rdbl'', DOUBLE_RE),
     (''rdouble'', DOUBLE_RE),
     (''a'', DATA),
     (''s'', DATA),
     (''str'', DATA),
     (''string'', DATA)]"

text \<open>
  \<open>unordered_map::at\<close> throws \<open>out_of_range\<close> for a missing key; the source catches it and
  throws one with its own text. The text goes through phosg's \<open>string_printf\<close> with the
  single directive \<open>%s\<close>, written here as concatenation.
\<close>

definition search_type_for_name :: "string \<Rightarrow> search_type res" where
  "search_type_for_name name =
     (case map_of search_type_names name of
        Some t \<Rightarrow> Inr t
      | None \<Rightarrow> Inl (Throw (Out_of_range (''no type with name '' @ name))))"

fun name_for_search_predicate :: "predicate \<Rightarrow> string" where
  "name_for_search_predicate LESS = ''<''"
| "name_for_search_predicate GREATER = ''>''"
| "name_for_search_predicate LESS_OR_EQUAL = ''<=''"
| "name_for_search_predicate GREATER_OR_EQUAL = ''>=''"
| "name_for_search_predicate EQUAL = ''==''"
| "name_for_search_predicate NOT_EQUAL = ''!=''"
| "name_for_search_predicate FLAG = ''$''"
| "name_for_search_predicate ALL_P = ''.''"

definition search_predicate_names :: "(string \<times> predicate) list" where
  "search_predicate_names =
    [(''<'', LESS),
     (''!>='', LESS),
     (''>'', GREATER),
     (''!<='', GREATER),
     (''<='', LESS_OR_EQUAL),
     (''!>'', LESS_OR_EQUAL),
     (''>='', GREATER_OR_EQUAL),
     (''!<'', GREATER_OR_EQUAL),
     (''='', EQUAL),
     (''=='', EQUAL),
     (''==='', EQUAL),
     (''!='', NOT_EQUAL),
     (''<>'', NOT_EQUAL),
     (''$'', FLAG),
     (''&'', FLAG),
     (''.'', ALL_P)]"

definition search_predicate_for_name :: "string \<Rightarrow> predicate res" where
  "search_predicate_for_name name =
     (case map_of search_predicate_names name of
        Some p \<Rightarrow> Inr p
      | None \<Rightarrow> Inl (Throw (Out_of_range (''no predicate with name '' @ name))))"

text \<open>
  The tables are initialisers of an \<open>unordered_map\<close>, which keeps one entry per key; the
  lists have distinct keys, so the first match of \<open>map_of\<close> is that entry.
\<close>

lemma distinct_search_type_names: "distinct (map fst search_type_names)"
  by code_simp

lemma distinct_search_predicate_names: "distinct (map fst search_predicate_names)"
  by code_simp

lemma type_for_long_name: "search_type_for_name (name_for_search_type t) = Inr t"
  by (cases t; hypsubst; code_simp)

lemma type_for_short_name: "search_type_for_name (short_name_for_search_type t) = Inr t"
  by (cases t; hypsubst; code_simp)

lemma predicate_for_printed_name:
  "search_predicate_for_name (name_for_search_predicate p) = Inr p"
  by (cases p; hypsubst; code_simp)

text \<open>
  C31. The name tables agree with each other: every type and every predicate is found again
  under the name the program prints for it, and a type also under its short name.
\<close>

theorem search_names_roundtrip:
  "search_type_for_name (name_for_search_type t) = Inr t \<and>
   search_type_for_name (short_name_for_search_type t) = Inr t \<and>
   search_predicate_for_name (name_for_search_predicate p) = Inr p"
  by (simp add: type_for_long_name type_for_short_name predicate_for_printed_name)

end
