(* ===== verification/Evaluators.thy ===== *)
theory Evaluators
  imports SearchTypes
begin

unbundle bit_operations_syntax

text \<open>
  The comparator functions at the head of MemorySearch.cc and the table that selects one for
  a type and a predicate. The source generates the functions by macros and stores them as
  function pointers; here a function is named by a value of \<open>evaluator\<close> (one constructor per
  macro) and \<open>run_evaluator\<close> is the call through the pointer. Pointers are the bytes that can
  be read through them (see \<open>at_offset\<close>).
\<close>

section \<open>C scalar types and operators\<close>

datatype relop = LT | GT | LE | GE | EQ | NE

fun rel :: "relop \<Rightarrow> 'a::linorder \<Rightarrow> 'a \<Rightarrow> bool" where
  "rel LT x y \<longleftrightarrow> x < y"
| "rel GT x y \<longleftrightarrow> x > y"
| "rel LE x y \<longleftrightarrow> x \<le> y"
| "rel GE x y \<longleftrightarrow> x \<ge> y"
| "rel EQ x y \<longleftrightarrow> x = y"
| "rel NE x y \<longleftrightarrow> x \<noteq> y"

datatype prim = U8 | U16 | U32 | U64 | S8 | S16 | S32 | S64 | F32 | F64

fun prim_size :: "prim \<Rightarrow> nat" where
  "prim_size U8 = 1" | "prim_size S8 = 1"
| "prim_size U16 = 2" | "prim_size S16 = 2"
| "prim_size U32 = 4" | "prim_size S32 = 4" | "prim_size F32 = 4"
| "prim_size U64 = 8" | "prim_size S64 = 8" | "prim_size F64 = 8"

text \<open>The value of an integer object: two's complement for the signed types.\<close>

fun prim_int :: "prim \<Rightarrow> byte list \<Rightarrow> int" where
  "prim_int S8 bs = signed_take_bit 7 (int (le_nat bs))"
| "prim_int S16 bs = signed_take_bit 15 (int (le_nat bs))"
| "prim_int S32 bs = signed_take_bit 31 (int (le_nat bs))"
| "prim_int S64 bs = signed_take_bit 63 (int (le_nat bs))"
| "prim_int _ bs = int (le_nat bs)"

text \<open>
  IEEE 754 binary formats, from the bit pattern: \<open>m\<close> fraction bits, \<open>e\<close> exponent bits and a
  sign bit. Values that are not NaN are ordered as their magnitudes (exponent and fraction
  read as one number), negated when the sign is set; both zeros have the key 0. A NaN is
  unordered: every comparison with it is false but \<open>!=\<close>.
\<close>

definition float_nan :: "nat \<Rightarrow> nat \<Rightarrow> nat \<Rightarrow> bool" where
  "float_nan m e bits \<longleftrightarrow> (bits div 2 ^ m) mod 2 ^ e = 2 ^ e - 1 \<and> bits mod 2 ^ m \<noteq> 0"

definition float_key :: "nat \<Rightarrow> nat \<Rightarrow> nat \<Rightarrow> int" where
  "float_key m e bits =
     (let mag = int (bits mod 2 ^ (m + e))
      in if bits div 2 ^ (m + e) mod 2 = 1 then - mag else mag)"

definition float_rel :: "nat \<Rightarrow> nat \<Rightarrow> relop \<Rightarrow> nat \<Rightarrow> nat \<Rightarrow> bool" where
  "float_rel m e oper x y =
     (if float_nan m e x \<or> float_nan m e y then oper = NE
      else rel oper (float_key m e x) (float_key m e y))"

fun prim_float_rel :: "prim \<Rightarrow> relop \<Rightarrow> nat \<Rightarrow> nat \<Rightarrow> bool" where
  "prim_float_rel F32 oper x y = float_rel 23 8 oper x y"
| "prim_float_rel _ oper x y = float_rel 52 11 oper x y"

section \<open>Byte swapping\<close>

text \<open>
  \<open>bswap16\<close>, \<open>bswap32\<close> and \<open>bswap64\<close> come from phosg (\<open>phosg/Encoding.hh\<close>), which is not
  part of the repository: they are a parameter. They take and return the unsigned type of
  their width, and are documented to reverse the bytes of their argument.
\<close>

record encoding =
  bswap16 :: "16 word \<Rightarrow> 16 word"
  bswap32 :: "32 word \<Rightarrow> 32 word"
  bswap64 :: "64 word \<Rightarrow> 64 word"

definition bswap_ok :: "encoding \<Rightarrow> bool" where
  "bswap_ok enc \<longleftrightarrow>
     (\<forall>bs. length bs = 2 \<longrightarrow> unat (bswap16 enc (of_nat (le_nat bs))) = le_nat (rev bs)) \<and>
     (\<forall>bs. length bs = 4 \<longrightarrow> unat (bswap32 enc (of_nat (le_nat bs))) = le_nat (rev bs)) \<and>
     (\<forall>bs. length bs = 8 \<longrightarrow> unat (bswap64 enc (of_nat (le_nat bs))) = le_nat (rev bs))"

text \<open>
  The value of \<open>bswapN(*a)\<close>. A signed \<open>*a\<close> is converted to the unsigned parameter type,
  which keeps its bytes; the result is unsigned.
\<close>

fun bswap_bits :: "encoding \<Rightarrow> prim \<Rightarrow> byte list \<Rightarrow> nat" where
  "bswap_bits enc U16 bs = unat (bswap16 enc (of_nat (le_nat bs)))"
| "bswap_bits enc S16 bs = unat (bswap16 enc (of_nat (le_nat bs)))"
| "bswap_bits enc U32 bs = unat (bswap32 enc (of_nat (le_nat bs)))"
| "bswap_bits enc S32 bs = unat (bswap32 enc (of_nat (le_nat bs)))"
| "bswap_bits enc F32 bs = unat (bswap32 enc (of_nat (le_nat bs)))"
| "bswap_bits enc U64 bs = unat (bswap64 enc (of_nat (le_nat bs)))"
| "bswap_bits enc S64 bs = unat (bswap64 enc (of_nat (le_nat bs)))"
| "bswap_bits enc F64 bs = unat (bswap64 enc (of_nat (le_nat bs)))"
| "bswap_bits enc _ bs = le_nat bs"

section \<open>The comparator functions\<close>

datatype evaluator =
    Null_pred
  | Op_function relop prim            \<comment> \<open>\<open>DECLARE_OP_FUNCTION\<close>\<close>
  | Int_op_function_re relop prim     \<comment> \<open>\<open>DECLARE_INT_OP_FUNCTION_RE\<close>\<close>
  | Float_op_function_re relop prim   \<comment> \<open>\<open>DECLARE_FLOAT_OP_FUNCTION_RE\<close>\<close>
  | Flag_op_function prim             \<comment> \<open>\<open>DECLARE_FLAG_OP_FUNCTION\<close>\<close>
  | Data_op_function relop            \<comment> \<open>\<open>DECLARE_DATA_OP_FUNCTION\<close>\<close>
  | Data_flag

definition load2 :: "nat \<Rightarrow> byte list \<Rightarrow> byte list \<Rightarrow> (byte list \<Rightarrow> byte list \<Rightarrow> 'a res) \<Rightarrow> 'a res" where
  "load2 n a b k = res_bind (load n a) (\<lambda>x. res_bind (load n b) (\<lambda>y. k x y))"

text \<open>\<open>*a op *b\<close>.\<close>

fun op_function :: "relop \<Rightarrow> prim \<Rightarrow> byte list \<Rightarrow> byte list \<Rightarrow> bool" where
  "op_function oper F32 x y = prim_float_rel F32 oper (le_nat x) (le_nat y)"
| "op_function oper F64 x y = prim_float_rel F64 oper (le_nat x) (le_nat y)"
| "op_function oper p x y = rel oper (prim_int p x) (prim_int p y)"

text \<open>
  \<open>(*a ^ *b) && !((*a ^ *b) & ((*a ^ *b) - 1))\<close>. Operands narrower than \<open>int\<close> are promoted
  to it, so all types but the unsigned ones of 32 and 64 bits compute in a signed type, where
  subtracting 1 from the least value overflows; the right operand of \<open>&&\<close> is evaluated only
  when the left one is nonzero.
\<close>

definition flag_unsigned :: "'w::len word \<Rightarrow> bool" where
  "flag_unsigned x \<longleftrightarrow> x \<noteq> 0 \<and> x AND (x - 1) = 0"

definition flag_signed :: "'w::len word \<Rightarrow> bool res" where
  "flag_signed x =
     (if x = 0 then Inr False
      else if x = push_bit (LENGTH('w) - 1) 1 then Inl (Undefined Signed_overflow)
      else Inr (x AND (x - 1) = 0))"

fun flag_op_function :: "prim \<Rightarrow> byte list \<Rightarrow> byte list \<Rightarrow> bool res" where
  "flag_op_function U32 a b =
     Inr (flag_unsigned ((of_nat (le_nat a) :: 32 word) XOR of_nat (le_nat b)))"
| "flag_op_function U64 a b =
     Inr (flag_unsigned ((of_nat (le_nat a) :: 64 word) XOR of_nat (le_nat b)))"
| "flag_op_function S64 a b =
     flag_signed ((of_int (prim_int S64 a) :: 64 word) XOR of_int (prim_int S64 b))"
| "flag_op_function p a b =
     flag_signed ((of_int (prim_int p a) :: 32 word) XOR of_int (prim_int p b))"

text \<open>\<open>memcmp\<close> compares unsigned bytes; only the sign of its result is specified.\<close>

fun memcmp :: "byte list \<Rightarrow> byte list \<Rightarrow> int" where
  "memcmp (x # xs) (y # ys) = (if x < y then -1 else if y < x then 1 else memcmp xs ys)"
| "memcmp _ _ = 0"

text \<open>
  \<open>data_flag\<close>: the loop runs over \<open>size\<close> positions and stops once two hits are counted, but
  each round reads the first byte of both buffers. \<open>char\<close> is signed on the target platforms,
  so \<open>axb\<close> is sign-extended when it is promoted to \<open>int\<close>.
\<close>

definition char_hit :: "byte \<Rightarrow> byte \<Rightarrow> bool" where
  "char_hit a b =
     (let axb = (scast (a XOR b) :: 32 word) in axb \<noteq> 0 \<and> axb AND (axb - 1) = 0)"

fun data_flag_loop :: "bool \<Rightarrow> nat \<Rightarrow> nat \<Rightarrow> nat" where
  "data_flag_loop hit 0 bit_found = bit_found"
| "data_flag_loop hit (Suc left) bit_found =
     (if bit_found < 2 then data_flag_loop hit left (if hit then bit_found + 1 else bit_found)
      else bit_found)"

definition data_flag :: "byte list \<Rightarrow> byte list \<Rightarrow> nat \<Rightarrow> bool res" where
  "data_flag a b sz =
     (if sz = 0 then Inr False
      else load2 1 a b (\<lambda>x y. Inr (data_flag_loop (char_hit (hd x) (hd y)) sz 0 = 1)))"

fun run_evaluator :: "encoding \<Rightarrow> evaluator \<Rightarrow> byte list \<Rightarrow> byte list \<Rightarrow> nat \<Rightarrow> bool res" where
  "run_evaluator enc Null_pred a b sz = Inr True"
| "run_evaluator enc (Op_function oper p) a b sz =
     load2 (prim_size p) a b (\<lambda>x y. Inr (op_function oper p x y))"
| "run_evaluator enc (Int_op_function_re oper p) a b sz =
     load2 (prim_size p) a b (\<lambda>x y. Inr (rel oper (bswap_bits enc p x) (bswap_bits enc p y)))"
| "run_evaluator enc (Float_op_function_re oper p) a b sz =
     load2 (prim_size p) a b
       (\<lambda>x y. Inr (prim_float_rel p oper (bswap_bits enc p x) (bswap_bits enc p y)))"
| "run_evaluator enc (Flag_op_function p) a b sz =
     load2 (prim_size p) a b (\<lambda>x y. flag_op_function p x y)"
| "run_evaluator enc (Data_op_function oper) a b sz =
     load2 sz a b (\<lambda>x y. Inr (rel oper (memcmp x y) 0))"
| "run_evaluator enc Data_flag a b sz = data_flag a b sz"

section \<open>The evaluator table\<close>

definition infix_function_pointers_for_type :: "prim \<Rightarrow> evaluator option list" where
  "infix_function_pointers_for_type p =
     [Some (Op_function LT p), Some (Op_function GT p), Some (Op_function LE p),
      Some (Op_function GE p), Some (Op_function EQ p), Some (Op_function NE p),
      Some (Flag_op_function p), Some Null_pred]"

definition infix_function_pointers_for_type_noflag :: "prim \<Rightarrow> evaluator option list" where
  "infix_function_pointers_for_type_noflag p =
     [Some (Op_function LT p), Some (Op_function GT p), Some (Op_function LE p),
      Some (Op_function GE p), Some (Op_function EQ p), Some (Op_function NE p),
      None, Some Null_pred]"

definition infix_function_pointers_for_type_re :: "prim \<Rightarrow> evaluator option list" where
  "infix_function_pointers_for_type_re p =
     [Some (Int_op_function_re LT p), Some (Int_op_function_re GT p),
      Some (Int_op_function_re LE p), Some (Int_op_function_re GE p),
      Some (Int_op_function_re EQ p), Some (Int_op_function_re NE p),
      Some (Flag_op_function p), Some Null_pred]"

definition infix_function_pointers_for_type_re_noflag :: "prim \<Rightarrow> evaluator option list" where
  "infix_function_pointers_for_type_re_noflag p =
     [Some (Float_op_function_re LT p), Some (Float_op_function_re GT p),
      Some (Float_op_function_re LE p), Some (Float_op_function_re GE p),
      Some (Float_op_function_re EQ p), Some (Float_op_function_re NE p),
      None, Some Null_pred]"

definition infix_function_pointers_for_data :: "evaluator option list" where
  "infix_function_pointers_for_data =
     [Some (Data_op_function LT), Some (Data_op_function GT), Some (Data_op_function LE),
      Some (Data_op_function GE), Some (Data_op_function EQ), Some (Data_op_function NE),
      Some Data_flag, Some Null_pred]"

definition search_type_configs :: "(evaluator option list \<times> nat) list" where
  "search_type_configs =
     [(infix_function_pointers_for_type U8, 1),
      (infix_function_pointers_for_type U16, 2),
      (infix_function_pointers_for_type_re U16, 2),
      (infix_function_pointers_for_type U32, 4),
      (infix_function_pointers_for_type_re U32, 4),
      (infix_function_pointers_for_type U64, 8),
      (infix_function_pointers_for_type_re U64, 8),
      (infix_function_pointers_for_type S8, 1),
      (infix_function_pointers_for_type S16, 2),
      (infix_function_pointers_for_type_re S16, 2),
      (infix_function_pointers_for_type S32, 4),
      (infix_function_pointers_for_type_re S32, 4),
      (infix_function_pointers_for_type S64, 8),
      (infix_function_pointers_for_type_re S64, 8),
      (infix_function_pointers_for_type_noflag F32, 4),
      (infix_function_pointers_for_type_re_noflag F32, 4),
      (infix_function_pointers_for_type_noflag F64, 8),
      (infix_function_pointers_for_type_re_noflag F64, 8),
      (infix_function_pointers_for_data, 1)]"

definition evaluator_for :: "search_type \<Rightarrow> predicate \<Rightarrow> evaluator option" where
  "evaluator_for t p = fst (search_type_configs ! type_index t) ! predicate_index p"

definition field_size :: "search_type \<Rightarrow> nat" where
  "field_size t = snd (search_type_configs ! type_index t)"

end
