(* ===== verification/ProcessMemoryAdapter.thy ===== *)
theory ProcessMemoryAdapter
  imports Prelude
begin

unbundle bit_operations_syntax

text \<open>
  ProcessMemoryAdapter.cc: the target process's memory through the Mach VM calls. The calls
  belong to the operating system and are a parameter, the record \<open>mach\<close> of functions on a
  kernel state of type \<open>'k\<close>; every method of the adapter is an effect on that state.
\<close>

section \<open>The library and kernel interfaces\<close>

datatype parg = PInt int | PStr string | PFloat nat nat  \<comment> \<open>width and bits of a float or double\<close>

datatype print_flag = PRINT_ASCII | PRINT_FLOAT | PRINT_DOUBLE | REVERSE_ENDIAN | USE_COLOR

text \<open>phosg's string functions (\<open>phosg/Strings.hh\<close>), not part of the repository.\<close>

record phosg =
  string_printf :: "string \<Rightarrow> parg list \<Rightarrow> string"
  split_string :: "string \<Rightarrow> char \<Rightarrow> string list"
  skip_whitespace :: "string \<Rightarrow> nat \<Rightarrow> nat"
  skip_non_whitespace :: "string \<Rightarrow> nat \<Rightarrow> nat"
  parse_data_string :: "string \<Rightarrow> (byte list \<times> byte list) res"  \<comment> \<open>data and mask\<close>
  format_data_string :: "byte list \<Rightarrow> byte list option \<Rightarrow> string"
  format_size :: "nat \<Rightarrow> string"
  print_data :: "byte list \<Rightarrow> u64 option \<Rightarrow> byte list option \<Rightarrow> print_flag list option \<Rightarrow> string"
    \<comment> \<open>data, address, previous data and flags; \<open>None\<close> for an argument that is not given\<close>

record basic_info =
  info_protection :: "32 word"
  info_max_protection :: "32 word"
  info_inheritance :: "32 word"
  info_shared :: "32 word"
  info_reserved :: "32 word"
  info_behavior :: "32 word"
  info_user_wired_count :: "16 word"

type_synonym kern_return = int
type_synonym port = "32 word"

definition KERN_SUCCESS :: kern_return where
  "KERN_SUCCESS = 0"

text \<open>
  \<open>mach_vm_region\<close> updates its address and size arguments, so it returns them with the
  info; \<open>mach_vm_read_overwrite\<close> returns the bytes it read, \<open>vm_allocate\<close> the address.
\<close>

record 'k mach =
  task_for_pid :: "'k \<Rightarrow> int \<Rightarrow> kern_return \<times> port"
  mach_vm_region :: "'k \<Rightarrow> port \<Rightarrow> u64 \<Rightarrow> kern_return \<times> u64 \<times> u64 \<times> basic_info"
  mach_vm_read_overwrite :: "'k \<Rightarrow> port \<Rightarrow> u64 \<Rightarrow> u64 \<Rightarrow> kern_return \<times> byte list"
  mach_vm_write :: "'k \<Rightarrow> port \<Rightarrow> u64 \<Rightarrow> byte list \<Rightarrow> kern_return \<times> 'k"
  mach_vm_protect :: "'k \<Rightarrow> port \<Rightarrow> u64 \<Rightarrow> u64 \<Rightarrow> 32 word \<Rightarrow> kern_return \<times> 'k"
  vm_allocate :: "'k \<Rightarrow> port \<Rightarrow> u64 \<Rightarrow> u64 \<Rightarrow> bool \<Rightarrow> kern_return \<times> u64 \<times> 'k"
  vm_deallocate :: "'k \<Rightarrow> port \<Rightarrow> u64 \<Rightarrow> u64 \<Rightarrow> kern_return \<times> 'k"
  task_suspend :: "'k \<Rightarrow> port \<Rightarrow> kern_return \<times> 'k"
  task_resume :: "'k \<Rightarrow> port \<Rightarrow> kern_return \<times> 'k"
  task_terminate :: "'k \<Rightarrow> port \<Rightarrow> kern_return \<times> 'k"
  task_threads :: "'k \<Rightarrow> port \<Rightarrow> kern_return \<times> port list"
  thread_terminate :: "'k \<Rightarrow> port \<Rightarrow> kern_return \<times> 'k"

section \<open>Regions\<close>

definition READABLE :: byte where "READABLE = 1"
definition WRITABLE :: byte where "WRITABLE = 2"
definition EXECUTABLE :: byte where "EXECUTABLE = 4"
definition ALL_ACCESS :: byte where "ALL_ACCESS = 7"

text \<open>The protection bits of \<open>mach/vm_prot.h\<close>.\<close>

definition VM_PROT_READ :: "32 word" where "VM_PROT_READ = 1"
definition VM_PROT_WRITE :: "32 word" where "VM_PROT_WRITE = 2"
definition VM_PROT_EXECUTE :: "32 word" where "VM_PROT_EXECUTE = 4"

lemmas protection_defs =
  READABLE_def WRITABLE_def EXECUTABLE_def ALL_ACCESS_def
  VM_PROT_READ_def VM_PROT_WRITE_def VM_PROT_EXECUTE_def

record region =
  region_addr :: u64
  region_size :: u64
  protection :: byte
  max_protection :: byte
  inherit :: "32 word"
  shared :: "32 word"
  reserved :: "32 word"
  behavior :: "32 word"
  wired_count :: "16 word"
  region_data :: "byte list"

definition end_addr :: "region \<Rightarrow> u64" where
  "end_addr r = region_addr r + region_size r"

definition prot_of_info :: "32 word \<Rightarrow> byte" where
  "prot_of_info p =
     (if p AND VM_PROT_READ \<noteq> 0 then READABLE else 0) OR
     (if p AND VM_PROT_WRITE \<noteq> 0 then WRITABLE else 0) OR
     (if p AND VM_PROT_EXECUTE \<noteq> 0 then EXECUTABLE else 0)"

definition region_of_info :: "u64 \<Rightarrow> u64 \<Rightarrow> basic_info \<Rightarrow> region" where
  "region_of_info a s i =
     \<lparr>region_addr = a, region_size = s, protection = prot_of_info (info_protection i),
      max_protection = prot_of_info (info_max_protection i),
      inherit = info_inheritance i, shared = info_shared i, reserved = info_reserved i,
      behavior = info_behavior i, wired_count = info_user_wired_count i, region_data = []\<rparr>"

section \<open>The adapter's operations\<close>

record adapter =
  pid :: int
  task :: port

text \<open>\<open>attach\<close> stores the pid before the call and the port even when the call fails.\<close>

definition attach :: "'k mach \<Rightarrow> phosg \<Rightarrow> int \<Rightarrow> 'k \<Rightarrow> unit res \<times> adapter" where
  "attach M ph new_pid k =
     (let (ret, port) = task_for_pid M k new_pid; ad = \<lparr>pid = new_pid, task = port\<rparr>
      in if ret \<noteq> KERN_SUCCESS
         then (Inl (Throw (Runtime_error (string_printf ph ''can't get task for pid %d (%d)''
                [PInt new_pid, PInt ret]))), ad)
         else (Inr (), ad))"

text \<open>The new protection of a region: the bits in the mask are cleared, then set from \<open>prot\<close>.\<close>

definition new_protection :: "32 word \<Rightarrow> byte \<Rightarrow> byte \<Rightarrow> 32 word" where
  "new_protection p0 prot prot_mask =
     (let p1 = (if prot_mask AND READABLE \<noteq> 0
                then (if prot AND READABLE \<noteq> 0 then (p0 AND NOT VM_PROT_READ) OR VM_PROT_READ
                      else p0 AND NOT VM_PROT_READ) else p0);
          p2 = (if prot_mask AND WRITABLE \<noteq> 0
                then (if prot AND WRITABLE \<noteq> 0 then (p1 AND NOT VM_PROT_WRITE) OR VM_PROT_WRITE
                      else p1 AND NOT VM_PROT_WRITE) else p1)
      in if prot_mask AND EXECUTABLE \<noteq> 0
         then (if prot AND EXECUTABLE \<noteq> 0 then (p2 AND NOT VM_PROT_EXECUTE) OR VM_PROT_EXECUTE
               else p2 AND NOT VM_PROT_EXECUTE) else p2)"

definition set_protection ::
  "'k mach \<Rightarrow> phosg \<Rightarrow> adapter \<Rightarrow> u64 \<Rightarrow> u64 \<Rightarrow> byte \<Rightarrow> byte \<Rightarrow> ('k, unit) effect" where
  "set_protection M ph ad a sz prot prot_mask k =
     (let (ret, a', vm_size, info) = mach_vm_region M k (task ad) a
      in if ret \<noteq> KERN_SUCCESS
         then (Inl (Throw (Runtime_error (string_printf ph
                ''can't read region in process %d at %016llX:%016zX (%d)''
                [PInt (pid ad), PInt (uint a'), PInt (uint sz), PInt ret]))), k)
         else
           let (ret', k') = mach_vm_protect M k (task ad) a' vm_size
                 (new_protection (info_protection info) prot prot_mask)
           in if ret' \<noteq> KERN_SUCCESS
              then (Inl (Throw (Runtime_error (string_printf ph
                     ''can't set protection in process %d at %016llX:%016llX (%d)''
                     [PInt (pid ad), PInt (uint a'), PInt (uint vm_size), PInt ret']))), k')
              else (Inr (), k'))"

text \<open>
  \<open>string read(addr, size)\<close> and \<open>void read(Region& r)\<close>. The buffer of \<open>size\<close> bytes is taken to
  be available; the shell's own buffers, of a size the user types, may fail (\<open>new_string\<close>).
\<close>

definition read_bytes :: "'k mach \<Rightarrow> phosg \<Rightarrow> adapter \<Rightarrow> u64 \<Rightarrow> u64 \<Rightarrow> ('k, byte list) effect" where
  "read_bytes M ph ad a sz k =
     (let (ret, bytes) = mach_vm_read_overwrite M k (task ad) a sz
      in if ret \<noteq> KERN_SUCCESS
         then (Inl (Throw (Runtime_error (string_printf ph
                ''can't read from process %d at %016llX:%016zX (%d)''
                [PInt (pid ad), PInt (uint a), PInt (uint sz), PInt ret]))), k)
         else (Inr bytes, k))"

text \<open>
  \<open>void read(Region& r)\<close>: the region is a reference, so it is returned also when the function
  throws, with the data it has at that point.
\<close>

definition read_region ::
  "'k mach \<Rightarrow> phosg \<Rightarrow> adapter \<Rightarrow> region \<Rightarrow> 'k \<Rightarrow> unit res \<times> region \<times> 'k" where
  "read_region M ph ad r k =
     (let unreadable = (protection r AND READABLE = 0)
      in case (if unreadable
               then set_protection M ph ad (region_addr r) (region_size r) (protection r OR READABLE) ALL_ACCESS k
               else (Inr (), k))
         of (Inl f, k1) \<Rightarrow> (Inl f, r, k1)
          | (Inr _, k1) \<Rightarrow>
              (case read_bytes M ph ad (region_addr r) (region_size r) k1
               of (Inl f, k2) \<Rightarrow> (Inl f, r, k2)
                | (Inr bytes, k2) \<Rightarrow>
                    (let r' = r\<lparr>region_data := bytes\<rparr>
                     in case (if unreadable
                              then set_protection M ph ad (region_addr r) (region_size r) (protection r) ALL_ACCESS k2
                              else (Inr (), k2))
                        of (Inl f, k3) \<Rightarrow> (Inl f, r', k3)
                         | (Inr _, k3) \<Rightarrow> (Inr (), r', k3))))"

fun read_regions ::
  "'k mach \<Rightarrow> phosg \<Rightarrow> adapter \<Rightarrow> region list \<Rightarrow> 'k \<Rightarrow> unit res \<times> region list \<times> 'k" where
  "read_regions M ph ad [] k = (Inr (), [], k)"
| "read_regions M ph ad (r # rs) k =
     (case read_region M ph ad r k
      of (Inl f, r', k') \<Rightarrow> (Inl f, r' # rs, k')
       | (Inr _, r', k') \<Rightarrow>
           (case read_regions M ph ad rs k' of (res, rs', k'') \<Rightarrow> (res, r' # rs', k'')))"

text \<open>\<open>try { this->read(r); } catch (const runtime_error& e) { }\<close>.\<close>

definition try_read_region :: "'k mach \<Rightarrow> phosg \<Rightarrow> adapter \<Rightarrow> region \<Rightarrow> ('k, region) effect" where
  "try_read_region M ph ad r k =
     (case read_region M ph ad r k
      of (Inl f, r', k') \<Rightarrow> if is_runtime_error f then (Inr r', k') else (Inl f, k')
       | (Inr _, r', k') \<Rightarrow> (Inr r', k'))"

text \<open>The same under \<open>if (read_data)\<close>.\<close>

definition read_if :: "'k mach \<Rightarrow> phosg \<Rightarrow> adapter \<Rightarrow> bool \<Rightarrow> region \<Rightarrow> ('k, region) effect" where
  "read_if M ph ad read_data r k =
     (if read_data then try_read_region M ph ad r k else (Inr r, k))"

definition get_region ::
  "'k mach \<Rightarrow> phosg \<Rightarrow> adapter \<Rightarrow> u64 \<Rightarrow> bool \<Rightarrow> ('k, region) effect" where
  "get_region M ph ad a read_data k =
     (let (ret, a', sz, info) = mach_vm_region M k (task ad) a
      in if ret \<noteq> KERN_SUCCESS then (Inl (Throw (Out_of_range ''no region found'')), k)
         else
           let r = region_of_info a' sz info
           in read_if M ph ad read_data r k)"

text \<open>
  \<open>get_all_regions\<close>: the loop ends when \<open>get_region\<close> throws \<open>out_of_range\<close>. Nothing in the
  code bounds it, so it is a partial function.
\<close>

partial_function (option) get_all_regions_from ::
  "'k mach \<Rightarrow> phosg \<Rightarrow> adapter \<Rightarrow> bool \<Rightarrow> u64 \<Rightarrow> region list \<Rightarrow> 'k \<Rightarrow> (region list res \<times> 'k) option" where
  "get_all_regions_from M ph ad read_data a ret k =
     (case get_region M ph ad a read_data k
      of (Inl f, k') \<Rightarrow> if is_out_of_range f then Some (Inr ret, k') else Some (Inl f, k')
       | (Inr r, k') \<Rightarrow> get_all_regions_from M ph ad read_data (end_addr r) (ret @ [r]) k')"

definition get_all_regions ::
  "'k mach \<Rightarrow> phosg \<Rightarrow> adapter \<Rightarrow> bool \<Rightarrow> 'k \<Rightarrow> (region list res \<times> 'k) option" where
  "get_all_regions M ph ad read_data k = get_all_regions_from M ph ad read_data 0 [] k"

text \<open>
  \<open>get_target_regions\<close>: \<open>targets\<close> is what \<open>target_it\<close> has not passed. The test
  \<open>*target_it < r.end_addr()\<close> comes without a check that targets are left; \<open>past_end\<close> is what
  the read through the end iterator gives: some value that lies behind the vector, or
  \<open>None\<close> when the access is caught (undefined behaviour).
\<close>

partial_function (option) get_target_regions_from ::
  "'k mach \<Rightarrow> phosg \<Rightarrow> adapter \<Rightarrow> u64 option \<Rightarrow> bool \<Rightarrow> u64 list \<Rightarrow> u64 \<Rightarrow> region list \<Rightarrow> 'k
     \<Rightarrow> (region list res \<times> 'k) option" where
  "get_target_regions_from M ph ad past_end read_data targets a ret k =
     (if targets = [] then Some (Inr ret, k)
      else case get_region M ph ad a False k
        of (Inl f, k1) \<Rightarrow> if is_out_of_range f then Some (Inr ret, k1) else Some (Inl f, k1)
         | (Inr r, k1) \<Rightarrow>
             (let targets' = dropWhile (\<lambda>t. t < region_addr r) targets
              in case (case targets' of t # _ \<Rightarrow> Some t | [] \<Rightarrow> past_end)
                 of None \<Rightarrow> Some (Inl (Undefined Past_end), k1)
                  | Some t \<Rightarrow>
                      if t < end_addr r then
                        (case read_if M ph ad read_data r k1
                         of (Inl f, k2) \<Rightarrow> if is_out_of_range f then Some (Inr ret, k2) else Some (Inl f, k2)
                          | (Inr r', k2) \<Rightarrow>
                              get_target_regions_from M ph ad past_end read_data targets'
                                (end_addr r) (ret @ [r']) k2)
                      else
                        get_target_regions_from M ph ad past_end read_data targets' (end_addr r) ret k1))"

definition get_target_regions ::
  "'k mach \<Rightarrow> phosg \<Rightarrow> adapter \<Rightarrow> u64 option \<Rightarrow> u64 list \<Rightarrow> bool \<Rightarrow> 'k
     \<Rightarrow> (region list res \<times> 'k) option" where
  "get_target_regions M ph ad past_end target_addresses read_data k =
     get_target_regions_from M ph ad past_end read_data target_addresses 0 [] k"

definition allocate :: "'k mach \<Rightarrow> phosg \<Rightarrow> adapter \<Rightarrow> u64 \<Rightarrow> u64 \<Rightarrow> ('k, u64) effect" where
  "allocate M ph ad a sz k =
     (let (ret, a', k') = vm_allocate M k (task ad) a sz (a = 0)
      in if ret \<noteq> KERN_SUCCESS
         then (Inl (Throw (Runtime_error (string_printf ph
                ''can't allocate memory in process %d at %016lX:%016zX (%d)''
                [PInt (pid ad), PInt (uint a'), PInt (uint sz), PInt ret]))), k')
         else (Inr a', k'))"

definition deallocate :: "'k mach \<Rightarrow> phosg \<Rightarrow> adapter \<Rightarrow> u64 \<Rightarrow> u64 \<Rightarrow> ('k, unit) effect" where
  "deallocate M ph ad a sz k =
     (let (ret, k') = vm_deallocate M k (task ad) a sz
      in if ret \<noteq> KERN_SUCCESS
         then (Inl (Throw (Runtime_error (string_printf ph
                ''can't deallocate memory in process %d at %016lX:%016zX (%d)''
                [PInt (pid ad), PInt (uint a), PInt (uint sz), PInt ret]))), k')
         else (Inr (), k'))"

definition write_bytes :: "'k mach \<Rightarrow> phosg \<Rightarrow> adapter \<Rightarrow> u64 \<Rightarrow> byte list \<Rightarrow> ('k, unit) effect" where
  "write_bytes M ph ad a bytes k =
     (let (ret, k') = mach_vm_write M k (task ad) a bytes
      in if ret \<noteq> KERN_SUCCESS
         then (Inl (Throw (Runtime_error (string_printf ph
                ''can't write to process %d at %016llX:%016zX (%d)''
                [PInt (pid ad), PInt (uint a), PInt (int (length bytes)), PInt ret]))), k')
         else (Inr (), k'))"

definition pause :: "'k mach \<Rightarrow> phosg \<Rightarrow> adapter \<Rightarrow> ('k, unit) effect" where
  "pause M ph ad k =
     (let (ret, k') = task_suspend M k (task ad)
      in if ret \<noteq> KERN_SUCCESS
         then (Inl (Throw (Runtime_error (string_printf ph ''can't pause process %d (%d)''
                [PInt (pid ad), PInt ret]))), k')
         else (Inr (), k'))"

definition resume :: "'k mach \<Rightarrow> phosg \<Rightarrow> adapter \<Rightarrow> ('k, unit) effect" where
  "resume M ph ad k =
     (let (ret, k') = task_resume M k (task ad)
      in if ret \<noteq> KERN_SUCCESS
         then (Inl (Throw (Runtime_error (string_printf ph ''can't resume process %d (%d)''
                [PInt (pid ad), PInt ret]))), k')
         else (Inr (), k'))"

definition terminate :: "'k mach \<Rightarrow> phosg \<Rightarrow> adapter \<Rightarrow> ('k, unit) effect" where
  "terminate M ph ad k =
     (let (ret, k') = task_terminate M k (task ad)
      in if ret \<noteq> KERN_SUCCESS
         then (Inl (Throw (Runtime_error (string_printf ph ''can't terminate process %d (%d)''
                [PInt (pid ad), PInt ret]))), k')
         else (Inr (), k'))"

definition get_thread_ports :: "'k mach \<Rightarrow> phosg \<Rightarrow> adapter \<Rightarrow> 'k \<Rightarrow> port list res" where
  "get_thread_ports M ph ad k =
     (let (ret, threads) = task_threads M k (task ad)
      in if ret \<noteq> KERN_SUCCESS
         then Inl (Throw (Runtime_error (string_printf ph
                ''can't read thread list for process %d'' [PInt (pid ad)])))
         else Inr threads)"

definition terminate_thread :: "'k mach \<Rightarrow> phosg \<Rightarrow> port \<Rightarrow> ('k, unit) effect" where
  "terminate_thread M ph thread_port k =
     (let (ret, k') = thread_terminate M k thread_port
      in if ret \<noteq> KERN_SUCCESS
         then (Inl (Throw (Runtime_error (string_printf ph ''can't terminate thread (%d)''
                [PInt ret]))), k')
         else (Inr (), k'))"

text \<open>
  The scope of a \<open>PauseGuard\<close>: the constructor pauses when it is given an adapter, the
  destructor resumes however the scope is left. Destructors are \<open>noexcept\<close>, so a throwing
  \<open>resume\<close> ends the program.
\<close>

definition with_pause_guard ::
  "'k mach \<Rightarrow> phosg \<Rightarrow> adapter option \<Rightarrow> ('k, 'a) partial_effect \<Rightarrow> ('k, 'a) partial_effect" where
  "with_pause_guard M ph guard body k =
     (case guard of
        None \<Rightarrow> body k
      | Some ad \<Rightarrow>
          (case pause M ph ad k of
             (Inl f, k1) \<Rightarrow> Some (Inl f, k1)
           | (Inr _, k1) \<Rightarrow>
               (case body k1 of
                  None \<Rightarrow> None
                | Some (res, k2) \<Rightarrow>
                    (case resume M ph ad k2 of
                       (Inl f, k3) \<Rightarrow> Some (Inl Terminate, k3)
                     | (Inr _, k3) \<Rightarrow> Some (res, k3)))))"

end
