(* ===== verification/MemorySearch.thy ===== *)
theory MemorySearch
  imports Evaluators ProcessMemoryAdapter
begin

text \<open>
  The class MemorySearch: one iteration of a search, with the snapshot it was made from and
  the addresses it found. \<open>update\<close> is translated loop by loop; the progress output (which
  only prints) is left out. Results and addresses are 64-bit words, with the wrap-around of
  \<open>uint64_t\<close>; reads through pointers into the snapshots are checked against the buffer.
\<close>

section \<open>State\<close>

text \<open>\<open>memory\<close> is a shared pointer to a snapshot that nothing modifies; \<open>None\<close> is null.\<close>

record memory_search =
  search_type :: search_type
  results_valid :: bool
  all_memory :: bool
  memory :: "region list option"
  prev_size :: nat
  results :: "u64 list"
  annotation :: string

definition new_memory_search :: "search_type \<Rightarrow> bool \<Rightarrow> memory_search" where
  "new_memory_search t all_mem =
     \<lparr>search_type = t, results_valid = False, all_memory = all_mem, memory = None,
      prev_size = 0, results = [], annotation = []\<rparr>"

definition set_annotation :: "string \<Rightarrow> memory_search \<Rightarrow> memory_search" where
  "set_annotation text s = s\<lparr>annotation := text\<rparr>"

definition has_memory_snapshot :: "memory_search \<Rightarrow> bool" where
  "has_memory_snapshot s \<longleftrightarrow> memory s \<noteq> None"

definition has_valid_results :: "memory_search \<Rightarrow> bool" where
  "has_valid_results s \<longleftrightarrow> results_valid s"

section \<open>The precondition check\<close>

definition check_can_update :: "memory_search \<Rightarrow> predicate \<Rightarrow> byte list \<Rightarrow> unit res" where
  "check_can_update s p data_c =
     (if evaluator_for (search_type s) p = None
      then Inl (Throw (Invalid_argument ''predicate not valid for search type''))
      else if search_type s \<noteq> DATA \<and> data_c \<noteq> [] \<and>
              length data_c \<noteq> value_size_for_search_type (search_type s)
      then Inl (Throw (Invalid_argument ''provided data has incorrect size''))
      else if memory s = None \<and> data_c = [] \<and> p \<noteq> ALL_P
      then Inl (Throw (Invalid_argument ''initial searches must have a value or null predicate''))
      else if memory s = None \<and> search_type s = DATA \<and> data_c = []
      then Inl (Throw (Invalid_argument ''initial data search must have nonzero size''))
      else Inr ())"

section \<open>First search with a known value\<close>

text \<open>
  The loop over the cells of one region. The bound \<open>region.size - data.size()\<close> is computed in
  64 bits, as is \<open>y += field_size\<close>.
\<close>

partial_function (option) scan_region ::
  "encoding \<Rightarrow> evaluator \<Rightarrow> u64 \<Rightarrow> byte list \<Rightarrow> nat \<Rightarrow> region \<Rightarrow> u64 \<Rightarrow> u64 list \<Rightarrow> u64 list prog" where
  "scan_region enc ev fs d max_results r y found =
     (if y < region_size r - of_nat (length d) \<and> length found < max_results
      then (case run_evaluator enc ev (at_offset (region_data r) (unat y)) (at_offset d 0) (length d)
            of Inl f \<Rightarrow> Some (Inl f)
             | Inr b \<Rightarrow> scan_region enc ev fs d max_results r (y + fs)
                          (if b then found @ [region_addr r + y] else found))
      else Some (Inr found))"

fun scan_regions ::
  "encoding \<Rightarrow> evaluator \<Rightarrow> u64 \<Rightarrow> byte list \<Rightarrow> nat \<Rightarrow> region list \<Rightarrow> u64 list \<Rightarrow> u64 list prog" where
  "scan_regions enc ev fs d max_results [] found = Some (Inr found)"
| "scan_regions enc ev fs d max_results (r # rs) found =
     (if region_data r = [] then scan_regions enc ev fs d max_results rs found
      else prog_bind (scan_region enc ev fs d max_results r 0 found)
             (scan_regions enc ev fs d max_results rs))"

section \<open>Second search after an unknown value\<close>

text \<open>
  The loop over one new region. The index into the old regions is carried along; \<open>continue\<close>
  runs the increment of the loop header. The old region that is skipped to may start beyond
  the new one, in which case the loop ends.
\<close>

partial_function (option) scan_changed_region ::
  "encoding \<Rightarrow> evaluator \<Rightarrow> u64 \<Rightarrow> byte list \<Rightarrow> nat \<Rightarrow> region list \<Rightarrow> region \<Rightarrow> u64 \<Rightarrow> nat \<Rightarrow> u64 list
     \<Rightarrow> (nat \<times> u64 list) prog" where
  "scan_changed_region enc ev fs d psize old r y i found =
     (if \<not> y < region_size r then Some (Inr (i, found))
      else if region_data r = [] then scan_changed_region enc ev fs d psize old r (y + fs) i found
      else
        (let i' = skip_while (\<lambda>o_r. region_data o_r = [] \<or> end_addr o_r \<le> region_addr r + y) old i
         in if length old \<le> i' then Some (Inr (i', found))
            else if region_addr r + y < region_addr (old ! i')
            then scan_changed_region enc ev fs d psize old r
                   ((region_addr (old ! i') - region_addr r - fs) + fs) i' found
            else
              (let old_y = region_addr r + y - region_addr (old ! i')
               in case run_evaluator enc ev (at_offset (region_data r) (unat y))
                         (if d = [] then at_offset (region_data (old ! i')) (unat old_y)
                          else at_offset d 0)
                         (if d = [] then psize else length d)
                  of Inl f \<Rightarrow> Some (Inl f)
                   | Inr b \<Rightarrow> scan_changed_region enc ev fs d psize old r (y + fs) i'
                                (if b then found @ [region_addr r + y] else found))))"

fun scan_changed_regions ::
  "encoding \<Rightarrow> evaluator \<Rightarrow> u64 \<Rightarrow> byte list \<Rightarrow> nat \<Rightarrow> region list \<Rightarrow> region list \<Rightarrow> nat \<Rightarrow> u64 list
     \<Rightarrow> u64 list prog" where
  "scan_changed_regions enc ev fs d psize old [] i found = Some (Inr found)"
| "scan_changed_regions enc ev fs d psize old (r # rs) i found =
     prog_bind (scan_changed_region enc ev fs d psize old r 0 i found)
       (\<lambda>(i', found'). scan_changed_regions enc ev fs d psize old rs i' found')"

section \<open>Narrowing existing results\<close>

text \<open>
  One result: the new value of the cell, 0 for a deleted result. The two indices advance
  past the regions that end before the result.
\<close>

definition verify_result ::
  "encoding \<Rightarrow> evaluator \<Rightarrow> byte list \<Rightarrow> nat \<Rightarrow> region list \<Rightarrow> region list \<Rightarrow> u64 \<Rightarrow> nat \<Rightarrow> nat \<Rightarrow> u64 res" where
  "verify_result enc ev d psize old new res oi ni =
     (if length new \<le> ni \<or> length old \<le> oi then Inr 0
      else
        (let new_r = new ! ni; old_r = old ! oi
         in if res < region_addr new_r \<or> res < region_addr old_r then Inr 0
            else if region_data new_r = [] then Inr 0
            else
              res_bind
                (run_evaluator enc ev (at_offset (region_data new_r) (unat (res - region_addr new_r)))
                   (if d = [] then at_offset (region_data old_r) (unat (res - region_addr old_r))
                    else at_offset d 0)
                   (if d = [] then psize else length d))
                (\<lambda>b. Inr (if b then res else 0))))"

fun verify_results ::
  "encoding \<Rightarrow> evaluator \<Rightarrow> byte list \<Rightarrow> nat \<Rightarrow> region list \<Rightarrow> region list \<Rightarrow> u64 list \<Rightarrow> nat \<Rightarrow> nat
     \<Rightarrow> u64 list res" where
  "verify_results enc ev d psize old new [] oi ni = Inr []"
| "verify_results enc ev d psize old new (res # rest) oi ni =
     (let ni' = skip_while (\<lambda>r. end_addr r \<le> res) new ni;
          oi' = skip_while (\<lambda>r. end_addr r \<le> res) old oi
      in res_bind (verify_result enc ev d psize old new res oi' ni')
           (\<lambda>v. res_bind (verify_results enc ev d psize old new rest oi' ni')
             (\<lambda>vs. Inr (v # vs))))"

text \<open>The compaction loop, in place, and the final \<open>resize\<close>.\<close>

function compact :: "u64 list \<Rightarrow> nat \<Rightarrow> nat \<Rightarrow> u64 list" where
  "compact rs x num_results =
     (if x < length rs
      then (if rs ! x \<noteq> 0 then compact (rs[num_results := rs ! x]) (Suc x) (Suc num_results)
            else compact rs (Suc x) num_results)
      else take num_results rs)"
  by pat_completeness auto
termination
  by (relation "measure (\<lambda>(rs, x, n). length rs - x)") auto

declare compact.simps [simp del]

section \<open>update\<close>

definition update ::
  "encoding \<Rightarrow> memory_search \<Rightarrow> region list \<Rightarrow> predicate \<Rightarrow> byte list \<Rightarrow> nat \<Rightarrow> memory_search prog" where
  "update enc s new_memory p d max_results =
     (case check_can_update s p d of
        Inl f \<Rightarrow> Some (Inl f)
      | Inr _ \<Rightarrow>
          (let ev = the (evaluator_for (search_type s) p);
               fs = of_nat (field_size (search_type s)) :: u64
           in case memory s of
                None \<Rightarrow>
                  if p = ALL_P then Some (Inr (s\<lparr>memory := Some new_memory\<rparr>))
                  else prog_bind (scan_regions enc ev fs d max_results new_memory (results s))
                    (\<lambda>found. Some (Inr (s\<lparr>results := found, results_valid := True,
                       prev_size := length d, memory := Some new_memory\<rparr>)))
              | Some old \<Rightarrow>
                  if \<not> results_valid s
                  then prog_bind
                    (scan_changed_regions enc ev fs d (prev_size s) old new_memory 0 (results s))
                    (\<lambda>found. Some (Inr (s\<lparr>results := found, results_valid := True,
                       prev_size := length d, memory := Some new_memory\<rparr>)))
                  else (case verify_results enc ev d (prev_size s) old new_memory (results s) 0 0 of
                      Inl f \<Rightarrow> Some (Inl f)
                    | Inr marked \<Rightarrow> Some (Inr (s\<lparr>results := compact marked 0 0,
                        prev_size := length d, memory := Some new_memory\<rparr>)))))"

section \<open>Deleting results\<close>

text \<open>\<open>std::lower_bound\<close>: bisection of the range that starts at \<open>first\<close> and has \<open>len\<close> elements.\<close>

function lower_bound_from :: "u64 list \<Rightarrow> u64 \<Rightarrow> nat \<Rightarrow> nat \<Rightarrow> nat" where
  "lower_bound_from xs v first len =
     (if len = 0 then first
      else
        (let half = len div 2
         in if xs ! (first + half) < v
            then lower_bound_from xs v (first + half + 1) (len - (half + 1))
            else lower_bound_from xs v first half))"
  by pat_completeness auto
termination
  by (relation "measure (\<lambda>(xs, v, first, len). len)") auto

declare lower_bound_from.simps [simp del]

definition lower_bound :: "u64 list \<Rightarrow> u64 \<Rightarrow> nat" where
  "lower_bound xs v = lower_bound_from xs v 0 (length xs)"

definition erase :: "'a list \<Rightarrow> nat \<Rightarrow> nat \<Rightarrow> 'a list res" where
  "erase xs i j = (if i \<le> j then Inr (take i xs @ drop j xs) else Inl (Undefined Bad_erase))"

definition delete_results :: "memory_search \<Rightarrow> u64 \<Rightarrow> u64 \<Rightarrow> memory_search res" where
  "delete_results s start end_incl =
     (let start_it = lower_bound (results s) start;
          end_it = lower_bound (results s) (end_incl + 1)
      in res_bind (erase (results s) start_it end_it) (\<lambda>rs. Inr (s\<lparr>results := rs\<rparr>)))"

end
