(* ===== verification/EvaluatorProps.thy ===== *)
theory EvaluatorProps
  imports Evaluators
begin

text \<open>
  What the comparators of \<open>Evaluators\<close> compute: the relational ones compare a numeric key of
  the two cells, the flag ones ask for a difference of one bit. The order facts shared by all
  types are proved once, in the locales \<open>comparator\<close> and \<open>total_comparator\<close>.
\<close>

section \<open>The comparator contract\<close>

locale comparator =
  fixes cmp :: "relop \<Rightarrow> 'c \<Rightarrow> 'c \<Rightarrow> bool"
  assumes cmp_gt: "cmp GT a b \<longleftrightarrow> cmp LT b a"
    and cmp_ge: "cmp GE a b \<longleftrightarrow> cmp LE b a"
    and cmp_ne: "cmp NE a b \<longleftrightarrow> \<not> cmp EQ a b"
    and cmp_le: "cmp LE a b \<longleftrightarrow> cmp LT a b \<or> cmp EQ a b"
    and cmp_eq_sym: "cmp EQ a b \<Longrightarrow> cmp EQ b a"
    and cmp_lt_asym: "cmp LT a b \<Longrightarrow> \<not> cmp LT b a"
    and cmp_lt_not_eq: "cmp LT a b \<Longrightarrow> \<not> cmp EQ a b"
    and cmp_lt_trans: "cmp LT a b \<Longrightarrow> cmp LT b c \<Longrightarrow> cmp LT a c"
begin

lemma cmp_exclusive: "cmp oper a b \<Longrightarrow> oper \<in> {LT, LE} \<Longrightarrow> \<not> cmp GT a b"
  using cmp_lt_asym cmp_gt cmp_le cmp_lt_not_eq cmp_eq_sym by blast

lemma cmp_le_antisym: "cmp LE a b \<Longrightarrow> cmp LE b a \<Longrightarrow> cmp EQ a b"
  using cmp_le cmp_lt_asym cmp_lt_not_eq cmp_eq_sym by blast

end

fun negated :: "relop \<Rightarrow> relop" where
  "negated LT = GE" | "negated GT = LE" | "negated LE = GT"
| "negated GE = LT" | "negated EQ = NE" | "negated NE = EQ"

locale total_comparator = comparator +
  assumes cmp_total: "cmp LT a b \<or> cmp EQ a b \<or> cmp LT b a"
begin

lemma cmp_negated: "cmp (negated oper) a b \<longleftrightarrow> \<not> cmp oper a b"
  using cmp_total [of a b] cmp_lt_asym [of a b] cmp_lt_not_eq [of a b] cmp_lt_not_eq [of b a]
    cmp_eq_sym [of a b] cmp_eq_sym [of b a]
  by (cases oper) (auto simp: cmp_gt cmp_ge cmp_ne cmp_le)

end

interpretation keyed: total_comparator "\<lambda>oper x y. rel oper (key x) (key y)"
  for key :: "'c \<Rightarrow> 'k::linorder"
  by unfold_locales auto

interpretation ieee: comparator "float_rel m e" for m e
  by unfold_locales (auto simp: float_rel_def split: if_splits)

section \<open>The table\<close>

text \<open>The scalar type, and the relational operator, that a search type and a predicate name.\<close>

fun type_prim :: "search_type \<Rightarrow> prim option" where
  "type_prim UINT8 = Some U8" | "type_prim UINT16 = Some U16" | "type_prim UINT16_RE = Some U16"
| "type_prim UINT32 = Some U32" | "type_prim UINT32_RE = Some U32"
| "type_prim UINT64 = Some U64" | "type_prim UINT64_RE = Some U64"
| "type_prim INT8 = Some S8" | "type_prim INT16 = Some S16" | "type_prim INT16_RE = Some S16"
| "type_prim INT32 = Some S32" | "type_prim INT32_RE = Some S32"
| "type_prim INT64 = Some S64" | "type_prim INT64_RE = Some S64"
| "type_prim FLOAT = Some F32" | "type_prim FLOAT_RE = Some F32"
| "type_prim DOUBLE = Some F64" | "type_prim DOUBLE_RE = Some F64"
| "type_prim DATA = None"

fun relop_of :: "predicate \<Rightarrow> relop option" where
  "relop_of LESS = Some LT" | "relop_of GREATER = Some GT"
| "relop_of LESS_OR_EQUAL = Some LE" | "relop_of GREATER_OR_EQUAL = Some GE"
| "relop_of EQUAL = Some EQ" | "relop_of NOT_EQUAL = Some NE"
| "relop_of FLAG = None" | "relop_of ALL_P = None"

definition is_float :: "prim \<Rightarrow> bool" where
  "is_float p \<longleftrightarrow> p = F32 \<or> p = F64"

definition table_row :: "search_type \<Rightarrow> evaluator option list" where
  "table_row t =
     (case type_prim t of
        None \<Rightarrow> infix_function_pointers_for_data
      | Some p \<Rightarrow>
          if is_reverse_endian_search_type t
          then if is_float p then infix_function_pointers_for_type_re_noflag p
               else infix_function_pointers_for_type_re p
          else if is_float p then infix_function_pointers_for_type_noflag p
               else infix_function_pointers_for_type p)"

lemma table_row_entry:
  "search_type_configs ! type_index t = (table_row t, max 1 (value_size_for_search_type t))"
  by (cases t)
    (simp_all add: table_row_def search_type_configs_def is_reverse_endian_search_type_def
      is_float_def value_size_for_search_type_def)

lemma field_size_eq: "field_size t = max 1 (value_size_for_search_type t)"
  by (simp add: field_size_def table_row_entry)

lemma evaluator_for_row: "evaluator_for t p = table_row t ! predicate_index p"
  by (simp add: evaluator_for_def table_row_entry)

lemmas infix_defs =
  infix_function_pointers_for_type_def infix_function_pointers_for_type_noflag_def
  infix_function_pointers_for_type_re_def infix_function_pointers_for_type_re_noflag_def
  infix_function_pointers_for_data_def

definition relational_entry :: "search_type \<Rightarrow> relop \<Rightarrow> evaluator" where
  "relational_entry t oper =
     (case type_prim t of
        None \<Rightarrow> Data_op_function oper
      | Some p \<Rightarrow>
          if is_reverse_endian_search_type t
          then if is_float p then Float_op_function_re oper p else Int_op_function_re oper p
          else Op_function oper p)"

lemma evaluator_for_relop:
  "relop_of p = Some oper \<Longrightarrow> evaluator_for t p = Some (relational_entry t oper)"
  by (cases p)
    (auto simp: evaluator_for_row table_row_def relational_entry_def infix_defs
      split: option.splits)

lemma evaluator_for_all: "evaluator_for t ALL_P = Some Null_pred"
  by (simp add: evaluator_for_row table_row_def infix_defs split: option.split)

lemma evaluator_for_flag:
  "evaluator_for t FLAG =
     (case type_prim t of
        None \<Rightarrow> Some Data_flag
      | Some p \<Rightarrow> if is_float p then None else Some (Flag_op_function p))"
  by (simp add: evaluator_for_row table_row_def infix_defs split: option.split)

text \<open>
  The evaluator table has an entry for every type and predicate except the flag
  predicate of the four floating-point types, so those are exactly the searches refused
  with "predicate not valid for search type".
\<close>

theorem evaluator_missing_iff:
  "evaluator_for t p = None \<longleftrightarrow> p = FLAG \<and> t \<in> {FLOAT, FLOAT_RE, DOUBLE, DOUBLE_RE}"
proof (cases "relop_of p")
  case None
  then have "p = FLAG \<or> p = ALL_P" by (cases p) auto
  then show ?thesis
  proof
    assume "p = FLAG"
    then show ?thesis by (cases t) (simp_all add: evaluator_for_flag is_float_def)
  next
    assume "p = ALL_P"
    then show ?thesis by (simp add: evaluator_for_all)
  qed
next
  case (Some oper)
  then show ?thesis by (auto simp: evaluator_for_relop)
qed

section \<open>Relational evaluators\<close>

text \<open>
  The value a cell has: the number in its bytes, in the byte order and with the sign of the
  type. Byte strings are ordered as big-endian numbers are.
\<close>

definition cell_value :: "search_type \<Rightarrow> byte list \<Rightarrow> int" where
  "cell_value t bs =
     (case type_prim t of
        None \<Rightarrow> int (le_nat (rev bs))
      | Some p \<Rightarrow> prim_int p (if is_reverse_endian_search_type t then rev bs else bs))"

definition signed_reverse :: "search_type \<Rightarrow> bool" where
  "signed_reverse t \<longleftrightarrow> t \<in> {INT16_RE, INT32_RE, INT64_RE}"

text \<open>
  The number the code compares in its place: the same, except that in reverse byte order it is
  unsigned for the signed types as well.
\<close>

definition cell_key :: "search_type \<Rightarrow> byte list \<Rightarrow> int" where
  "cell_key t bs =
     (case type_prim t of
        None \<Rightarrow> int (le_nat (rev bs))
      | Some p \<Rightarrow> if is_reverse_endian_search_type t then int (le_nat (rev bs)) else prim_int p bs)"

definition cell_size :: "search_type \<Rightarrow> nat \<Rightarrow> nat" where
  "cell_size t sz = (if t = DATA then sz else value_size_for_search_type t)"

lemma le_nat_append: "le_nat (xs @ ys) = le_nat xs + 256 ^ length xs * le_nat ys"
  by (induction xs) (simp_all add: algebra_simps)

lemma memcmp_sign:
  "length x = length y \<Longrightarrow>
     (memcmp x y < 0 \<longleftrightarrow> le_nat (rev x) < le_nat (rev y)) \<and>
     (memcmp x y = 0 \<longleftrightarrow> le_nat (rev x) = le_nat (rev y))"
proof (induction x y rule: list_induct2)
  case Nil
  show ?case by simp
next
  case (Cons a x b y)
  let ?m = "256 ^ length x :: nat"
  have x: "le_nat (rev x) < ?m" using le_nat_less [of "rev x"] by simp
  have y: "le_nat (rev y) < ?m" using le_nat_less [of "rev y"] Cons.hyps by simp
  consider "a < b" | "b < a" | "a = b" by force
  then show ?case
  proof cases
    case 1
    then have "Suc (unat a) * ?m \<le> unat b * ?m"
      by (intro mult_right_mono) (simp_all add: word_less_nat_alt)
    with 1 x show ?thesis by (simp add: le_nat_append Cons.hyps algebra_simps)
  next
    case 2
    then have "Suc (unat b) * ?m \<le> unat a * ?m"
      by (intro mult_right_mono) (simp_all add: word_less_nat_alt)
    with 2 y show ?thesis by (simp add: le_nat_append Cons.hyps algebra_simps)
  next
    case 3
    with Cons.IH show ?thesis by (simp add: le_nat_append Cons.hyps)
  qed
qed

lemma memcmp_rel:
  assumes "length x = length y"
  shows "rel oper (memcmp x y) 0 \<longleftrightarrow> rel oper (le_nat (rev x)) (le_nat (rev y))"
  using memcmp_sign [OF assms] by (cases oper) (auto simp: not_less le_less)

lemma bswap_bits_rev:
  assumes "bswap_ok enc" and "length bs = prim_size p" and "1 < prim_size p"
  shows "bswap_bits enc p bs = le_nat (rev bs)"
  using assms by (cases p) (simp_all add: bswap_ok_def)

lemma rel_int [simp]: "rel oper (int x) (int y) = rel oper x y"
  by (cases oper) simp_all

lemma load2_ok:
  "n \<le> length a \<Longrightarrow> n \<le> length b \<Longrightarrow> load2 n a b k = k (take n a) (take n b)"
  by (simp add: load2_def load_def)

lemma prim_size_type:
  "type_prim t = Some p \<Longrightarrow> prim_size p = value_size_for_search_type t"
  by (cases t) (auto simp: value_size_for_search_type_def)

lemma reverse_wide:
  "type_prim t = Some p \<Longrightarrow> is_reverse_endian_search_type t \<Longrightarrow> 1 < prim_size p"
  by (cases t) (auto simp: is_reverse_endian_search_type_def)

lemma type_prim_None: "type_prim t = None \<longleftrightarrow> t = DATA"
  by (cases t) auto

lemma op_function_int:
  "\<not> is_float p \<Longrightarrow> op_function oper p x y = rel oper (prim_int p x) (prim_int p y)"
  by (cases p) (auto simp: is_float_def)

lemma run_relational_entry:
  assumes "bswap_ok enc" and "\<not> (\<exists>p. type_prim t = Some p \<and> is_float p)"
    and "n = cell_size t sz" and "n \<le> length a" and "n \<le> length b"
  shows "run_evaluator enc (relational_entry t oper) a b sz =
    Inr (rel oper (cell_key t (take n a)) (cell_key t (take n b)))"
proof (cases "type_prim t")
  case None
  with assms show ?thesis
    by (simp add: relational_entry_def cell_key_def cell_size_def type_prim_None load2_ok memcmp_rel)
next
  case (Some p)
  then have n: "n = prim_size p" and p: "\<not> is_float p"
    using assms(2,3) prim_size_type [OF Some] by (auto simp: cell_size_def)
  have swap: "bswap_bits enc p (take n bs) = le_nat (rev (take n bs))"
    if "is_reverse_endian_search_type t" "n \<le> length bs" for bs
    using that n reverse_wide [OF Some] by (intro bswap_bits_rev assms(1)) simp_all
  show ?thesis
    using assms(4,5) Some n p swap
    by (simp add: relational_entry_def cell_key_def load2_ok op_function_int)
qed

lemma relational_compares:
  assumes "bswap_ok enc"
    and "t \<notin> {FLOAT, FLOAT_RE, DOUBLE, DOUBLE_RE}"
    and "relop_of p = Some oper"
    and "cell_size t sz \<le> length a" and "cell_size t sz \<le> length b"
  shows "\<exists>ev. evaluator_for t p = Some ev \<and>
    run_evaluator enc ev a b sz =
      Inr (rel oper (cell_key t (take (cell_size t sz) a)) (cell_key t (take (cell_size t sz) b)))"
proof -
  have "\<not> (\<exists>q. type_prim t = Some q \<and> is_float q)"
    using assms(2) by (cases t) (auto simp: is_float_def)
  with assms show ?thesis
    by (simp add: evaluator_for_relop run_relational_entry)
qed

lemma signed_take_bit_small:
  fixes v :: int
  assumes "0 \<le> v" and "v < 2 * 2 ^ k"
  shows "signed_take_bit k v = (if v < 2 ^ k then v else v - 2 * 2 ^ k)"
proof -
  have "take_bit (Suc k) (v + 2 ^ k) = (if v < 2 ^ k then v + 2 ^ k else v - 2 ^ k)"
  proof (cases "v < 2 ^ k")
    case True
    then show ?thesis using assms(1) by (simp add: take_bit_int_eq_self)
  next
    case False
    then have "take_bit (Suc k) (v - 2 ^ k) = v - 2 ^ k"
      using assms(2) by (intro take_bit_int_eq_self) auto
    moreover have "v + 2 ^ k = v - 2 ^ k + 2 ^ Suc k" by simp
    ultimately show ?thesis using False by (metis take_bit_eq_mod mod_add_self2)
  qed
  then show ?thesis by (simp add: signed_take_bit_eq_take_bit_shift)
qed

text \<open>The two numbers differ by a power of two where the value is negative.\<close>

lemma signed_key:
  assumes "signed_reverse t" and "length bs = cell_size t n"
  shows "0 \<le> cell_key t bs" and "cell_key t bs < 2 * 2 ^ (8 * length bs - 1)"
    and "cell_value t bs = (if cell_key t bs < 2 ^ (8 * length bs - 1) then cell_key t bs
      else cell_key t bs - 2 * 2 ^ (8 * length bs - 1))"
proof -
  have len: "0 < length bs" and key: "cell_key t bs = int (le_nat (rev bs))"
    and val: "cell_value t bs = signed_take_bit (8 * length bs - 1) (int (le_nat (rev bs)))"
    using assms by (auto simp: signed_reverse_def cell_key_def cell_value_def cell_size_def
        is_reverse_endian_search_type_def value_size_for_search_type_def)
  have "(256 :: nat) ^ length bs = 2 ^ (8 * length bs)" by (simp add: power_mult)
  then have "(256 :: nat) ^ length bs = 2 ^ Suc (8 * length bs - 1)" using len by simp
  then have "int (le_nat (rev bs)) < int (2 ^ Suc (8 * length bs - 1))"
    using le_nat_less [of "rev bs"] by (simp only: of_nat_less_iff length_rev)
  then show small: "cell_key t bs < 2 * 2 ^ (8 * length bs - 1)"
    unfolding key by simp
  show "0 \<le> cell_key t bs" by (simp add: key)
  then show "cell_value t bs = (if cell_key t bs < 2 ^ (8 * length bs - 1) then cell_key t bs
      else cell_key t bs - 2 * 2 ^ (8 * length bs - 1))"
    using small unfolding val key by (intro signed_take_bit_small) simp_all
qed

lemma plain_key:
  assumes "\<not> signed_reverse t" and "t \<notin> {FLOAT, FLOAT_RE, DOUBLE, DOUBLE_RE}"
  shows "cell_key t bs = cell_value t bs"
  using assms by (cases t) (simp_all add: signed_reverse_def cell_key_def cell_value_def is_reverse_endian_search_type_def)

lemma key_order:
  assumes "t \<notin> {FLOAT, FLOAT_RE, DOUBLE, DOUBLE_RE}"
    and "length u = cell_size t n" and "length v = cell_size t n"
  shows "rel oper (cell_key t u) (cell_key t v) =
    (if signed_reverse t \<and> oper \<notin> {EQ, NE} \<and> (cell_value t u < 0) \<noteq> (cell_value t v < 0)
     then \<not> rel oper (cell_value t u) (cell_value t v) else rel oper (cell_value t u) (cell_value t v))"
proof (cases "signed_reverse t")
  case True
  have "length v = length u" using assms(2,3) by simp
  then show ?thesis
    using signed_key [OF True assms(2)] signed_key [OF True assms(3)] True
    by (cases oper) (auto split: if_splits)
qed (use plain_key [OF _ assms(1)] in simp)

text \<open>
  C27. For every integer type and for data, in either byte order, a relational predicate
  compares the values of the two cells with the operator it is named after, with one exception:
  for a signed type in reverse byte order the comparison is unsigned, so that an order predicate
  gives the opposite answer whenever exactly one of the cells is negative. (phosg's byte
  swaps are taken at their documented meaning.)
\<close>

theorem relational_evaluator_correct:
  assumes "bswap_ok enc"
    and "t \<notin> {FLOAT, FLOAT_RE, DOUBLE, DOUBLE_RE}"
    and "relop_of p = Some oper"
    and "cell_size t sz \<le> length a" and "cell_size t sz \<le> length b"
  defines "x \<equiv> cell_value t (take (cell_size t sz) a)" and "y \<equiv> cell_value t (take (cell_size t sz) b)"
  shows "\<exists>ev. evaluator_for t p = Some ev \<and>
    run_evaluator enc ev a b sz =
      Inr (if signed_reverse t \<and> oper \<notin> {EQ, NE} \<and> (x < 0) \<noteq> (y < 0) then \<not> rel oper x y else rel oper x y)"
proof -
  have "rel oper (cell_key t (take (cell_size t sz) a)) (cell_key t (take (cell_size t sz) b)) =
    (if signed_reverse t \<and> oper \<notin> {EQ, NE} \<and> (x < 0) \<noteq> (y < 0) then \<not> rel oper x y else rel oper x y)"
    unfolding x_def y_def using assms(4,5) by (intro key_order [OF assms(2)]) auto
  then show ?thesis using relational_compares [OF assms(1-5)] by simp
qed

text \<open>The byte swaps as documented, for the witnesses.\<close>

definition reference_encoding :: encoding where
  "reference_encoding =
     \<lparr>bswap16 = (\<lambda>w. of_nat (le_nat (rev (to_le 2 (unat w))))),
      bswap32 = (\<lambda>w. of_nat (le_nat (rev (to_le 4 (unat w))))),
      bswap64 = (\<lambda>w. of_nat (le_nat (rev (to_le 8 (unat w)))))\<rparr>"

lemma unat_of_le_nat:
  "2 ^ LENGTH('w) = (256::nat) ^ length bs \<Longrightarrow> unat (of_nat (le_nat bs) :: 'w::len word) = le_nat bs"
  using le_nat_less [of bs] by (simp add: unat_of_nat)

lemma reference_encoding_ok: "bswap_ok reference_encoding"
proof -
  have rev_rev: "le_nat (rev (to_le n (le_nat bs))) = le_nat (rev bs)" if "length bs = n" for n bs
    using to_le_le_nat [of bs] that by simp
  show ?thesis
    unfolding bswap_ok_def reference_encoding_def
    by (simp add: unat_of_le_nat rev_rev del: to_le.simps)
qed

theorem relational_evaluator_correct_witness:
  "(\<exists>ev. evaluator_for UINT16_RE LESS = Some ev \<and>
     run_evaluator reference_encoding ev [1, 2] [2, 1] 2 = Inr True) \<and>
   (\<exists>ev. evaluator_for INT16_RE LESS = Some ev \<and>
     run_evaluator reference_encoding ev [255, 255] [0, 1] 2 = Inr False)"
proof -
  have rk: "cell_value UINT16_RE [1, 2] = 258" "cell_value UINT16_RE [2, 1] = 513"
    "cell_value INT16_RE [255, 255] = - 1" "cell_value INT16_RE [0, 1] = 1"
    by (simp_all add: cell_value_def is_reverse_endian_search_type_def signed_take_bit_small)
  have sz: "cell_size UINT16_RE 2 = 2" "cell_size INT16_RE 2 = 2" "signed_reverse INT16_RE"
    by (simp_all add: cell_size_def value_size_for_search_type_def signed_reverse_def)
  show ?thesis
    using relational_evaluator_correct [OF reference_encoding_ok, of UINT16_RE LESS LT 2 "[1, 2]" "[2, 1]"]
      relational_evaluator_correct [OF reference_encoding_ok, of INT16_RE LESS LT 2 "[255, 255]" "[0, 1]"]
    by (simp add: sz rk)
qed

lemma top_bit_nat:
  assumes "v < 2 ^ Suc k"
  shows "bit (v::nat) k \<longleftrightarrow> 2 ^ k \<le> v"
proof (cases "v < 2 ^ k")
  case True
  then show ?thesis by (simp add: bit_iff_odd)
next
  case False
  with assms have "v div 2 ^ k = 1" by (intro div_nat_eqI) simp_all
  with False show ?thesis by (simp add: bit_iff_odd)
qed

lemma top_bit_le_nat:
  "bs \<noteq> [] \<Longrightarrow> bit (le_nat bs) (8 * length bs - 1) \<longleftrightarrow> 2 ^ (8 * length bs - 1) \<le> le_nat bs"
proof (rule top_bit_nat)
  assume "bs \<noteq> []"
  then have "Suc (8 * length bs - 1) = 8 * length bs" by simp
  then show "le_nat bs < 2 ^ Suc (8 * length bs - 1)"
    using le_nat_less [of bs] by (simp add: power_mult)
qed

text \<open>
  In a reverse-endian signed search the comparison is unsigned: \<open>bswapN\<close> returns an
  unsigned value, so a negative cell counts as greater than every non-negative one, and
  \<open><\<close> and \<open>>\<close> are decided the wrong way round whenever the signs differ.
\<close>

theorem reverse_signed_order_inverted:
  assumes "bswap_ok enc" and "t \<in> {INT16_RE, INT32_RE, INT64_RE}"
    and "n = value_size_for_search_type t" and "length x = n" and "length y = n"
    and "signed_take_bit (8 * n - 1) (int (le_nat (rev x))) < 0"
    and "0 \<le> signed_take_bit (8 * n - 1) (int (le_nat (rev y)))"
  shows "run_evaluator enc (the (evaluator_for t LESS)) x y n = Inr False \<and>
    run_evaluator enc (the (evaluator_for t GREATER)) x y n = Inr True"
proof -
  have n0: "n \<noteq> 0" and sz: "cell_size t n = n"
    using assms(2,3) by (auto simp: value_size_for_search_type_def cell_size_def)
  have key: "cell_key t bs = int (le_nat (rev bs))" for bs
    using assms(2) by (auto simp: cell_key_def is_reverse_endian_search_type_def)
  have x: "bit (int (le_nat (rev x))) (8 * n - 1)"
    using assms(6) by (simp add: signed_take_bit_negative_iff)
  have y: "\<not> bit (int (le_nat (rev y))) (8 * n - 1)"
    using assms(7) by (simp add: signed_take_bit_nonnegative_iff)
  have ne: "x \<noteq> []" "y \<noteq> []" using n0 assms(4,5) by auto
  have "le_nat (rev y) < le_nat (rev x)"
    using ne x y top_bit_le_nat [of "rev x"] top_bit_le_nat [of "rev y"] n0 assms(4,5)
    by (simp add: bit_of_nat_iff_bit)
  then show ?thesis
    using relational_compares [OF assms(1), of t LESS LT n x y]
      relational_compares [OF assms(1), of t GREATER GT n x y] assms(2,4,5)
    by (auto simp: sz key)
qed

section \<open>Flag evaluators\<close>

lemma nat_single_bit:
  "(x::nat) \<noteq> 0 \<and> x AND (x - 1) = 0 \<longleftrightarrow> (\<exists>k. x = 2 ^ k)"
proof (induction x rule: less_induct)
  case (less x)
  show ?case
  proof (cases "x = 0 \<or> odd x")
    case True
    then show ?thesis
    proof
      assume "odd x"
      then obtain m where m: "x = 2 * m + 1" by (rule oddE)
      have "x AND (x - 1) = 2 * m"
        by (simp add: m and_nat_rec [of "Suc (2 * m)" "2 * m"])
      moreover have "(\<exists>k. x = 2 ^ k) \<longleftrightarrow> m = 0"
      proof
        assume "\<exists>k. x = 2 ^ k"
        then obtain k where "x = 2 ^ k" by blast
        with \<open>odd x\<close> have "k = 0" by (cases k) auto
        with \<open>x = 2 ^ k\<close> m show "m = 0" by simp
      next
        assume "m = 0"
        with m have "x = 2 ^ 0" by simp
        then show "\<exists>k. x = 2 ^ k" by blast
      qed
      ultimately show ?thesis using m by simp
    qed simp
  next
    case False
    then obtain m where m: "x = 2 * m" and m0: "m \<noteq> 0" by (auto elim: evenE)
    obtain i where i: "m = Suc i" using m0 by (cases m) auto
    have "x AND (x - 1) = 2 * (m AND (m - 1))"
      by (simp add: m i and_nat_rec [of "Suc (Suc (2 * i))" "Suc (2 * i)"])
    moreover have "(\<exists>k. x = 2 ^ k) \<longleftrightarrow> (\<exists>k. m = 2 ^ k)"
    proof
      assume "\<exists>k. x = 2 ^ k"
      then obtain k where k: "x = 2 ^ k" by blast
      with False have "k \<noteq> 0" by (cases k) auto
      with k m show "\<exists>k. m = 2 ^ k" by (cases k) auto
    next
      assume "\<exists>k. m = 2 ^ k"
      then obtain k where "m = 2 ^ k" by blast
      with m have "x = 2 ^ Suc k" by simp
      then show "\<exists>k. x = 2 ^ k" by blast
    qed
    ultimately show ?thesis using less.IH [of m] m m0 by auto
  qed
qed

lemma flag_unsigned_iff: "flag_unsigned (x :: 'w::len word) \<longleftrightarrow> (\<exists>k. unat x = 2 ^ k)"
proof (cases "x = 0")
  case True
  then show ?thesis by (simp add: flag_unsigned_def)
next
  case False
  have "x AND (x - 1) = 0 \<longleftrightarrow> unat x AND (unat x - 1) = 0"
    using False by (simp add: word_unat_eq_iff unsigned_and_eq unat_minus_one)
  moreover have "unat x \<noteq> 0" using False by (simp add: unat_eq_0)
  ultimately show ?thesis
    using False nat_single_bit [of "unat x"] by (simp add: flag_unsigned_def)
qed

lemma nat_xor_less: "x < 2 ^ n \<Longrightarrow> y < 2 ^ n \<Longrightarrow> (x XOR y :: nat) < 2 ^ n"
  by (metis take_bit_nat_eq_self_iff take_bit_xor)

lemma sint_of_int_range:
  "- (2 ^ (LENGTH('w) - 1)) \<le> v \<Longrightarrow> v < 2 ^ (LENGTH('w) - 1) \<Longrightarrow>
   sint (of_int v :: 'w::len word) = v"
  by (simp add: sint_sbintrunc' signed_take_bit_int_eq_self)

lemma int_single_bit:
  "v \<noteq> 0 \<and> v AND (v - 1) = 0 \<longleftrightarrow> (\<exists>k. (v::int) = 2 ^ k)"
proof (cases "0 < v")
  case True
  define x where "x = nat v"
  with True have x: "v = int x" "x \<noteq> 0" by simp_all
  then have "v - 1 = int (x - 1)" by (simp add: of_nat_diff)
  with x(1) have "v AND (v - 1) = int (x AND (x - 1))" by (metis of_nat_and_eq)
  moreover have "v = 2 ^ k \<longleftrightarrow> x = 2 ^ k" for k
    using of_nat_eq_iff [of x "2 ^ k", where 'a = int] by (simp add: x(1))
  ultimately show ?thesis using x nat_single_bit [of x] by simp
next
  case False
  have "\<not> (\<exists>k. v = 2 ^ k)" using False by auto
  moreover have "v AND (v - 1) < 0" if "v \<noteq> 0"
    using False that by (subst and_negative_int_iff) simp
  ultimately show ?thesis by fastforce
qed

lemma and_range:
  fixes u v :: int
  assumes "- (2 ^ n) \<le> u" "u < 2 ^ n" "- (2 ^ n) \<le> v" "v < 2 ^ n"
  shows "- (2 ^ n) \<le> u AND v \<and> u AND v < 2 ^ n"
proof -
  have "signed_take_bit n (u AND v) = signed_take_bit n u AND signed_take_bit n v"
    by (rule bit_eqI) (auto simp: bit_signed_take_bit_iff bit_and_iff)
  then have "signed_take_bit n (u AND v) = u AND v"
    using assms by (simp add: signed_take_bit_int_eq_self)
  then show ?thesis by (simp add: signed_take_bit_int_eq_self_iff)
qed

lemma flag_signed_of_int:
  fixes v :: int
  assumes "- (2 ^ (LENGTH('w) - 1)) \<le> v" and "v < 2 ^ (LENGTH('w) - 1)"
  shows "flag_signed (of_int v :: 'w::len word) =
    (if v = - (2 ^ (LENGTH('w) - 1)) then Inl (Undefined Signed_overflow)
     else Inr (\<exists>k. v = 2 ^ k))"
proof -
  let ?m = "2 ^ (LENGTH('w) - 1) :: int"
  let ?w = "of_int v :: 'w word"
  have inj: "(of_int u :: 'w word) = of_int u' \<longleftrightarrow> u = u'"
    if "- ?m \<le> u" "u < ?m" "- ?m \<le> u'" "u' < ?m" for u u'
    using that by (metis sint_of_int_range)
  have zero: "?w = 0 \<longleftrightarrow> v = 0"
    using inj [of v 0] assms by simp
  have "(2 ^ LENGTH('w) :: 'w word) = 2 * 2 ^ (LENGTH('w) - 1)"
    by (metis Suc_pred' len_gt_0 power_Suc)
  then have min_eq: "push_bit (LENGTH('w) - 1) (1 :: 'w word) = of_int (- ?m)"
    by (simp add: push_bit_eq_mult eq_neg_iff_add_eq_0 flip: mult_2)
  have least: "?w = push_bit (LENGTH('w) - 1) 1 \<longleftrightarrow> v = - ?m"
    unfolding min_eq using inj [of v "- ?m"] assms by simp
  show ?thesis
  proof (cases "v = - ?m \<or> v = 0")
    case True
    moreover have "\<not> (\<exists>k. (0::int) = 2 ^ k)" by simp
    ultimately show ?thesis using zero least by (auto simp: flag_signed_def)
  next
    case False
    have "?w AND (?w - 1) = of_int (v AND (v - 1))" by (simp add: of_int_and_eq)
    moreover have "(of_int (v AND (v - 1)) :: 'w word) = 0 \<longleftrightarrow> v AND (v - 1) = 0"
      using inj [of "v AND (v - 1)" 0] and_range [of _ v "v - 1"] assms False by simp
    ultimately show ?thesis
      using False zero least int_single_bit [of v] by (simp add: flag_signed_def)
  qed
qed

text \<open>The number whose bits are the differing bits of two cells, in memory order.\<close>

definition cell_diff :: "byte list \<Rightarrow> byte list \<Rightarrow> nat" where
  "cell_diff x y = le_nat x XOR le_nat y"

lemma cell_diff_less:
  "length x = n \<Longrightarrow> length y = n \<Longrightarrow> cell_diff x y < 2 ^ (8 * n)"
  using le_nat_less [of x] le_nat_less [of y] nat_xor_less [of "le_nat x" "8 * n" "le_nat y"]
  by (simp add: cell_diff_def power_mult)

lemma signed_diff_power:
  assumes "d < 2 ^ Suc m"
  shows "(\<exists>k. signed_take_bit m (int d) = 2 ^ k) \<longleftrightarrow> (\<exists>k<m. d = 2 ^ k)"
    and "signed_take_bit m (int d) = - (2 ^ m) \<longleftrightarrow> d = 2 ^ m"
proof -
  have v: "signed_take_bit m (int d) = (if d < 2 ^ m then int d else int d - 2 ^ Suc m)"
    using assms top_bit_nat [OF assms]
    by (simp add: signed_take_bit_eq_take_bit_minus bit_of_nat_iff_bit take_bit_int_eq_self_iff
        del: power_Suc)
  have pow: "int d = 2 ^ k \<longleftrightarrow> d = 2 ^ k" for k
    using of_nat_eq_iff [of d "2 ^ k", where 'a = int] by simp
  have neg: "int d - 2 ^ Suc m < 0"
    using assms of_nat_less_iff [of d "2 ^ Suc m", where 'a = int] by (simp del: power_Suc)
  show "(\<exists>k. signed_take_bit m (int d) = 2 ^ k) \<longleftrightarrow> (\<exists>k<m. d = 2 ^ k)"
  proof (cases "d < 2 ^ m")
    case True
    have "k < m" if "d = 2 ^ k" for k
      using True that by simp
    with True v pow show ?thesis by auto
  next
    case False
    have "\<not> int d - 2 ^ Suc m = 2 ^ k" for k
      using neg by (smt (verit) zero_less_power)
    moreover have "\<not> (k < m \<and> d = 2 ^ k)" for k
      using False by (auto simp: not_less)
    ultimately show ?thesis using False v by auto
  qed
  have "int d = 2 ^ m \<longleftrightarrow> d = 2 ^ m" by (rule pow)
  moreover have "- (2 ^ m) < int d" by (smt (verit) of_nat_0_le_iff zero_less_power)
  ultimately show "signed_take_bit m (int d) = - (2 ^ m) \<longleftrightarrow> d = 2 ^ m"
    unfolding v by auto
qed

lemma prim_int_xor:
  "\<not> is_float p \<Longrightarrow> p \<in> {S8, S16, S32, S64} \<Longrightarrow>
   prim_int p x XOR prim_int p y = signed_take_bit (8 * prim_size p - 1) (int (cell_diff x y))"
  by (auto simp: cell_diff_def of_nat_xor_eq intro!: bit_eqI)
    (auto simp: bit_signed_take_bit_iff bit_xor_iff)

lemma flag_op_unsigned:
  assumes "p \<in> {U8, U16, U32, U64}" and "length x = prim_size p" and "length y = prim_size p"
  shows "flag_op_function p x y = Inr (\<exists>k. cell_diff x y = 2 ^ k)"
proof -
  have d: "cell_diff x y < 2 ^ (8 * prim_size p)"
    using assms(2,3) by (rule cell_diff_less)
  show ?thesis
  proof (cases "prim_size p \<le> 2")
    case True
    let ?d = "int (cell_diff x y)"
    have "(2::nat) ^ (8 * prim_size p) \<le> 2 ^ 16" using True by (intro power_increasing) auto
    with d have lt: "?d < 2 ^ 31" by simp
    have "flag_op_function p x y = flag_signed (of_int ?d :: 32 word)"
      using assms(1) True by (auto simp: cell_diff_def of_nat_xor_eq of_int_xor_eq)
    also have "\<dots> = Inr (\<exists>k. ?d = 2 ^ k)"
      using lt by (subst flag_signed_of_int) simp_all
    also have "\<dots> = Inr (\<exists>k. cell_diff x y = 2 ^ k)"
      using of_nat_eq_iff [of "cell_diff x y" "2 ^ _", where 'a = int] by simp
    finally show ?thesis .
  next
    case False
    have xy: "le_nat x < 256 ^ prim_size p" "le_nat y < 256 ^ prim_size p"
      using le_nat_less [of x] le_nat_less [of y] assms(2,3) by simp_all
    from False assms(1) have "p = U32 \<or> p = U64" by auto
    then show ?thesis
      using xy by (auto simp: flag_unsigned_iff cell_diff_def unsigned_xor_eq unat_of_nat)
  qed
qed

lemma flag_op_signed:
  assumes "p \<in> {S8, S16, S32, S64}" and "length x = prim_size p" and "length y = prim_size p"
  shows "flag_op_function p x y =
    (if 4 \<le> prim_size p \<and> cell_diff x y = 2 ^ (8 * prim_size p - 1)
     then Inl (Undefined Signed_overflow)
     else Inr (\<exists>k < 8 * prim_size p - 1. cell_diff x y = 2 ^ k))"
proof -
  let ?m = "8 * prim_size p - 1"
  let ?v = "prim_int p x XOR prim_int p y"
  have m: "Suc ?m = 8 * prim_size p" using assms(1) by auto
  have d: "cell_diff x y < 2 ^ Suc ?m"
    unfolding m using assms(2,3) by (rule cell_diff_less)
  have v: "?v = signed_take_bit ?m (int (cell_diff x y))"
    using assms(1) by (intro prim_int_xor) (auto simp: is_float_def)
  have range: "- (2 ^ ?m) \<le> ?v" "?v < 2 ^ ?m"
    unfolding v by (rule signed_take_bit_int_greater_eq_minus_exp signed_take_bit_int_less_exp)+
  show ?thesis
  proof (cases "4 \<le> prim_size p")
    case True
    have "flag_op_function p x y =
      (if ?v = - (2 ^ ?m) then Inl (Undefined Signed_overflow) else Inr (\<exists>k. ?v = 2 ^ k))"
    proof (cases "p = S64")
      case True
      then show ?thesis
        using range flag_signed_of_int [of ?v, where 'w = 64] by (simp add: of_int_xor_eq)
    next
      case False
      with \<open>4 \<le> prim_size p\<close> assms(1) have "p = S32" by auto
      then show ?thesis
        using range flag_signed_of_int [of ?v, where 'w = 32] by (simp add: of_int_xor_eq)
    qed
    then show ?thesis
      unfolding v using True signed_diff_power [OF d] by simp
  next
    case False
    then have "(2::int) ^ ?m \<le> 2 ^ 15"
      using assms(1) by auto
    with range have "- (2 ^ 31) < ?v" "?v < 2 ^ 31" by simp_all
    then have "flag_signed (of_int ?v :: 32 word) = Inr (\<exists>k. ?v = 2 ^ k)"
      by (subst flag_signed_of_int) simp_all
    moreover have "flag_op_function p x y = flag_signed (of_int ?v :: 32 word)"
      using False assms(1) by (auto simp: of_int_xor_eq)
    ultimately show ?thesis
      unfolding v using False signed_diff_power [OF d] by simp
  qed
qed

text \<open>
  C29. The flag predicate of an unsigned type, in either byte order, holds exactly when the
  two cells differ in one bit, and never overflows.
\<close>

theorem flag_evaluator_unsigned:
  assumes "t \<in> {UINT8, UINT16, UINT16_RE, UINT32, UINT32_RE, UINT64, UINT64_RE}"
    and "n = value_size_for_search_type t" and "n \<le> length a" and "n \<le> length b"
  shows "\<exists>ev. evaluator_for t FLAG = Some ev \<and>
    run_evaluator enc ev a b sz = Inr (\<exists>k. cell_diff (take n a) (take n b) = 2 ^ k)"
proof -
  obtain p where p: "type_prim t = Some p" "p \<in> {U8, U16, U32, U64}"
    using assms(1) by auto
  then have "n = prim_size p" "\<not> is_float p"
    using prim_size_type [OF p(1)] assms(2) by (auto simp: is_float_def)
  with p assms(3,4) show ?thesis
    by (simp add: evaluator_for_flag load2_ok flag_op_unsigned)
qed

theorem flag_evaluator_unsigned_witness:
  "\<exists>ev. evaluator_for UINT16 FLAG = Some ev \<and>
     run_evaluator reference_encoding ev [1, 2] [1, 0] 2 =
       Inr (\<exists>k. cell_diff [1, 2] [1, 0] = 2 ^ k)"
  using flag_evaluator_unsigned [of UINT16 2 "[1, 2]" "[1, 0]" reference_encoding 2]
  by (simp add: value_size_for_search_type_def)

text \<open>
  C30. The flag predicate of a signed type misses the sign bit: it holds when the cells differ
  in exactly one bit below the sign bit; when only the sign bit differs it is false for 8 and
  16 bits and computes a signed overflow for 32 and 64 bits.
\<close>

theorem flag_evaluator_signed:
  assumes "t \<in> {INT8, INT16, INT16_RE, INT32, INT32_RE, INT64, INT64_RE}"
    and "n = value_size_for_search_type t" and "n \<le> length a" and "n \<le> length b"
    and "d = cell_diff (take n a) (take n b)"
  shows "\<exists>ev. evaluator_for t FLAG = Some ev \<and>
    run_evaluator enc ev a b sz =
      (if d = 2 ^ (8 * n - 1) then
         (if 4 \<le> n then Inl (Undefined Signed_overflow) else Inr False)
       else Inr (\<exists>k. d = 2 ^ k))"
proof -
  obtain p where p: "type_prim t = Some p" "p \<in> {S8, S16, S32, S64}"
    using assms(1) by auto
  then have n: "n = prim_size p" "\<not> is_float p" "0 < n"
    using prim_size_type [OF p(1)] assms(2) by (auto simp: is_float_def)
  have lt: "k < 8 * n - 1" if "d = 2 ^ k" "k \<noteq> 8 * n - 1" for k
  proof -
    have "d < 2 ^ (8 * n)"
      unfolding assms(5) using assms(3,4) by (intro cell_diff_less) simp_all
    with that n(3) show ?thesis by simp
  qed
  have top: "\<not> (\<exists>k < 8 * n - 1. (2::nat) ^ (8 * n - 1) = 2 ^ k)" by auto
  have "run_evaluator enc (Flag_op_function p) a b sz =
    (if 4 \<le> n \<and> d = 2 ^ (8 * n - 1) then Inl (Undefined Signed_overflow)
     else Inr (\<exists>k < 8 * n - 1. d = 2 ^ k))"
    using p(2) n assms(3-5) by (simp add: load2_ok flag_op_signed)
  moreover have "evaluator_for t FLAG = Some (Flag_op_function p)"
    using p n by (simp add: evaluator_for_flag)
  ultimately show ?thesis
    using lt top by (cases "d = 2 ^ (8 * n - 1)") auto
qed

theorem flag_evaluator_signed_witness:
  "\<exists>ev. evaluator_for INT8 FLAG = Some ev \<and>
     run_evaluator reference_encoding ev [128] [0] 1 = Inr False"
proof -
  have "cell_diff (take 1 [128]) (take 1 [0]) = 128" by (simp add: cell_diff_def)
  then show ?thesis
    using flag_evaluator_signed [of INT8 1 "[128]" "[0]" 128 reference_encoding 1]
    by (simp add: value_size_for_search_type_def)
qed

lemma char_hit_iff: "char_hit a b \<longleftrightarrow> (\<exists>k<7. cell_diff [a] [b] = 2 ^ k)"
proof -
  let ?v = "sint (a XOR b)"
  have v: "?v = signed_take_bit 7 (int (cell_diff [a] [b]))"
    by (simp add: sint_uint cell_diff_def uint_nat unsigned_xor_eq)
  have d: "cell_diff [a] [b] < 2 ^ Suc 7"
    using cell_diff_less [of "[a]" 1 "[b]"] by simp
  have "- (2 ^ 7) \<le> ?v" "?v < 2 ^ 7"
    unfolding v by (rule signed_take_bit_int_greater_eq_minus_exp signed_take_bit_int_less_exp)+
  then have "flag_signed (of_int ?v :: 32 word) = Inr (\<exists>k. ?v = 2 ^ k)"
    by (subst flag_signed_of_int) simp_all
  then have "flag_signed (scast (a XOR b) :: 32 word) = Inr (\<exists>k. ?v = 2 ^ k)"
    by (simp only: scast_eq)
  then have "char_hit a b = (\<exists>k. ?v = 2 ^ k)"
    by (auto simp: char_hit_def flag_signed_def Let_def split: if_splits)
  then show ?thesis
    unfolding v by (simp only: signed_diff_power(1) [OF d])
qed

lemma data_flag_loop_eq:
  "f \<le> 2 \<Longrightarrow> data_flag_loop hit left f = (if hit then min 2 (f + left) else f)"
  by (induction hit left f rule: data_flag_loop.induct) auto

lemma data_flag_first_byte:
  assumes "sz \<le> length a" and "sz \<le> length b"
  shows "evaluator_for DATA FLAG = Some Data_flag \<and>
    run_evaluator enc Data_flag a b sz =
      Inr (sz = 1 \<and> (\<exists>k<7. cell_diff (take 1 a) (take 1 b) = 2 ^ k))"
proof (cases "sz = 0")
  case True
  then show ?thesis by (simp add: evaluator_for_flag data_flag_def)
next
  case False
  then obtain a0 as b0 bs where "a = a0 # as" "b = b0 # bs"
    using assms by (cases a; cases b) auto
  with False show ?thesis
    by (auto simp: evaluator_for_flag data_flag_def load2_ok data_flag_loop_eq char_hit_iff min_def)
qed

text \<open>
  The flag predicate of a data search counts the first byte once per position: it can
  hold only for one-byte data, so for longer data it is always false, also when the two
  values differ in exactly one bit.
\<close>

theorem data_flag_only_one_byte:
  assumes "sz \<le> length a" and "sz \<le> length b"
  shows "evaluator_for DATA FLAG = Some Data_flag \<and>
    run_evaluator enc Data_flag a b sz =
      Inr (sz = 1 \<and> (\<exists>k<7. cell_diff (take 1 a) (take 1 b) = 2 ^ k))"
  by (rule data_flag_first_byte [OF assms])

theorem data_flag_only_one_byte_witness:
  "evaluator_for DATA FLAG = Some Data_flag \<and>
     run_evaluator reference_encoding Data_flag [1, 7] [0, 7] 2 = Inr False"
  using data_flag_only_one_byte [of 2 "[1, 7]" "[0, 7]" reference_encoding] by simp

section \<open>Floating-point evaluators\<close>

text \<open>
  C28. A floating-point search compares IEEE values, of the swapped bits for a reverse-endian
  type: when either cell is a NaN only \<open>!=\<close> holds, otherwise the cells compare as their
  signed magnitudes.
\<close>

theorem float_evaluator_correct:
  assumes "bswap_ok enc" and "(t, m, e) \<in> {(FLOAT, 23, 8), (FLOAT_RE, 23, 8), (DOUBLE, 52, 11), (DOUBLE_RE, 52, 11)}"
    and "relop_of p = Some oper" and "n = value_size_for_search_type t"
    and "n \<le> length a" and "n \<le> length b"
    and "u = le_nat ((if is_reverse_endian_search_type t then rev else id) (take n a))"
    and "v = le_nat ((if is_reverse_endian_search_type t then rev else id) (take n b))"
  shows "\<exists>ev. evaluator_for t p = Some ev \<and>
    run_evaluator enc ev a b sz =
      Inr (if float_nan m e u \<or> float_nan m e v then oper = NE
           else rel oper (float_key m e u) (float_key m e v))"
proof -
  obtain q where q: "type_prim t = Some q" "is_float q"
    using assms(2) by (auto simp: is_float_def)
  then have n: "n = prim_size q" using prim_size_type [OF q(1)] assms(4) by simp
  have swap: "bswap_bits enc q (take n bs) = le_nat (rev (take n bs))" if "n \<le> length bs" for bs
    using that n q(2) by (intro bswap_bits_rev assms(1)) (auto simp: is_float_def)
  have "run_evaluator enc (relational_entry t oper) a b sz = Inr (prim_float_rel q oper u v)"
    using q assms(5-8) n swap
    by (auto simp: relational_entry_def load2_ok is_float_def)
  moreover have "prim_float_rel q oper u v = float_rel m e oper u v"
    using assms(2) q by auto
  ultimately show ?thesis
    using evaluator_for_relop [OF assms(3)] by (simp add: float_rel_def)
qed

theorem float_evaluator_correct_witness:
  "\<exists>ev. evaluator_for FLOAT EQUAL = Some ev \<and>
     run_evaluator reference_encoding ev [0, 0, 0, 128] [0, 0, 0, 0] 4 = Inr True"
  using float_evaluator_correct [OF reference_encoding_ok, of FLOAT 23 8 EQUAL EQ 4
      "[0, 0, 0, 128]" "[0, 0, 0, 0]" _ _ 4]
  by (simp add: value_size_for_search_type_def is_reverse_endian_search_type_def
      float_nan_def float_key_def)

text \<open>
  The predicate names that start with \<open>!\<close> mean the negation of the name without it, for
  every search type that is not floating-point.
\<close>

theorem negated_names_negate:
  assumes "bswap_ok enc" and "t \<notin> {FLOAT, FLOAT_RE, DOUBLE, DOUBLE_RE}"
    and "s \<in> {''<'', ''>'', ''<='', ''>='', ''=''}"
    and "cell_size t sz \<le> length a" and "cell_size t sz \<le> length b"
  shows "\<exists>p p' r. search_predicate_for_name s = Inr p \<and>
    search_predicate_for_name (''!'' @ s) = Inr p' \<and>
    run_evaluator enc (the (evaluator_for t p)) a b sz = Inr r \<and>
    run_evaluator enc (the (evaluator_for t p')) a b sz = Inr (\<not> r)"
proof -
  have "\<exists>p p' oper. search_predicate_for_name s = Inr p \<and>
      search_predicate_for_name (''!'' @ s) = Inr p' \<and>
      relop_of p = Some oper \<and> relop_of p' = Some (negated oper)"
    using assms(3)
    by (elim insertE emptyE)
      (simp_all add: search_predicate_for_name_def search_predicate_names_def)
  then obtain p p' oper where names: "search_predicate_for_name s = Inr p"
      "search_predicate_for_name (''!'' @ s) = Inr p'"
    and oper: "relop_of p = Some oper" "relop_of p' = Some (negated oper)"
    by blast
  show ?thesis
    using names relational_compares [OF assms(1,2) oper(1) assms(4,5)]
      relational_compares [OF assms(1,2) oper(2) assms(4,5)]
    by (auto simp: keyed.cmp_negated)
qed

theorem negated_names_negate_witness:
  "\<exists>p p' r. search_predicate_for_name ''<'' = Inr p \<and>
     search_predicate_for_name ''!<'' = Inr p' \<and>
     run_evaluator reference_encoding (the (evaluator_for UINT8 p)) [1] [2] 1 = Inr r \<and>
     run_evaluator reference_encoding (the (evaluator_for UINT8 p')) [1] [2] 1 = Inr (\<not> r)"
  using negated_names_negate [OF reference_encoding_ok, of UINT8 "''<''" 1 "[1]" "[2]"]
  by (simp add: cell_size_def value_size_for_search_type_def)

end
