(* ===== verification/AdapterProps.thy ===== *)
theory AdapterProps
  imports ProcessMemoryAdapter
begin

text \<open>
  Properties of the adapter: the region enumerations of \<open>get_all_regions\<close> and
  \<open>get_target_regions\<close> against a kernel whose table of regions is known, the bits that
  \<open>set_protection\<close> changes, and the balance of \<open>PauseGuard\<close>.
\<close>

section \<open>Well-formed snapshots\<close>

definition region_wf :: "region \<Rightarrow> bool" where
  "region_wf r \<longleftrightarrow>
     0 < region_size r \<and> unat (region_addr r) + unat (region_size r) < 2 ^ 64 \<and>
     (region_data r = [] \<or> length (region_data r) = unat (region_size r))"

definition regions_wf :: "region list \<Rightarrow> bool" where
  "regions_wf rs \<longleftrightarrow>
     (\<forall>r \<in> set rs. region_wf r) \<and> sorted_wrt (\<lambda>r s. end_addr r \<le> region_addr s) rs"

definition contains :: "u64 \<Rightarrow> region \<Rightarrow> bool" where
  "contains a r \<longleftrightarrow> region_addr r \<le> a \<and> a < end_addr r"

lemma unat_end_addr: "region_wf r \<Longrightarrow> unat (end_addr r) = unat (region_addr r) + unat (region_size r)"
  by (simp add: region_wf_def end_addr_def unat_word_ariths)

lemma region_nonempty: "region_wf r \<Longrightarrow> region_addr r < end_addr r"
  by (simp add: word_less_nat_alt unat_end_addr) (simp add: region_wf_def word_less_nat_alt)

lemma regions_wf_Cons:
  "regions_wf (r # rs) \<longleftrightarrow>
     region_wf r \<and> regions_wf rs \<and> (\<forall>s \<in> set rs. end_addr r \<le> region_addr s)"
  by (auto simp: regions_wf_def)

section \<open>A kernel with a known region table\<close>

text \<open>
  The documented behaviour of the Mach calls on a task whose regions are \<open>tab\<close> (addresses
  and sizes in ascending order, disjoint, below the end of the address space):
  \<open>mach_vm_region\<close> returns the first region that ends behind the address and fails when there
  is none; a successful \<open>mach_vm_read_overwrite\<close> delivers the bytes asked for; and
  \<open>mach_vm_protect\<close> leaves the table as it is. \<open>K\<close> is a set of kernel states closed under it.
\<close>

definition table_wf :: "(u64 \<times> u64) list \<Rightarrow> bool" where
  "table_wf tab \<longleftrightarrow>
     (\<forall>(a, s) \<in> set tab. 0 < s \<and> unat a + unat s < 2 ^ 64) \<and>
     sorted_wrt (\<lambda>(a, s) (b, _). a + s \<le> b) tab"

definition table_kernel :: "'k mach \<Rightarrow> port \<Rightarrow> 'k set \<Rightarrow> (u64 \<times> u64) list \<Rightarrow> bool" where
  "table_kernel M t K tab \<longleftrightarrow>
     (\<forall>k \<in> K. \<forall>x. case find (\<lambda>(a, s). x < a + s) tab of
          Some (a, s) \<Rightarrow> \<exists>i. mach_vm_region M k t x = (KERN_SUCCESS, a, s, i)
        | None \<Rightarrow> fst (mach_vm_region M k t x) \<noteq> KERN_SUCCESS) \<and>
     (\<forall>k \<in> K. \<forall>x n bytes. mach_vm_read_overwrite M k t x n = (KERN_SUCCESS, bytes) \<longrightarrow>
        length bytes = unat n) \<and>
     (\<forall>k \<in> K. \<forall>x n p. snd (mach_vm_protect M k t x n p) \<in> K)"

definition extent :: "region \<Rightarrow> u64 \<times> u64" where
  "extent r = (region_addr r, region_size r)"

lemma extent_region_of_info [simp]: "extent (region_of_info a s i) = (a, s)"
  by (simp add: extent_def region_of_info_def)

lemma set_protection_stays:
  assumes "table_kernel M (task ad) K tab" and "k \<in> K"
    and "set_protection M ph ad a sz p m k = (res, k')"
  shows "k' \<in> K"
proof -
  have "mach_vm_protect M k (task ad) x n q = (ret, k'') \<Longrightarrow> k'' \<in> K" for x n q ret k''
    using assms(1,2) unfolding table_kernel_def by (metis snd_conv)
  then show ?thesis
    using assms(2,3) by (auto simp: set_protection_def Let_def split: prod.splits if_splits)
qed

lemma set_protection_fails:
  "set_protection M ph ad a sz p m k = (Inl f, k') \<Longrightarrow> is_runtime_error f"
  by (auto simp: set_protection_def Let_def split: prod.splits if_splits)

lemma read_bytes_fails:
  "read_bytes M ph ad a sz k = (Inl f, k') \<Longrightarrow> is_runtime_error f \<and> k' = k"
  by (auto simp: read_bytes_def split: prod.splits if_splits)

lemma read_bytes_works:
  "table_kernel M (task ad) K tab \<Longrightarrow> k \<in> K \<Longrightarrow>
   read_bytes M ph ad a sz k = (Inr bytes, k') \<Longrightarrow> length bytes = unat sz \<and> k' = k"
  by (auto simp: read_bytes_def table_kernel_def split: prod.splits if_splits)

text \<open>Reading a region changes nothing of it but its data and fails by \<open>runtime_error\<close> only.\<close>

lemma read_region_cases:
  assumes "table_kernel M (task ad) K tab" and "k \<in> K" and "region_data r = []"
    and "read_region M ph ad r k = (res, r', k')"
  shows "k' \<in> K \<and> extent r' = extent r \<and> (\<forall>f. res = Inl f \<longrightarrow> is_runtime_error f) \<and>
    (region_data r' = [] \<or> length (region_data r') = unat (region_size r'))"
proof -
  note stays = set_protection_stays [OF assms(1)] and works = read_bytes_works [OF assms(1)]
  show ?thesis
    using assms(2-4) unfolding read_region_def Let_def
    by (auto split: prod.splits sum.splits if_splits simp: extent_def
        dest: set_protection_fails read_bytes_fails works intro: stays)
      (metis stays read_bytes_fails works)+
qed

section \<open>Enumerating the regions\<close>

text \<open>The scan position \<open>x\<close> after the regions \<open>pre\<close> and before the regions \<open>post\<close>.\<close>

definition scan_at :: "(u64 \<times> u64) list \<Rightarrow> (u64 \<times> u64) list \<Rightarrow> u64 \<Rightarrow> bool" where
  "scan_at pre post x \<longleftrightarrow> (\<forall>(a, s) \<in> set pre. a + s \<le> x) \<and> (\<forall>(a, s) \<in> set post. x < a + s)"

lemma entry_end: "0 < s \<Longrightarrow> unat (a::u64) + unat s < 2 ^ 64 \<Longrightarrow> a < a + s"
  by (simp add: word_less_nat_alt unat_word_ariths)

lemma scan_at_start: "table_wf tab \<Longrightarrow> scan_at [] tab 0"
proof -
  assume "table_wf tab"
  then have "a < a + s" if "(a, s) \<in> set tab" for a s
    using that by (intro entry_end) (auto simp: table_wf_def)
  then have "0 < a + s" if "(a, s) \<in> set tab" for a s
    using that by (fastforce simp: word_less_nat_alt)
  then show ?thesis by (auto simp: scan_at_def)
qed

lemma scan_at_step:
  assumes "table_wf (pre @ (a, s) # post)" and "scan_at pre ((a, s) # post) x"
  shows "scan_at (pre @ [(a, s)]) post (a + s)"
proof -
  have as: "a < a + s" using assms(1) entry_end [of s a] by (auto simp: table_wf_def)
  have "c + n \<le> a + s" if "(c, n) \<in> set pre" for c n
  proof -
    have "c + n \<le> a" using assms(1) that by (auto simp: table_wf_def sorted_wrt_append)
    with as show ?thesis by simp
  qed
  moreover have "a + s < c + n" if "(c, n) \<in> set post" for c n
  proof -
    have "a + s \<le> c" using assms(1) that by (auto simp: table_wf_def sorted_wrt_append)
    moreover have "c < c + n"
      using assms(1) that entry_end [of n c] by (auto simp: table_wf_def)
    ultimately show ?thesis by simp
  qed
  ultimately show ?thesis by (auto simp: scan_at_def)
qed

lemma find_scan_at:
  "scan_at pre post x \<Longrightarrow>
   find (\<lambda>(a, s). x < a + s) (pre @ post) = (case post of [] \<Rightarrow> None | e # _ \<Rightarrow> Some e)"
proof (induction pre)
  case Nil
  then show ?case by (cases post) (auto simp: scan_at_def)
next
  case (Cons e pre)
  then show ?case by (auto simp: scan_at_def not_less)
qed

lemma get_region_end:
  assumes "table_kernel M (task ad) K (pre @ [])" and "k \<in> K" and "scan_at pre [] x"
  shows "get_region M ph ad x rd k = (Inl (Throw (Out_of_range ''no region found'')), k)"
proof -
  have "find (\<lambda>(a, s). x < a + s) pre = None" using find_scan_at [OF assms(3)] by simp
  moreover have "case find (\<lambda>(a, s). x < a + s) (pre @ []) of
      Some (a, s) \<Rightarrow> \<exists>i. mach_vm_region M k (task ad) x = (KERN_SUCCESS, a, s, i)
    | None \<Rightarrow> fst (mach_vm_region M k (task ad) x) \<noteq> KERN_SUCCESS"
    using assms(1,2) by (simp add: table_kernel_def)
  ultimately show ?thesis
    by (auto simp: get_region_def split: prod.splits)
qed

lemma get_region_next:
  assumes "table_kernel M (task ad) K (pre @ (a, s) # post)" and "k \<in> K"
    and "scan_at pre ((a, s) # post) x" and "table_wf (pre @ (a, s) # post)"
  shows "\<exists>r k'. get_region M ph ad x rd k = (Inr r, k') \<and> k' \<in> K \<and> extent r = (a, s) \<and>
    region_wf r \<and> (\<not> rd \<longrightarrow> region_data r = [] \<and> k' = k)"
proof -
  have "case find (\<lambda>(a, s). x < a + s) (pre @ (a, s) # post) of
      Some (a, s) \<Rightarrow> \<exists>i. mach_vm_region M k (task ad) x = (KERN_SUCCESS, a, s, i)
    | None \<Rightarrow> fst (mach_vm_region M k (task ad) x) \<noteq> KERN_SUCCESS"
    using assms(1,2) by (simp add: table_kernel_def)
  then obtain i where i: "mach_vm_region M k (task ad) x = (KERN_SUCCESS, a, s, i)"
    using find_scan_at [OF assms(3)] by auto
  let ?r = "region_of_info a s i"
  have wf: "0 < s" "unat a + unat s < 2 ^ 64" using assms(4) by (auto simp: table_wf_def)
  obtain res r' k' where rr: "read_region M ph ad ?r k = (res, r', k')"
    by (metis prod_cases3)
  have d: "region_data ?r = []" by (simp add: region_of_info_def)
  note keeps = read_region_cases [OF assms(1,2) d rr]
  have "\<exists>r k'. try_read_region M ph ad ?r k = (Inr r, k') \<and> k' \<in> K \<and> extent r = (a, s) \<and>
      (region_data r = [] \<or> length (region_data r) = unat (region_size r))"
    using keeps rr by (cases res) (auto simp: try_read_region_def)
  then show ?thesis
    using i wf d assms(2)
    by (cases rd) (auto simp: get_region_def read_if_def region_wf_def extent_def region_of_info_def)
qed

lemma get_all_regions_from_table:
  assumes "table_kernel M (task ad) K (pre @ post)" and "table_wf (pre @ post)"
    and "k \<in> K" and "scan_at pre post x"
  shows "\<exists>rs k'. get_all_regions_from M ph ad rd x ret k = Some (Inr (ret @ rs), k') \<and>
    k' \<in> K \<and> map extent rs = post \<and> (\<forall>r \<in> set rs. region_wf r)"
  using assms
proof (induction post arbitrary: pre x ret k)
  case Nil
  then have "get_region M ph ad x rd k = (Inl (Throw (Out_of_range ''no region found'')), k)"
    by (intro get_region_end) auto
  then show ?case
    using Nil.prems(3) by (subst get_all_regions_from.simps) simp
next
  case (Cons e post)
  obtain a s where e: "e = (a, s)" by (cases e)
  obtain r k1 where r: "get_region M ph ad x rd k = (Inr r, k1)" "k1 \<in> K" "extent r = (a, s)"
      "region_wf r"
    using get_region_next [of M ad K pre a s post k x ph rd] Cons.prems e by blast
  have "scan_at (pre @ [e]) post (end_addr r)"
    using scan_at_step [of pre a s post x] Cons.prems e r(3) by (simp add: end_addr_def extent_def)
  then obtain rs k' where
    "get_all_regions_from M ph ad rd (end_addr r) (ret @ [r]) k1 = Some (Inr ((ret @ [r]) @ rs), k')"
    "k' \<in> K" "map extent rs = post" "\<forall>r \<in> set rs. region_wf r"
    using Cons.IH [of "pre @ [e]" k1 "end_addr r" "ret @ [r]"] Cons.prems(1,2) r(2) by auto
  then show ?case
    using r e by (intro exI [of _ "r # rs"] exI [of _ k']) (simp add: get_all_regions_from.simps [of M ph ad rd x])
qed

lemma extents_regions_wf:
  assumes "table_wf tab" and "map extent rs = tab" and "\<forall>r \<in> set rs. region_wf r"
  shows "regions_wf rs"
proof -
  have "sorted_wrt (\<lambda>(a, s) (b, _). a + s \<le> b) (map extent rs)"
    using assms(1,2) by (simp add: table_wf_def)
  then show ?thesis
    using assms(3) by (simp add: regions_wf_def sorted_wrt_map extent_def end_addr_def)
qed

lemma all_regions_of_table:
  assumes "table_kernel M (task ad) K tab" and "table_wf tab" and "k \<in> K"
  shows "\<exists>rs k'. get_all_regions M ph ad read_data k = Some (Inr rs, k') \<and>
    k' \<in> K \<and> map extent rs = tab \<and> regions_wf rs"
proof -
  obtain rs k' where "get_all_regions M ph ad read_data k = Some (Inr rs, k')" "k' \<in> K"
      "map extent rs = tab" "\<forall>r \<in> set rs. region_wf r"
    using get_all_regions_from_table [of M ad K "[]" tab k 0 ph read_data "[]"] assms
      scan_at_start [OF assms(2)]
    by (auto simp: get_all_regions_def)
  with extents_regions_wf [OF assms(2)] show ?thesis by blast
qed

text \<open>
  C18. \<open>get_all_regions\<close> terminates and returns every region of the task once, in address
  order, each with no data or with all of its bytes, whether the data is to be read or not
  and whichever reads and protection changes fail.
\<close>

theorem get_all_regions_complete:
  assumes "table_kernel M (task ad) K tab" and "table_wf tab" and "k \<in> K"
  shows "\<exists>rs k'. get_all_regions M ph ad read_data k = Some (Inr rs, k') \<and>
    k' \<in> K \<and> map extent rs = tab \<and> regions_wf rs"
  by (rule all_regions_of_table [OF assms])

section \<open>The regions of search results\<close>

definition hit :: "u64 list \<Rightarrow> u64 \<times> u64 \<Rightarrow> bool" where
  "hit ts e \<longleftrightarrow> (\<exists>t \<in> set ts. fst e \<le> t \<and> t < fst e + snd e)"

lemma hit_dropWhile:
  assumes "fst e = a \<or> a \<le> fst e"
  shows "hit (dropWhile (\<lambda>t. t < a) ts) e = hit ts e"
proof -
  have "t \<in> set (dropWhile (\<lambda>t. t < a) ts) \<or> t < a" if "t \<in> set ts" for t
    using that by (induction ts) auto
  moreover have "t \<in> set ts" if "t \<in> set (dropWhile (\<lambda>t. t < a) ts)" for t
    using that set_dropWhileD by fastforce
  ultimately show ?thesis using assms unfolding hit_def by fastforce
qed

lemma dropWhile_head_hit:
  assumes "sorted ts" and "dropWhile (\<lambda>t. t < a) ts = t # us"
  shows "t < a + s \<longleftrightarrow> hit ts (a, s)"
proof -
  have ge: "a \<le> t" using hd_dropWhile [of "\<lambda>t. t < a" ts] assms(2) by auto
  have "sorted (t # us)" using sorted_dropWhile [OF assms(1)] assms(2) by metis
  then have "hit (t # us) (a, s) \<longleftrightarrow> t < a + s"
    using ge by (auto simp: hit_def)
  then show ?thesis using hit_dropWhile [of "(a, s)" a ts] assms(2) by simp
qed

lemma no_hit_after:
  assumes "dropWhile (\<lambda>t. t < a) ts = []" and "a \<le> fst e"
  shows "\<not> hit ts e"
proof -
  have "hit [] e = hit ts e" using hit_dropWhile [of e a ts] assms by simp
  then show ?thesis by (simp add: hit_def)
qed

lemma read_target:
  assumes "table_kernel M (task ad) K tab" and "k \<in> K" and "region_wf r" and "region_data r = []"
  shows "\<exists>r' k'. read_if M ph ad rd r k = (Inr r', k') \<and>
    k' \<in> K \<and> extent r' = extent r \<and> region_wf r'"
proof -
  obtain res r' k' where rr: "read_region M ph ad r k = (res, r', k')"
    by (metis prod_cases3)
  note keeps = read_region_cases [OF assms(1,2,4) rr]
  show ?thesis
    using keeps rr assms(2,3)
    by (cases res) (auto simp: read_if_def try_read_region_def region_wf_def extent_def)
qed

lemma get_target_regions_done [simp]:
  "get_target_regions_from M ph ad g rd [] x ret k = Some (Inr ret, k)"
  by (simp add: get_target_regions_from.simps)

lemma filter_hit_dropWhile:
  "\<forall>e \<in> set post. a \<le> fst e \<Longrightarrow>
   filter (hit (dropWhile (\<lambda>t. t < a) ts)) post = filter (hit ts) post"
  by (intro filter_cong) (auto simp: hit_dropWhile)

lemma table_after:
  assumes "table_wf (pre @ (a, s) # post)" and "e \<in> set post"
  shows "a + s \<le> fst e \<and> a \<le> fst e"
proof -
  have "a + s \<le> fst e" using assms by (auto simp: table_wf_def sorted_wrt_append)
  moreover have "a < a + s" using assms(1) entry_end [of s a] by (auto simp: table_wf_def)
  ultimately show ?thesis by simp
qed

text \<open>What the loop returns from a given position: the regions hit, and at most one more.\<close>

definition target_answer :: "u64 list \<Rightarrow> (u64 \<times> u64) list \<Rightarrow> region list \<Rightarrow> bool" where
  "target_answer ts post rs \<longleftrightarrow>
     (\<exists>extra. map extent rs = filter (hit ts) post @ extra \<and> set extra \<subseteq> set post \<and>
        length extra \<le> 1 \<and> sorted_wrt (\<lambda>(a, s) (b, _). a + s \<le> b) (map extent rs) \<and>
        (\<forall>r \<in> set rs. region_wf r))"

lemma target_answer_skip:
  "target_answer ts post rs \<Longrightarrow> \<not> hit ts e \<Longrightarrow> target_answer ts (e # post) rs"
  unfolding target_answer_def by auto

lemma target_answer_take:
  assumes "target_answer ts post rs" and "hit ts e" and "extent r = e" and "region_wf r"
    and "\<forall>x \<in> set post. fst e + snd e \<le> fst x"
  shows "target_answer ts (e # post) (r # rs)"
proof -
  obtain extra where x: "map extent rs = filter (hit ts) post @ extra" "set extra \<subseteq> set post"
      "length extra \<le> 1" "sorted_wrt (\<lambda>(a, s) (b, _). a + s \<le> b) (map extent rs)"
      "\<forall>r \<in> set rs. region_wf r"
    using assms(1) by (auto simp: target_answer_def)
  have "\<forall>y \<in> set (map extent rs). fst e + snd e \<le> fst y"
    using x(1,2) assms(5) by auto
  then have "sorted_wrt (\<lambda>(a, s) (b, _). a + s \<le> b) (map extent (r # rs))"
    using x(4) assms(3) by (auto simp: case_prod_beta)
  moreover have "map extent (r # rs) = filter (hit ts) (e # post) @ extra"
    using x(1) assms(2,3) by simp
  ultimately show ?thesis
    unfolding target_answer_def using x assms(4) by (intro exI [of _ extra]) auto
qed

lemma get_target_regions_from_table:
  assumes "table_kernel M (task ad) K (pre @ post)" and "table_wf (pre @ post)"
    and "k \<in> K" and "scan_at pre post x" and "sorted ts"
  shows "\<exists>rs k'. get_target_regions_from M ph ad (Some g) rd ts x ret k = Some (Inr (ret @ rs), k') \<and>
    k' \<in> K \<and> target_answer ts post rs"
  using assms
proof (induction post arbitrary: pre x ret k ts)
  case Nil
  then have "get_region M ph ad x False k = (Inl (Throw (Out_of_range ''no region found'')), k)"
    by (intro get_region_end) auto
  then show ?case
    using Nil.prems(3) by (subst get_target_regions_from.simps) (auto simp: target_answer_def)
next
  case (Cons e post)
  obtain a s where e: "e = (a, s)" by (cases e)
  obtain r where r: "get_region M ph ad x False k = (Inr r, k)" "extent r = (a, s)"
      "region_wf r" "region_data r = []"
    using get_region_next [of M ad K pre a s post k x ph False] Cons.prems e by auto
  have ra: "region_addr r = a" "end_addr r = a + s"
    using r(2) by (auto simp: extent_def end_addr_def)
  obtain r' k' where rd: "read_if M ph ad rd r k = (Inr r', k')"
      "k' \<in> K" "extent r' = e" "region_wf r'"
    using read_target [OF Cons.prems(1,3) r(3,4), where rd = rd and ph = ph] r(2) e by metis
  note after = table_after [of pre a s post]
  let ?ts = "dropWhile (\<lambda>t. t < a) ts"
  have same: "target_answer ?ts post rs = target_answer ts post rs" for rs
    unfolding target_answer_def
    using filter_hit_dropWhile [of post a ts] after Cons.prems(2) e by auto
  have IH: "\<exists>rs k2. get_target_regions_from M ph ad (Some g) rd ?ts (a + s) ret1 k1 = Some (Inr (ret1 @ rs), k2) \<and>
      k2 \<in> K \<and> target_answer ts post rs" if "k1 \<in> K" for ret1 k1
    using Cons.IH [of "pre @ [e]" k1 "a + s" ?ts ret1] that Cons.prems e same
      scan_at_step [of pre a s post x] sorted_dropWhile [of ts] by auto
  show ?case
  proof (cases "ts = []")
    case True
    then show ?thesis
      using Cons.prems(3) by (auto simp: target_answer_def hit_def)
  next
    case False
    have unfold: "get_target_regions_from M ph ad (Some g) rd ts x ret k =
      (if (case ?ts of [] \<Rightarrow> g | t # _ \<Rightarrow> t) < a + s
       then get_target_regions_from M ph ad (Some g) rd ?ts (a + s) (ret @ [r']) k'
       else get_target_regions_from M ph ad (Some g) rd ?ts (a + s) ret k)"
      using False r(1) rd(1) ra
      by (cases ?ts; subst get_target_regions_from.simps)
        (simp_all add: False r(1) rd(1) ra Let_def del: dropWhile_eq_Nil_conv)
    show ?thesis
    proof (cases ?ts)
      case Nil
      have none: "\<not> hit ts e" "\<forall>x \<in> set post. \<not> hit ts x"
        using no_hit_after [OF Nil] after Cons.prems(2) e by auto
      then have "target_answer ts (e # post) []" "target_answer ts (e # post) [r']"
        using rd(3,4) by (auto simp: target_answer_def)
      then show ?thesis
        using rd(2) Cons.prems(3) unfold [unfolded Nil list.case] by (cases "g < a + s") auto
    next
      case (Cons t us)
      have hit: "t < a + s \<longleftrightarrow> hit ts e"
        using dropWhile_head_hit [OF \<open>sorted ts\<close> Cons] e by simp
      show ?thesis
      proof (cases "t < a + s")
        case True
        obtain rs k2 where "get_target_regions_from M ph ad (Some g) rd ?ts (a + s) (ret @ [r']) k' =
            Some (Inr ((ret @ [r']) @ rs), k2)" "k2 \<in> K" "target_answer ts post rs"
          using IH [OF rd(2)] by blast
        moreover have "target_answer ts (e # post) (r' # rs)"
          using target_answer_take [OF \<open>target_answer ts post rs\<close>, of e r'] hit True rd(3,4) after
            Cons.prems(2) e by auto
        ultimately show ?thesis
          using True Cons unfold by (intro exI [of _ "r' # rs"] exI [of _ k2]) simp
      next
        case no: False
        obtain rs k2 where "get_target_regions_from M ph ad (Some g) rd ?ts (a + s) ret k =
            Some (Inr (ret @ rs), k2)" "k2 \<in> K" "target_answer ts post rs"
          using IH [OF \<open>k \<in> K\<close>] by blast
        moreover have "target_answer ts (e # post) rs"
          using target_answer_skip \<open>target_answer ts post rs\<close> hit no by blast
        ultimately show ?thesis
          using no Cons unfold by (intro exI [of _ rs] exI [of _ k2]) simp
      qed
    qed
  qed
qed

lemma target_regions_of_table:
  assumes "table_kernel M (task ad) K tab" and "table_wf tab" and "k \<in> K" and "sorted targets"
  shows "\<exists>rs k'. get_target_regions M ph ad (Some g) targets read_data k = Some (Inr rs, k') \<and>
    k' \<in> K \<and> target_answer targets tab rs \<and> regions_wf rs \<and> set (map extent rs) \<subseteq> set tab"
proof -
  obtain rs k' where rs: "get_target_regions M ph ad (Some g) targets read_data k = Some (Inr rs, k')"
      "k' \<in> K" "target_answer targets tab rs"
    using get_target_regions_from_table [of M ad K "[]" tab k 0 targets ph g read_data "[]"] assms
      scan_at_start [OF assms(2)]
    by (auto simp: get_target_regions_def)
  then have "regions_wf rs"
    by (auto simp: target_answer_def regions_wf_def sorted_wrt_map extent_def end_addr_def)
  moreover have "set (map extent rs) \<subseteq> set tab"
  proof -
    obtain extra where "map extent rs = filter (hit targets) tab @ extra" "set extra \<subseteq> set tab"
      using rs(3) by (auto simp: target_answer_def)
    then show ?thesis by (simp only:) auto
  qed
  ultimately show ?thesis using rs by blast
qed

text \<open>
  C19. Given the sorted addresses of the search results, \<open>get_target_regions\<close> terminates and
  returns every region that holds one of them, in address order, and at most one region that
  holds none (the one it reads through the end iterator for, whatever value lies there).
\<close>

theorem get_target_regions_covers:
  assumes "table_kernel M (task ad) K tab" and "table_wf tab" and "k \<in> K" and "sorted targets"
  shows "\<exists>rs extra k'. get_target_regions M ph ad (Some g) targets read_data k = Some (Inr rs, k') \<and>
    k' \<in> K \<and> regions_wf rs \<and> map extent rs = filter (hit targets) tab @ extra \<and>
    set extra \<subseteq> set tab \<and> length extra \<le> 1"
  using target_regions_of_table [OF assms, of ph g read_data] unfolding target_answer_def by blast

lemma get_target_regions_checked:
  assumes "table_kernel M (task ad) K (pre @ post)" and "table_wf (pre @ post)"
    and "k \<in> K" and "scan_at pre post x"
  shows "if ts \<noteq> [] \<and> (\<exists>e \<in> set post. \<forall>t \<in> set ts. t < fst e)
    then \<exists>k'. get_target_regions_from M ph ad None rd ts x ret k = Some (Inl (Undefined Past_end), k')
    else \<exists>rs k'. get_target_regions_from M ph ad None rd ts x ret k = Some (Inr rs, k')"
  using assms
proof (induction post arbitrary: pre x ret k ts)
  case Nil
  then have "get_region M ph ad x False k = (Inl (Throw (Out_of_range ''no region found'')), k)"
    by (intro get_region_end) auto
  then show ?case by (subst get_target_regions_from.simps) auto
next
  case (Cons e post)
  obtain a s where e: "e = (a, s)" by (cases e)
  obtain r where r: "get_region M ph ad x False k = (Inr r, k)" "extent r = (a, s)"
      "region_wf r" "region_data r = []"
    using get_region_next [of M ad K pre a s post k x ph False] Cons.prems e by auto
  have ra: "region_addr r = a" "end_addr r = a + s"
    using r(2) by (auto simp: extent_def end_addr_def)
  obtain r' k' where rd: "read_if M ph ad rd r k = (Inr r', k')" "k' \<in> K"
    using read_target [OF Cons.prems(1,3) r(3,4), where rd = rd and ph = ph] by metis
  let ?ts = "dropWhile (\<lambda>t. t < a) ts"
  have below: "(\<forall>t \<in> set ?ts. t < fst y) \<longleftrightarrow> (\<forall>t \<in> set ts. t < fst y)" if "y \<in> set post" for y
  proof -
    have "a \<le> fst y" using table_after [of pre a s post y] Cons.prems(2) that e by simp
    moreover have "t \<in> set ?ts \<or> t < a" if "t \<in> set ts" for t using that by (induction ts) auto
    ultimately show ?thesis using set_dropWhileD by fastforce
  qed
  show ?case
  proof (cases ?ts)
    case Nil
    then have "\<forall>t \<in> set ts. t < fst e" using e by simp
    with Nil show ?thesis
      by (cases "ts = []"; subst get_target_regions_from.simps)
        (auto simp: r(1) ra Let_def simp del: dropWhile_eq_Nil_conv)
  next
    case (Cons t us)
    then have ne: "ts \<noteq> []" "?ts \<noteq> []" by auto
    have "\<not> (\<forall>t \<in> set ts. t < a)" using ne(2) by auto
    then have cond: "(\<exists>y \<in> set (e # post). \<forall>t \<in> set ts. t < fst y) \<longleftrightarrow>
        (\<exists>y \<in> set post. \<forall>t \<in> set ?ts. t < fst y)"
      using below e by auto
    have unfold: "get_target_regions_from M ph ad None rd ts x ret k =
      (if t < a + s then get_target_regions_from M ph ad None rd ?ts (a + s) (ret @ [r']) k'
       else get_target_regions_from M ph ad None rd ?ts (a + s) ret k)"
      by (subst get_target_regions_from.simps) (simp add: ne r(1) rd(1) ra Let_def Cons)
    have IH: "if \<exists>y \<in> set post. \<forall>t \<in> set ?ts. t < fst y
      then \<exists>k'. get_target_regions_from M ph ad None rd ?ts (a + s) ret1 k1 = Some (Inl (Undefined Past_end), k')
      else \<exists>rs k'. get_target_regions_from M ph ad None rd ?ts (a + s) ret1 k1 = Some (Inr rs, k')"
      if "k1 \<in> K" for ret1 k1
      using Cons.IH [of "pre @ [e]" k1 "a + s" ?ts ret1] that Cons.prems e ne
        scan_at_step [of pre a s post x] by simp
    show ?thesis
      unfolding unfold cond using IH [OF rd(2), of "ret @ [r']"] IH [OF \<open>k \<in> K\<close>, of ret] ne(1)
      by simp
  qed
qed

text \<open>
  C35. With checked iterators, \<open>get_target_regions\<close> dereferences \<open>target_addresses.end()\<close>
  exactly when there are results and some region lies entirely above all of them; without
  such a region it returns.
\<close>

theorem get_target_regions_derefs_end_iff:
  assumes "table_kernel M (task ad) K tab" and "table_wf tab" and "k \<in> K"
  shows "(\<exists>k'. get_target_regions M ph ad None targets read_data k =
        Some (Inl (Undefined Past_end), k')) \<longleftrightarrow>
      targets \<noteq> [] \<and> (\<exists>e \<in> set tab. \<forall>t \<in> set targets. t < fst e)"
  using get_target_regions_checked [of M ad K "[]" tab k 0 targets ph read_data "[]"] assms
    scan_at_start [OF assms(2)]
  by (auto simp: get_target_regions_def split: if_splits)

section \<open>Changing a protection\<close>

lemma protection_bits:
  "w AND READABLE = 0 \<longleftrightarrow> \<not> bit w 0"
  "w AND WRITABLE = 0 \<longleftrightarrow> \<not> bit w 1"
  "w AND EXECUTABLE = 0 \<longleftrightarrow> \<not> bit w 2"
  "bit VM_PROT_READ j \<longleftrightarrow> j = 0"
  "bit VM_PROT_WRITE j \<longleftrightarrow> j = 1"
  "bit VM_PROT_EXECUTE j \<longleftrightarrow> j = 2"
  using and_exp_eq_0_iff_not_bit [of w 0] and_exp_eq_0_iff_not_bit [of w 1]
    and_exp_eq_0_iff_not_bit [of w 2] bit_exp_iff [of 0 j, where 'a = "32 word"]
    bit_exp_iff [of 1 j, where 'a = "32 word"] bit_exp_iff [of 2 j, where 'a = "32 word"]
  by (auto simp: protection_defs)

text \<open>
  \<open>set_protection\<close> protects the whole region found at the address; of its protection
  exactly the r, w, x bits selected by the mask change, to those asked for.
\<close>

theorem set_protection_changes_masked_bits:
  assumes "mach_vm_region M k (task ad) a = (KERN_SUCCESS, base, n, info)"
  shows "\<exists>p. (\<forall>j < 32. bit p j =
        (if j < 3 \<and> bit prot_mask j then bit prot j else bit (info_protection info) j)) \<and>
    snd (set_protection M ph ad a sz prot prot_mask k) = snd (mach_vm_protect M k (task ad) base n p)"
proof -
  let ?p = "new_protection (info_protection info) prot prot_mask"
  have "bit ?p j =
      (if j < 3 \<and> bit prot_mask j then bit prot j else bit (info_protection info) j)"
    if "j < 32" for j
  proof -
    consider "j = 0" | "j = 1" | "j = 2" | "3 \<le> j" by linarith
    then show ?thesis
      using that by cases (auto simp: new_protection_def Let_def protection_bits bit_simps)
  qed
  moreover have "snd (set_protection M ph ad a sz prot prot_mask k) =
      snd (mach_vm_protect M k (task ad) base n ?p)"
    using assms by (auto simp: set_protection_def Let_def split: prod.splits)
  ultimately show ?thesis by blast
qed

section \<open>Reading unreadable regions\<close>

text \<open>
  C36. Reading an unreadable region whose bytes cannot be read leaves it readable: the
  exception skips the call that would restore the protection, so the target keeps the
  protection that was set for the read.
\<close>

theorem failed_read_leaves_region_readable:
  assumes "protection r AND READABLE = 0"
    and "set_protection M ph ad (region_addr r) (region_size r) (protection r OR READABLE) ALL_ACCESS k
      = (Inr (), k1)"
    and "fst (mach_vm_read_overwrite M k1 (task ad) (region_addr r) (region_size r)) \<noteq> KERN_SUCCESS"
  shows "try_read_region M ph ad r k = (Inr r, k1)"
  using assms
  by (auto simp: try_read_region_def read_region_def read_bytes_def Let_def split: prod.splits)

section \<open>Pausing the target\<close>

text \<open>
  A suspend count of the target in the kernel, as the documentation of \<open>task_suspend\<close> and
  \<open>task_resume\<close> describes it.
\<close>

definition suspend_counted :: "'k mach \<Rightarrow> port \<Rightarrow> ('k \<Rightarrow> nat) \<Rightarrow> bool" where
  "suspend_counted M t count \<longleftrightarrow>
     (\<forall>k ret k'. task_suspend M k t = (ret, k') \<longrightarrow>
        count k' = (if ret = KERN_SUCCESS then count k + 1 else count k)) \<and>
     (\<forall>k ret k'. task_resume M k t = (ret, k') \<longrightarrow>
        (if ret = KERN_SUCCESS then count k = count k' + 1 else count k = 0 \<and> count k' = 0))"

lemma suspend_counted_suspend:
  "suspend_counted M t count \<Longrightarrow> task_suspend M k t = (ret, k') \<Longrightarrow>
   count k' = (if ret = KERN_SUCCESS then count k + 1 else count k)"
  unfolding suspend_counted_def by blast

lemma suspend_counted_resume:
  "suspend_counted M t count \<Longrightarrow> task_resume M k t = (ret, k') \<Longrightarrow>
   if ret = KERN_SUCCESS then count k = count k' + 1 else count k = 0 \<and> count k' = 0"
  unfolding suspend_counted_def by blast

text \<open>
  The other two calls that change the task, a change of protection and a write, leave the count
  alone; so does everything that is built from them.
\<close>

definition steady_count :: "'k mach \<Rightarrow> port \<Rightarrow> ('k \<Rightarrow> nat) \<Rightarrow> bool" where
  "steady_count M t count \<longleftrightarrow> suspend_counted M t count \<and>
     (\<forall>k a n p. count (snd (mach_vm_protect M k t a n p)) = count k) \<and>
     (\<forall>k a bs. count (snd (mach_vm_write M k t a bs)) = count k)"

definition keeps_count :: "'k mach \<Rightarrow> port \<Rightarrow> 'k \<Rightarrow> 'k \<Rightarrow> bool" where
  "keeps_count M t k k' \<longleftrightarrow> (\<forall>count. steady_count M t count \<longrightarrow> count k' = count k)"

lemma keeps_count_refl [simp]: "keeps_count M t k k"
  by (simp add: keeps_count_def)

lemma keeps_count_trans: "keeps_count M t k k1 \<Longrightarrow> keeps_count M t k1 k2 \<Longrightarrow> keeps_count M t k k2"
  by (auto simp: keeps_count_def)

lemma read_bytes_keeps_count: "keeps_count M t k (snd (read_bytes M ph ad a n k))"
  by (simp add: read_bytes_def split: prod.split)

lemma write_bytes_keeps_count: "keeps_count M (task ad) k (snd (write_bytes M ph ad a d k))"
  by (auto simp: keeps_count_def steady_count_def write_bytes_def split: prod.split) (metis snd_conv)+

text \<open>So the region loops keep the count: the states with that count are closed under them.\<close>

lemma table_kernel_counted:
  assumes "table_kernel M t K tab" and "steady_count M t count"
  shows "table_kernel M t {k \<in> K. count k = c} tab"
  using assms unfolding table_kernel_def steady_count_def by fastforce

text \<open>A target that was suspended and whose count was kept since can be resumed.\<close>

lemma resume_after_suspend:
  assumes "steady_count M t count" and "task_suspend M k t = (KERN_SUCCESS, k1)"
    and "keeps_count M t k1 k2"
  shows "fst (task_resume M k2 t) = KERN_SUCCESS"
proof -
  have c: "suspend_counted M t count" using assms(1) by (simp add: steady_count_def)
  have "count k1 = count k + 1" using suspend_counted_suspend [OF c assms(2)] by simp
  moreover have "count k2 = count k1" using assms(1,3) by (simp add: keeps_count_def)
  ultimately show ?thesis
    using suspend_counted_resume [OF c, of k2 "fst (task_resume M k2 t)" "snd (task_resume M k2 t)"]
    by (simp split: if_splits)
qed

text \<open>
  C37. A \<open>PauseGuard\<close> scope never leaves the target paused: whatever way its body ends, the
  suspend count is afterwards what it was before, provided the body does not change it; and
  when the guard pauses, the resume of its destructor cannot fail and end the program.
\<close>

theorem pause_guard_balanced:
  assumes "\<forall>ad. guard = Some ad \<longrightarrow> suspend_counted M (task ad) count"
    and "\<forall>k res k'. body k = Some (res, k') \<longrightarrow> count k' = count k \<and> res \<noteq> Inl Terminate"
    and "with_pause_guard M ph guard body k = Some (res, k')"
  shows "count k' = count k \<and> res \<noteq> Inl Terminate"
proof (cases guard)
  case None
  with assms(2,3) show ?thesis by (simp add: with_pause_guard_def)
next
  case (Some ad)
  obtain r1 k1 where p: "task_suspend M k (task ad) = (r1, k1)" by fastforce
  note counted = assms(1) [rule_format, OF Some]
  note k1 = suspend_counted_suspend [OF counted p]
  show ?thesis
  proof (cases "r1 = KERN_SUCCESS")
    case False
    then show ?thesis
      using Some p k1 assms(3) by (auto simp: with_pause_guard_def pause_def)
  next
    case True
    with Some p assms(3) obtain r2 k2 where b: "body k1 = Some (r2, k2)"
      by (auto simp: with_pause_guard_def pause_def split: option.splits)
    obtain r3 k3 where q: "task_resume M k2 (task ad) = (r3, k3)" by fastforce
    have "count k1 = count k + 1" "count k2 = count k1" "r2 \<noteq> Inl Terminate"
      using True k1 b assms(2) by auto
    moreover from this have "r3 = KERN_SUCCESS" "count k2 = count k3 + 1"
      using suspend_counted_resume [OF counted q] by (auto split: if_splits)
    ultimately show ?thesis
      using True Some p b q assms(3)
      by (auto simp: with_pause_guard_def pause_def resume_def)
  qed
qed

end
