(* ===== verification/SearchScan.thy ===== *)
theory SearchScan
  imports MemorySearch EvaluatorProps AdapterProps
begin

text \<open>
  The two scans of \<open>MemorySearch::update\<close> that create results: the first search for a known
  value and the second search after an unknown value. Each is shown equal to a list
  comprehension over the cells of the snapshot.
\<close>

section \<open>When a comparator cannot fail\<close>

definition flag_may_overflow :: "search_type \<Rightarrow> predicate \<Rightarrow> bool" where
  "flag_may_overflow t p \<longleftrightarrow> p = FLAG \<and> t \<in> {INT32, INT32_RE, INT64, INT64_RE}"

lemma flag_function_total:
  assumes "type_prim t = Some q" and "\<not> is_float q" and "\<not> flag_may_overflow t FLAG"
    and "length x = prim_size q" and "length y = prim_size q"
  shows "\<exists>v. flag_op_function q x y = Inr v"
proof (cases "q \<in> {U8, U16, U32, U64}")
  case True
  then show ?thesis using flag_op_unsigned [OF True assms(4,5)] by simp
next
  case False
  then have q: "q \<in> {S8, S16, S32, S64}" using assms(2) by (cases q) (auto simp: is_float_def)
  moreover have "\<not> 4 \<le> prim_size q"
    using q assms(1,3) by (cases t) (auto simp: flag_may_overflow_def)
  ultimately show ?thesis using flag_op_signed [OF q assms(4,5)] by simp
qed

lemma cell_size_None: "type_prim t = None \<Longrightarrow> cell_size t sz = sz"
  by (simp add: cell_size_def type_prim_None)

lemma cell_size_Some: "type_prim t = Some q \<Longrightarrow> cell_size t sz = prim_size q"
  using prim_size_type [of t q] by (auto simp: cell_size_def)

text \<open>
  Given both cells in full, every evaluator of the table returns, except the flag evaluator
  of the signed 32- and 64-bit types.
\<close>

lemma evaluator_total:
  assumes "evaluator_for t p = Some ev" and "\<not> flag_may_overflow t p"
    and "cell_size t sz \<le> length a" and "cell_size t sz \<le> length b"
  shows "\<exists>v. run_evaluator enc ev a b sz = Inr v"
proof (cases "relop_of p")
  case (Some oper)
  then have "ev = relational_entry t oper" using assms(1) evaluator_for_relop by simp
  then show ?thesis
    using assms(3,4)
    by (cases "type_prim t")
      (auto simp: relational_entry_def load2_ok cell_size_None cell_size_Some)
next
  case None
  show ?thesis
  proof (cases "p = FLAG")
    case False
    then have "p = ALL_P" using None by (cases p) auto
    then show ?thesis using assms(1) by (auto simp: evaluator_for_all)
  next
    case True
    show ?thesis
    proof (cases "type_prim t")
      case None
      then have "ev = Data_flag" "sz = cell_size t sz"
        using assms(1) True by (auto simp: evaluator_for_flag cell_size_None)
      then show ?thesis
        using data_flag_first_byte [of sz a b enc] assms(3,4) by simp
    next
      case (Some q)
      then have ev: "ev = Flag_op_function q" "\<not> is_float q"
        using assms(1) True by (auto simp: evaluator_for_flag split: if_splits)
      have sz: "cell_size t sz = prim_size q"
        by (rule cell_size_Some [OF Some])
      show ?thesis
        using flag_function_total [OF Some ev(2), of "take (prim_size q) a" "take (prim_size q) b"]
          assms(2-4) True ev(1) sz by (simp add: load2_ok)
    qed
  qed
qed

section \<open>Multiples below a bound\<close>

lemma u64_bound: "unat (x :: u64) < 2 ^ 64"
  using unsigned_less [of x] by simp

lemma filter_dvd_next:
  assumes "fs dvd j" and "0 < fs" and "(j::nat) < lim"
  shows "filter ((dvd) fs) [j..<lim] = j # filter ((dvd) fs) [j + fs..<lim]"
proof -
  have none: "\<not> fs dvd y" if "j < y" "y < j + fs" for y
  proof
    assume "fs dvd y"
    then have "fs dvd y - j" using assms(1) by (rule dvd_diff_nat)
    then have "fs \<le> y - j" using that by (intro dvd_imp_le) auto
    with that show False by simp
  qed
  let ?m = "min lim (j + fs)"
  have "[Suc j..<lim] = [Suc j..<?m] @ [?m..<lim]"
    using upt_add_eq_append [of "Suc j" ?m "lim - ?m"] assms(2,3) by simp
  moreover have "filter ((dvd) fs) [Suc j..<?m] = []"
    using none by (auto simp: filter_empty_conv)
  moreover have "[?m..<lim] = [j + fs..<lim]" by (auto simp: min_def)
  ultimately show ?thesis
    using assms by (simp add: upt_conv_Cons)
qed

section \<open>First search with a known value\<close>

definition cell_addr :: "region \<Rightarrow> nat \<Rightarrow> u64" where
  "cell_addr r y = region_addr r + of_nat y"

definition cell_matches :: "encoding \<Rightarrow> evaluator \<Rightarrow> byte list \<Rightarrow> region \<Rightarrow> nat \<Rightarrow> bool" where
  "cell_matches enc ev d r y \<longleftrightarrow>
     run_evaluator enc ev (at_offset (region_data r) y) (at_offset d 0) (length d) = Inr True"

text \<open>The matching cells of a region, from offset \<open>j\<close> on, that start below \<open>size - n\<close>.\<close>

definition known_hits ::
  "encoding \<Rightarrow> evaluator \<Rightarrow> nat \<Rightarrow> byte list \<Rightarrow> nat \<Rightarrow> region \<Rightarrow> u64 list" where
  "known_hits enc ev fs d j r =
     (if region_data r = [] then []
      else map (cell_addr r) (filter (cell_matches enc ev d r)
             (filter ((dvd) fs) [j..<unat (region_size r) - length d])))"

lemma scan_region_hits:
  assumes wf: "region_wf r" and data: "region_data r \<noteq> []"
    and fs: "0 < fs" "fs \<le> length d" and size: "length d \<le> unat (region_size r)"
    and total: "\<And>y. y + length d \<le> unat (region_size r) \<Longrightarrow>
      \<exists>v. run_evaluator enc ev (at_offset (region_data r) y) (at_offset d 0) (length d) = Inr v"
    and j: "fs dvd j" "j < 2 ^ 64" and found: "length found \<le> m"
  shows "scan_region enc ev (of_nat fs) d m r (of_nat j) found =
    Some (Inr (take m (found @ known_hits enc ev fs d j r)))"
  using j found
proof (induction "unat (region_size r) - j" arbitrary: j found rule: less_induct)
  case less
  let ?lim = "unat (region_size r) - length d"
  have lim: "unat (region_size r - of_nat (length d)) = ?lim"
    using size u64_bound [of "region_size r"]
    by (simp add: unat_sub_if' unat_of_nat word_le_nat_alt)
  have y: "unat (of_nat j :: u64) = j" using less.prems(2) by (simp add: unat_of_nat)
  have less_iff: "(of_nat j :: u64) < region_size r - of_nat (length d) \<longleftrightarrow> j < ?lim"
    by (simp add: word_less_nat_alt lim y)
  show ?case
  proof (cases "j < ?lim \<and> length found < m")
    case False
    then show ?thesis
      using less.prems(3) less_iff
      by (subst scan_region.simps) (auto simp: known_hits_def)
  next
    case True
    then have jn: "j + length d \<le> unat (region_size r)" by (simp add: less_diff_conv)
    obtain v where v: "run_evaluator enc ev (at_offset (region_data r) j) (at_offset d 0) (length d) = Inr v"
      using total [OF jn] by blast
    let ?found = "if v then found @ [cell_addr r j] else found"
    have step: "scan_region enc ev (of_nat fs) d m r (of_nat j) found =
        scan_region enc ev (of_nat fs) d m r (of_nat (j + fs)) ?found"
      using True less_iff v y by (subst scan_region.simps) (simp add: cell_addr_def)
    have "j + fs < 2 ^ 64"
      using jn fs True u64_bound [of "region_size r"] by simp
    then have "scan_region enc ev (of_nat fs) d m r (of_nat (j + fs)) ?found =
        Some (Inr (take m (?found @ known_hits enc ev fs d (j + fs) r)))"
      using True less.prems(1) fs by (intro less.hyps) auto
    moreover have "known_hits enc ev fs d j r =
        (if v then [cell_addr r j] else []) @ known_hits enc ev fs d (j + fs) r"
      using filter_dvd_next [OF less.prems(1) fs(1), of ?lim] True v data
      by (simp add: known_hits_def cell_matches_def)
    ultimately show ?thesis using step by simp
  qed
qed

lemma scan_regions_hits:
  assumes "\<And>r. r \<in> set rs \<Longrightarrow> region_wf r"
    and "0 < fs" and "fs \<le> length d"
    and "\<And>r. r \<in> set rs \<Longrightarrow> region_data r \<noteq> [] \<Longrightarrow> length d \<le> unat (region_size r)"
    and "\<And>r y. r \<in> set rs \<Longrightarrow> region_data r \<noteq> [] \<Longrightarrow> y + length d \<le> unat (region_size r) \<Longrightarrow>
      \<exists>v. run_evaluator enc ev (at_offset (region_data r) y) (at_offset d 0) (length d) = Inr v"
    and "length found \<le> m"
  shows "scan_regions enc ev (of_nat fs) d m rs found =
    Some (Inr (take m (found @ concat (map (known_hits enc ev fs d 0) rs))))"
  using assms
proof (induction rs arbitrary: found)
  case Nil
  then show ?case by simp
next
  case (Cons r rs)
  show ?case
  proof (cases "region_data r = []")
    case True
    have "scan_regions enc ev (of_nat fs) d m rs found =
        Some (Inr (take m (found @ concat (map (known_hits enc ev fs d 0) rs))))"
      using Cons.prems by (intro Cons.IH) auto
    moreover have "known_hits enc ev fs d 0 r = []" using True by (simp add: known_hits_def)
    ultimately show ?thesis using True by simp
  next
    case False
    let ?found = "take m (found @ known_hits enc ev fs d 0 r)"
    have "scan_region enc ev (of_nat fs) d m r (of_nat 0) found = Some (Inr ?found)"
      using Cons.prems False by (intro scan_region_hits) auto
    moreover have "scan_regions enc ev (of_nat fs) d m rs ?found =
        Some (Inr (take m (?found @ concat (map (known_hits enc ev fs d 0) rs))))"
      using Cons.prems by (intro Cons.IH) auto
    moreover have "take m (take m xs @ ys) = take m (xs @ ys)" for xs ys :: "u64 list"
      by (simp add: min_def)
    ultimately show ?thesis using False by (simp del: take_append)
  qed
qed

lemma value_size_DATA [simp]: "value_size_for_search_type DATA = 0"
  by (simp add: value_size_for_search_type_def)

lemma first_search_data:
  assumes "check_can_update s p d = Inr ()" and "memory s = None" and "p \<noteq> ALL_P"
  shows "0 < field_size (search_type s)" and "field_size (search_type s) \<le> length d"
    and "cell_size (search_type s) (length d) = length d"
    and "evaluator_for (search_type s) p = Some (the (evaluator_for (search_type s) p))"
  using assms
  by (auto simp: check_can_update_def field_size_eq cell_size_def Suc_le_eq split: if_splits)

lemma at_offset_length: "y + n \<le> length bs \<Longrightarrow> n \<le> length (at_offset bs y)"
  by (simp add: at_offset_def)

lemma first_search_results:
  assumes "memory s = None" and "results s = []" and "p \<noteq> ALL_P"
    and "check_can_update s p d = Inr ()" and "\<not> flag_may_overflow (search_type s) p"
    and "regions_wf new" and "\<forall>r \<in> set new. region_data r \<noteq> [] \<longrightarrow> length d \<le> unat (region_size r)"
  shows "update enc s new p d m = Some (Inr (s\<lparr>
    results := take m (concat (map (known_hits enc (the (evaluator_for (search_type s) p))
      (field_size (search_type s)) d 0) new)),
    results_valid := True, prev_size := length d, memory := Some new\<rparr>))"
proof -
  note sz = first_search_data [OF assms(4,1,3)]
  let ?ev = "the (evaluator_for (search_type s) p)" and ?fs = "field_size (search_type s)"
  have "scan_regions enc ?ev (of_nat ?fs) d m new (results s) =
      Some (Inr (take m (results s @ concat (map (known_hits enc ?ev ?fs d 0) new))))"
  proof (rule scan_regions_hits)
    fix r y
    assume r: "r \<in> set new" "region_data r \<noteq> []" and y: "y + length d \<le> unat (region_size r)"
    then have "y + length d \<le> length (region_data r)"
      using assms(6) by (auto simp: regions_wf_def region_wf_def)
    then show "\<exists>v. run_evaluator enc ?ev (at_offset (region_data r) y) (at_offset d 0) (length d) = Inr v"
      using evaluator_total [OF sz(4) assms(5), of "length d" "at_offset (region_data r) y" "at_offset d 0" enc]
      by (simp add: sz(3) at_offset_length)
  qed (use sz assms in \<open>auto simp: regions_wf_def\<close>)
  then show ?thesis
    using assms(1-4) by (simp add: update_def Let_def)
qed

text \<open>
  C9. A first search for a known value, by any predicate but the flag predicate on signed 32-
  and 64-bit types (which may overflow), terminates without undefined behaviour and keeps, in
  region and address order and cut off at \<open>max_results\<close>, exactly the cells that start at a
  multiple of the cell size below \<open>size - data.size()\<close> and satisfy the predicate, provided no
  region is smaller than the value.
\<close>

theorem first_search_finds:
  assumes "memory s = None" and "results s = []" and "p \<noteq> ALL_P"
    and "check_can_update s p d = Inr ()" and "\<not> flag_may_overflow (search_type s) p"
    and "regions_wf new" and "\<forall>r \<in> set new. region_data r \<noteq> [] \<longrightarrow> length d \<le> unat (region_size r)"
  shows "update enc s new p d m = Some (Inr (s\<lparr>
    results := take m (concat (map (known_hits enc (the (evaluator_for (search_type s) p))
      (field_size (search_type s)) d 0) new)),
    results_valid := True, prev_size := length d, memory := Some new\<rparr>))"
  by (rule first_search_results [OF assms])

lemma known_hits_iff:
  "a \<in> set (known_hits enc ev fs d 0 r) \<longleftrightarrow>
     region_data r \<noteq> [] \<and>
     (\<exists>y. fs dvd y \<and> y < unat (region_size r) - length d \<and> cell_matches enc ev d r y \<and> a = cell_addr r y)"
  by (auto simp: known_hits_def)

lemma unat_cell_addr:
  "region_wf r \<Longrightarrow> y \<le> unat (region_size r) \<Longrightarrow> unat (cell_addr r y) = unat (region_addr r) + y"
  using u64_bound [of "region_size r"]
  by (simp add: cell_addr_def region_wf_def unat_word_ariths unat_of_nat)

lemma cell_addr_contains:
  "region_wf r \<Longrightarrow> y < unat (region_size r) \<Longrightarrow> contains (cell_addr r y) r"
  by (simp add: contains_def word_le_nat_alt word_less_nat_alt unat_cell_addr unat_end_addr)

lemma contains_unique:
  assumes "regions_wf rs" and "r \<in> set rs" and "r' \<in> set rs" and "contains a r" and "contains a r'"
  shows "r = r'"
  using assms
proof (induction rs)
  case (Cons x xs)
  have "\<not> contains a y" if "contains a x" "y \<in> set xs" for y
    using that Cons.prems(1) by (auto simp: regions_wf_Cons contains_def)
  with Cons show ?case by (auto simp: regions_wf_Cons)
qed simp

text \<open>
  The last cell of a region is never found by a first search, also when it holds the
  value searched for: the loop bound excludes the offset \<open>size - data.size()\<close>.
\<close>

theorem first_search_misses_last_cell:
  assumes "memory s = None" and "results s = []" and "p \<noteq> ALL_P"
    and "check_can_update s p d = Inr ()" and "\<not> flag_may_overflow (search_type s) p"
    and "regions_wf new" and "\<forall>r \<in> set new. region_data r \<noteq> [] \<longrightarrow> length d \<le> unat (region_size r)"
    and "r \<in> set new" and "region_data r \<noteq> []"
  shows "\<exists>s'. update enc s new p d m = Some (Inr s') \<and>
    cell_addr r (unat (region_size r) - length d) \<notin> set (results s')"
proof -
  note sz = first_search_data [OF assms(4,1,3)]
  let ?ev = "the (evaluator_for (search_type s) p)" and ?fs = "field_size (search_type s)"
  let ?last = "cell_addr r (unat (region_size r) - length d)"
  have wf: "region_wf q" if "q \<in> set new" for q using assms(6) that by (simp add: regions_wf_def)
  have "length d \<le> unat (region_size r)" "0 < length d" using sz assms(7-9) by auto
  then have r: "contains ?last r" by (intro cell_addr_contains wf assms(8)) linarith
  have "?last \<notin> set (known_hits enc ?ev ?fs d 0 q)" if q: "q \<in> set new" for q
  proof
    assume "?last \<in> set (known_hits enc ?ev ?fs d 0 q)"
    then obtain y where y: "y < unat (region_size q) - length d" "?last = cell_addr q y"
      by (auto simp: known_hits_iff)
    then have "contains ?last q" using wf [OF q] by (auto intro: cell_addr_contains)
    then have "q = r" using contains_unique [OF assms(6) q assms(8) _ r] by simp
    with y wf [OF q] have "unat (region_size r) - length d = y"
      by (metis diff_le_self add_left_cancel less_imp_le order_less_le_trans unat_cell_addr)
    with y \<open>q = r\<close> show False by simp
  qed
  then have "?last \<notin> set (take m (concat (map (known_hits enc ?ev ?fs d 0) new)))"
    by (auto dest: in_set_takeD)
  then show ?thesis
    using first_search_results [OF assms(1-7), of enc m] by simp
qed

text \<open>
  When the first region with data is smaller than the value by two bytes or more, the
  bound \<open>region.size - data.size()\<close> wraps around and the search reads beyond the region's
  buffer.
\<close>

theorem first_search_small_region_overruns:
  assumes "memory s = None" and "results s = []" and "relop_of p = Some oper"
    and "search_type s = DATA" and "d \<noteq> []" and "0 < m"
    and "region_wf r" and "region_data r \<noteq> []" and "unat (region_size r) + 1 < length d"
    and "length d < 2 ^ 64"
  shows "update enc s (r # rs) p d m = Some (Inl (Undefined Past_buffer))"
proof -
  have p: "p \<noteq> ALL_P" "evaluator_for DATA p = Some (Data_op_function oper)"
    using assms(3) evaluator_for_relop [OF assms(3), of DATA] by (auto simp: relational_entry_def)
  have len: "length (region_data r) = unat (region_size r)"
    using assms(7,8) by (simp add: region_wf_def)
  have bound: "0 < region_size r - of_nat (length d)"
  proof -
    have "unat (of_nat (length d) :: u64) = length d" using assms(10) by (simp add: unat_of_nat)
    with assms(9) have "region_size r \<noteq> of_nat (length d)" by auto
    then show ?thesis by (simp add: word_neq_0_conv [symmetric])
  qed
  have "load (length d) (at_offset (region_data r) 0) = Inl (Undefined Past_buffer)"
    using assms(5,9) len by (intro load_past) auto
  then have "scan_region enc (Data_op_function oper) (of_nat (field_size DATA)) d m r 0 [] =
      Some (Inl (Undefined Past_buffer))"
    using bound assms(6) by (subst scan_region.simps) (simp add: load2_def)
  then show ?thesis
    using assms(1,2,4,5,8) p
    by (simp add: update_def check_can_update_def Let_def)
qed

end
