(* ===== verification/SearchChanged.thy ===== *)
theory SearchChanged
  imports SearchScan
begin

text \<open>
  The second search after an unknown value: every cell of the new snapshot that also lies in
  a region of the old one is compared with its old contents. The carried index into the old
  regions is an instance of the cursor contract of \<open>Prelude\<close>.
\<close>

section \<open>The cursors over a snapshot\<close>

definition ended :: "u64 \<Rightarrow> region \<Rightarrow> bool" where
  "ended a r \<longleftrightarrow> end_addr r \<le> a"

definition ended_or_empty :: "u64 \<Rightarrow> region \<Rightarrow> bool" where
  "ended_or_empty a r \<longleftrightarrow> region_data r = [] \<or> end_addr r \<le> a"

definition contains_data :: "u64 \<Rightarrow> region \<Rightarrow> bool" where
  "contains_data a r \<longleftrightarrow> region_data r \<noteq> [] \<and> contains a r"

lemma regions_wf_nth:
  "regions_wf rs \<Longrightarrow> j < k \<Longrightarrow> k < length rs \<Longrightarrow> end_addr (rs ! j) \<le> region_addr (rs ! k)"
  by (auto simp: regions_wf_def sorted_wrt_iff_nth_less)

interpretation plain_cursor: region_cursor ended contains regions_wf
proof
  show "ended b r" if "ended a r" "a \<le> b" for a b r
    using that by (simp add: ended_def)
  show "\<not> ended a r" if "contains a r" for a r
    using that by (simp add: ended_def contains_def not_le)
  show "ended a (rs ! j)"
    if "regions_wf rs" "j < k" "k < length rs" "contains a (rs ! k)" for rs j k a
    using regions_wf_nth [OF that(1-3)] that(4) by (auto simp: ended_def contains_def)
qed

interpretation data_cursor: region_cursor ended_or_empty contains_data regions_wf
proof
  show "ended_or_empty b r" if "ended_or_empty a r" "a \<le> b" for a b r
    using that by (auto simp: ended_or_empty_def)
  show "\<not> ended_or_empty a r" if "contains_data a r" for a r
    using that by (simp add: ended_or_empty_def contains_data_def contains_def not_le)
  show "ended_or_empty a (rs ! j)"
    if "regions_wf rs" "j < k" "k < length rs" "contains_data a (rs ! k)" for rs j k a
    using regions_wf_nth [OF that(1-3)] that(4)
    by (auto simp: ended_or_empty_def contains_data_def contains_def)
qed

section \<open>The cells that changed as asked\<close>

definition changed_matches ::
  "encoding \<Rightarrow> evaluator \<Rightarrow> byte list \<Rightarrow> nat \<Rightarrow> region list \<Rightarrow> region \<Rightarrow> nat \<Rightarrow> bool" where
  "changed_matches enc ev d psize old r y \<longleftrightarrow>
     (\<exists>o_r \<in> set old. contains_data (cell_addr r y) o_r \<and>
        run_evaluator enc ev (at_offset (region_data r) y)
          (if d = [] then at_offset (region_data o_r) (unat (cell_addr r y - region_addr o_r))
           else at_offset d 0)
          (if d = [] then psize else length d) = Inr True)"

definition changed_hits ::
  "encoding \<Rightarrow> evaluator \<Rightarrow> nat \<Rightarrow> byte list \<Rightarrow> nat \<Rightarrow> region list \<Rightarrow> nat \<Rightarrow> region \<Rightarrow> u64 list" where
  "changed_hits enc ev fs d psize old j r =
     (if region_data r = [] then []
      else map (cell_addr r) (filter (changed_matches enc ev d psize old r)
             (filter ((dvd) fs) [j..<unat (region_size r)])))"

definition aligned :: "nat \<Rightarrow> region list \<Rightarrow> bool" where
  "aligned fs rs \<longleftrightarrow>
     (\<forall>r \<in> set rs. fs dvd unat (region_addr r) \<and> fs dvd unat (region_size r))"

lemma aligned_next:
  "fs dvd (j::nat) \<Longrightarrow> fs dvd s \<Longrightarrow> j < s \<Longrightarrow> j + fs \<le> s"
  by (metis add_le_imp_le_diff dvd_diff_nat dvd_imp_le le_add_diff_inverse less_imp_le
      nat_add_left_cancel_le zero_less_diff)

lemma aligned_cell_fits:
  assumes "fs dvd unat a" and "region_wf r" and "fs dvd unat (region_addr r)"
    and "fs dvd unat (region_size r)" and "contains a r"
  shows "unat (a - region_addr r) + fs \<le> unat (region_size r)"
proof -
  have le: "region_addr r \<le> a" "unat a < unat (region_addr r) + unat (region_size r)"
    using assms(2,5) by (auto simp: contains_def word_less_nat_alt unat_end_addr)
  then have off: "unat (a - region_addr r) = unat a - unat (region_addr r)"
    by (simp add: unat_sub)
  show ?thesis
    unfolding off using le assms(1,3,4) by (intro aligned_next dvd_diff_nat) (auto simp: word_le_nat_alt)
qed

lemma cell_addr_mono:
  "region_wf r \<Longrightarrow> j \<le> k \<Longrightarrow> k \<le> unat (region_size r) \<Longrightarrow> cell_addr r j \<le> cell_addr r k"
  by (simp add: word_le_nat_alt unat_cell_addr)

lemma cell_addr_end: "cell_addr r (unat (region_size r)) = end_addr r"
  by (simp add: cell_addr_def end_addr_def)

section \<open>The loop\<close>

text \<open>Skipping from offset \<open>j\<close> to \<open>j'\<close> loses nothing when no old region has data in between.\<close>

lemma changed_hits_skip:
  assumes "j \<le> j'" and "\<And>y. j \<le> y \<Longrightarrow> y < j' \<Longrightarrow> y < unat (region_size r) \<Longrightarrow>
      \<not> (\<exists>o_r \<in> set old. contains_data (cell_addr r y) o_r)"
  shows "changed_hits enc ev fs d psize old j r = changed_hits enc ev fs d psize old j' r"
proof -
  let ?s = "unat (region_size r)"
  let ?P = "\<lambda>y. fs dvd y \<and> changed_matches enc ev d psize old r y"
  have "[j..<?s] = [j..<min j' ?s] @ [j'..<?s]" if "j \<le> ?s"
    using upt_add_eq_append [of j "min j' ?s" "?s - min j' ?s"] that assms(1)
    by (auto simp: min_def)
  moreover have "filter ?P [j..<min j' ?s] = []"
    using assms(2) by (auto simp: filter_empty_conv changed_matches_def)
  ultimately have "filter ?P [j..<?s] = filter ?P [j'..<?s]"
    using assms(1) by (cases "j \<le> ?s") simp_all
  then show ?thesis by (simp add: changed_hits_def)
qed

lemma no_old_region_between:
  assumes "regions_wf old" and "data_cursor.behind old i a" and "i < length old"
    and "a \<le> x" and "x < region_addr (old ! i)"
  shows "\<not> (\<exists>o_r \<in> set old. contains_data x o_r)"
proof
  assume "\<exists>o_r \<in> set old. contains_data x o_r"
  then obtain k where k: "k < length old" "contains_data x (old ! k)"
    by (auto simp: in_set_conv_nth)
  consider "k < i" | "k = i" | "i < k" by linarith
  then show False
  proof cases
    case 1
    then have "ended_or_empty x (old ! k)"
      using data_cursor.behind_mono [OF assms(2,4)] k(1) by (simp add: data_cursor.behind_def)
    then show False using data_cursor.holds_not_passed [OF k(2)] by simp
  next
    case 2
    then show False using k(2) assms(5) by (auto simp: contains_data_def contains_def)
  next
    case 3
    have "region_wf (old ! i)" using assms(1,3) by (simp add: regions_wf_def)
    then have "region_addr (old ! i) < end_addr (old ! i)" by (rule region_nonempty)
    moreover have "end_addr (old ! i) \<le> region_addr (old ! k)"
      using regions_wf_nth [OF assms(1) 3 k(1)] .
    ultimately have "x < region_addr (old ! k)" using assms(5) by simp
    then show False using k(2) by (auto simp: contains_data_def contains_def)
  qed
qed

lemma no_old_region_left:
  assumes "data_cursor.behind old i a" and "length old \<le> i" and "a \<le> x"
  shows "\<not> (\<exists>o_r \<in> set old. contains_data x o_r)"
proof
  assume "\<exists>o_r \<in> set old. contains_data x o_r"
  then obtain k where k: "k < length old" "contains_data x (old ! k)"
    by (auto simp: in_set_conv_nth)
  then have "ended_or_empty x (old ! k)"
    using data_cursor.behind_mono [OF assms(1,3)] assms(2) by (simp add: data_cursor.behind_def)
  then show False using data_cursor.holds_not_passed [OF k(2)] by simp
qed

lemma ended_or_empty_eq: "(\<lambda>o_r. region_data o_r = [] \<or> end_addr o_r \<le> a) = ended_or_empty a"
  by (simp add: fun_eq_iff ended_or_empty_def)

lemma scan_changed_step:
  assumes "region_data r \<noteq> []" and "j < unat (region_size r)"
    and "k = skip_while (ended_or_empty (cell_addr r j)) old i"
  shows "scan_changed_region enc ev (of_nat fs) d psize old r (of_nat j) i found =
    (if length old \<le> k then Some (Inr (k, found))
     else if cell_addr r j < region_addr (old ! k)
     then scan_changed_region enc ev (of_nat fs) d psize old r
            (region_addr (old ! k) - region_addr r) k found
     else (case run_evaluator enc ev (at_offset (region_data r) j)
             (if d = [] then at_offset (region_data (old ! k))
                (unat (cell_addr r j - region_addr (old ! k))) else at_offset d 0)
             (if d = [] then psize else length d)
           of Inl f \<Rightarrow> Some (Inl f)
            | Inr b \<Rightarrow> scan_changed_region enc ev (of_nat fs) d psize old r (of_nat (j + fs)) k
                         (if b then found @ [cell_addr r j] else found)))"
proof -
  have y: "unat (of_nat j :: u64) = j"
    using assms(2) u64_bound [of "region_size r"] by (simp add: unat_of_nat)
  then have "(of_nat j :: u64) < region_size r" using assms(2) by (simp add: word_less_nat_alt)
  then show ?thesis
    unfolding assms(3) cell_addr_def of_nat_add
    using assms(1) y
    by (subst scan_changed_region.simps) (simp add: Let_def ended_or_empty_eq)
qed

text \<open>A region without data is stepped through without effect.\<close>

lemma scan_changed_no_data:
  assumes "region_data r = []" and "0 < fs" and "fs dvd unat (region_size r)"
    and "fs dvd j" and "j \<le> unat (region_size r)"
  shows "scan_changed_region enc ev (of_nat fs) d psize old r (of_nat j) i found = Some (Inr (i, found))"
  using assms(4,5)
proof (induction "unat (region_size r) - j" arbitrary: j rule: less_induct)
  case less
  have y: "(of_nat j :: u64) < region_size r \<longleftrightarrow> j < unat (region_size r)"
    using less.prems(2) u64_bound [of "region_size r"] by (simp add: word_less_nat_alt unat_of_nat)
  show ?case
  proof (cases "j < unat (region_size r)")
    case False
    then show ?thesis using y by (subst scan_changed_region.simps) simp
  next
    case True
    have "scan_changed_region enc ev (of_nat fs) d psize old r (of_nat (j + fs)) i found = Some (Inr (i, found))"
      using True assms(2,3) less.prems aligned_next [OF less.prems(1) assms(3) True]
      by (intro less.hyps) auto
    then show ?thesis
      using True y assms(1) by (subst scan_changed_region.simps) simp
  qed
qed

lemma scan_changed_region_hits:
  assumes wf: "region_wf r" and old: "regions_wf old"
    and al: "0 < fs" "aligned fs old" "fs dvd unat (region_addr r)" "fs dvd unat (region_size r)"
    and d: "d = [] \<or> fs \<le> length d"
    and total: "\<And>a b. fs \<le> length a \<Longrightarrow> fs \<le> length b \<Longrightarrow>
      \<exists>v. run_evaluator enc ev a b (if d = [] then psize else length d) = Inr v"
    and data: "region_data r \<noteq> []"
    and j: "fs dvd j" "j < 2 ^ 64"
    and behind: "data_cursor.behind old i (if j < unat (region_size r) then cell_addr r j else end_addr r)"
  shows "\<exists>i'. scan_changed_region enc ev (of_nat fs) d psize old r (of_nat j) i found =
      Some (Inr (i', found @ changed_hits enc ev fs d psize old j r)) \<and>
    data_cursor.behind old i' (end_addr r)"
  using j behind
proof (induction "unat (region_size r) - j" arbitrary: i j found rule: less_induct)
  case less
  let ?s = "unat (region_size r)" and ?a = "cell_addr r j"
  have y: "(of_nat j :: u64) < region_size r \<longleftrightarrow> j < ?s"
    using less.prems(2) by (simp add: word_less_nat_alt unat_of_nat)
  show ?case
  proof (cases "j < ?s")
    case False
    then show ?thesis
      using y less.prems(3) by (subst scan_changed_region.simps) (simp add: changed_hits_def)
  next
    case True
    define k where "k = skip_while (ended_or_empty ?a) old i"
    have bk: "data_cursor.behind old k ?a"
      using less.prems(3) True data_cursor.behind_skip by (simp add: k_def)
    have end_le: "?a \<le> end_addr r"
      using True cell_addr_mono [OF wf, of j ?s] by (simp add: cell_addr_end)
    then have bend: "data_cursor.behind old k (end_addr r)"
      using data_cursor.behind_mono [OF bk] by simp
    note step = scan_changed_step [OF data True k_def, where found = found and enc = enc and ev = ev
        and fs = fs and d = d and psize = psize]
    have later: "?a \<le> cell_addr r x" if "j \<le> x" "x \<le> ?s" for x
      using cell_addr_mono [OF wf that] .
    consider (none) "length old \<le> k"
      | (skip) "k < length old" "?a < region_addr (old ! k)"
      | (cell) "k < length old" "region_addr (old ! k) \<le> ?a"
      by (meson not_le)
    then show ?thesis
    proof cases
      case none
      have "changed_hits enc ev fs d psize old j r = changed_hits enc ev fs d psize old ?s r"
        using True no_old_region_left [OF bk none] later by (intro changed_hits_skip) auto
      then show ?thesis using step none bend by (simp add: changed_hits_def)
    next
      case skip
      let ?o = "old ! k"
      define j' where "j' = unat (region_addr ?o - region_addr r)"
      have ra: "region_addr r \<le> ?a"
        using later [of j] True cell_addr_mono [OF wf, of 0 j] by (simp add: cell_addr_def)
      have j': "unat (region_addr ?o) = unat (region_addr r) + j'"
        using skip(2) ra by (simp add: j'_def unat_sub word_less_nat_alt word_le_nat_alt)
      have ua: "unat ?a = unat (region_addr r) + j" using True by (simp add: unat_cell_addr wf)
      have jj': "j < j'" using skip(2) j' ua by (simp add: word_less_nat_alt)
      have "fs dvd unat (region_addr r) + j'"
        using al(2) skip(1) by (simp add: aligned_def flip: j')
      then have "fs dvd j'" using al(3) dvd_add_right_iff by blast
      moreover have "j' < 2 ^ 64" by (simp add: j'_def u64_bound [simplified])
      moreover have "data_cursor.behind old k (if j' < ?s then cell_addr r j' else end_addr r)"
        using bk bend later [of j'] jj' data_cursor.behind_mono by simp
      ultimately obtain i' where IH:
        "scan_changed_region enc ev (of_nat fs) d psize old r (of_nat j') k found =
          Some (Inr (i', found @ changed_hits enc ev fs d psize old j' r))"
        "data_cursor.behind old i' (end_addr r)"
        using less.hyps [of j' k found] jj' True
        by (metis diff_less_mono2)
      have "changed_hits enc ev fs d psize old j r = changed_hits enc ev fs d psize old j' r"
      proof (rule changed_hits_skip)
        fix x assume x: "j \<le> x" "x < j'" "x < ?s"
        then have "cell_addr r x < region_addr ?o"
          using j' by (simp add: word_less_nat_alt unat_cell_addr wf)
        then show "\<not> (\<exists>o_r \<in> set old. contains_data (cell_addr r x) o_r)"
          using no_old_region_between [OF old bk skip(1)] later x by auto
      qed (use jj' in simp)
      then show ?thesis using step skip IH by (simp add: j'_def)
    next
      case cell
      let ?o = "old ! k"
      have np: "\<not> ended_or_empty ?a ?o"
        using skip_while_stop [of "ended_or_empty ?a" old i] cell(1) by (simp add: k_def)
      then have od: "contains_data ?a ?o"
        using cell(2) by (auto simp: ended_or_empty_def contains_data_def contains_def)
      have ow: "region_wf ?o" "fs dvd unat (region_addr ?o)" "fs dvd unat (region_size ?o)"
        using old al(2) cell(1) by (auto simp: regions_wf_def aligned_def)
      have ua: "unat ?a = unat (region_addr r) + j" using True by (simp add: unat_cell_addr wf)
      have ofit: "unat (?a - region_addr ?o) + fs \<le> length (region_data ?o)"
        using aligned_cell_fits [OF _ ow] od al(3) less.prems(1) ua ow(1)
        by (auto simp: contains_data_def region_wf_def)
      have jfs: "j + fs \<le> ?s" using aligned_next less.prems(1) al(4) True by simp
      then have nfit: "j + fs \<le> length (region_data r)" using wf data by (simp add: region_wf_def)
      let ?t = "if d = [] then at_offset (region_data ?o) (unat (?a - region_addr ?o)) else at_offset d 0"
      have "fs \<le> length (at_offset (region_data r) j)" "fs \<le> length ?t"
        using nfit ofit d by (auto simp: at_offset_def)
      then obtain v where v: "run_evaluator enc ev (at_offset (region_data r) j) ?t
          (if d = [] then psize else length d) = Inr v"
        using total by blast
      have uniq: "o_r = ?o" if "o_r \<in> set old" "contains_data ?a o_r" for o_r
        by (rule contains_unique [OF old that(1) nth_mem [OF cell(1)]])
          (use that(2) od in \<open>auto simp: contains_data_def\<close>)
      have "(\<exists>o_r \<in> set old. contains_data ?a o_r \<and> P o_r) \<longleftrightarrow> P ?o" for P
        using uniq od nth_mem [OF cell(1)] by blast
      then have m: "changed_matches enc ev d psize old r j \<longleftrightarrow> v"
        unfolding changed_matches_def by (simp only: v sum.inject eq_True)
      let ?found = "if v then found @ [?a] else found"
      have "j + fs < 2 ^ 64" using jfs u64_bound [of "region_size r"] by simp
      moreover have "data_cursor.behind old k (if j + fs < ?s then cell_addr r (j + fs) else end_addr r)"
        using bk bend later [of "j + fs"] data_cursor.behind_mono by simp
      ultimately obtain i' where IH:
        "scan_changed_region enc ev (of_nat fs) d psize old r (of_nat (j + fs)) k ?found =
          Some (Inr (i', ?found @ changed_hits enc ev fs d psize old (j + fs) r))"
        "data_cursor.behind old i' (end_addr r)"
        using less.hyps [of "j + fs" k ?found] less.prems(1) True al(1)
        by (metis diff_less_mono2 dvd_add_triv_right_iff less_add_same_cancel1)
      have "changed_hits enc ev fs d psize old j r =
          (if v then [?a] else []) @ changed_hits enc ev fs d psize old (j + fs) r"
        using filter_dvd_next [OF less.prems(1) al(1) True] m data by (simp add: changed_hits_def)
      then show ?thesis using step cell IH v by (auto simp: not_le not_less)
    qed
  qed
qed

lemma scan_changed_regions_hits:
  assumes "0 < fs" and "aligned fs old" and "d = [] \<or> fs \<le> length d"
    and "\<And>a b. fs \<le> length a \<Longrightarrow> fs \<le> length b \<Longrightarrow>
      \<exists>v. run_evaluator enc ev a b (if d = [] then psize else length d) = Inr v"
    and "regions_wf old" and "regions_wf rs" and "aligned fs rs"
    and "rs \<noteq> [] \<Longrightarrow> data_cursor.behind old i (region_addr (hd rs))"
  shows "scan_changed_regions enc ev (of_nat fs) d psize old rs i found =
    Some (Inr (found @ concat (map (changed_hits enc ev fs d psize old 0) rs)))"
  using assms(6-8)
proof (induction rs arbitrary: i found)
  case Nil
  show ?case by simp
next
  case (Cons r rs)
  have r: "region_wf r" "regions_wf rs" "aligned fs rs"
      "fs dvd unat (region_addr r)" "fs dvd unat (region_size r)"
    using Cons.prems(1,2) by (auto simp: regions_wf_Cons aligned_def)
  have start: "data_cursor.behind old i (region_addr r)" using Cons.prems(3) by simp
  have next_le: "region_addr r \<le> region_addr (hd rs) \<and> end_addr r \<le> region_addr (hd rs)" if "rs \<noteq> []"
    using Cons.prems(1) that region_nonempty [of r] r(1)
    by (auto simp: regions_wf_Cons dest!: bspec [of "set rs" _ "hd rs"])
  have "\<exists>i'. scan_changed_region enc ev (of_nat fs) d psize old r 0 i found =
      Some (Inr (i', found @ changed_hits enc ev fs d psize old 0 r)) \<and>
      (rs \<noteq> [] \<longrightarrow> data_cursor.behind old i' (region_addr (hd rs)))"
  proof (cases "region_data r = []")
    case True
    then show ?thesis
      using scan_changed_no_data [OF True assms(1) r(5), of 0] start next_le data_cursor.behind_mono
      by (auto simp: changed_hits_def)
  next
    case False
    have "0 < unat (region_size r)"
      using r(1) by (simp add: region_wf_def word_less_nat_alt)
    then show ?thesis
      using scan_changed_region_hits [OF r(1) assms(5,1,2) r(4,5) assms(3,4) False, of 0 i found]
        start next_le data_cursor.behind_mono
      by (fastforce simp: cell_addr_def)
  qed
  then show ?case
    using Cons.IH [OF r(2,3)] by auto
qed

lemma second_search_results:
  assumes "memory s = Some old" and "\<not> results_valid s" and "results s = []"
    and "search_type s \<noteq> DATA" and "\<not> flag_may_overflow (search_type s) p"
    and "check_can_update s p d = Inr ()"
    and "regions_wf old" and "regions_wf new"
    and "aligned (field_size (search_type s)) old" and "aligned (field_size (search_type s)) new"
  shows "update enc s new p d m = Some (Inr (s\<lparr>
    results := concat (map (changed_hits enc (the (evaluator_for (search_type s) p))
      (field_size (search_type s)) d (prev_size s) old 0) new),
    results_valid := True, prev_size := length d, memory := Some new\<rparr>))"
proof -
  let ?ev = "the (evaluator_for (search_type s) p)" and ?fs = "field_size (search_type s)"
  have ev: "evaluator_for (search_type s) p = Some ?ev"
    and d: "d = [] \<or> length d = value_size_for_search_type (search_type s)"
    using assms(4,6) by (auto simp: check_can_update_def split: if_splits)
  have fs: "?fs = value_size_for_search_type (search_type s)" "0 < ?fs"
    using assms(4) by (cases "search_type s"; simp add: field_size_eq value_size_for_search_type_def)+
  have "scan_changed_regions enc ?ev (of_nat ?fs) d (prev_size s) old new 0 (results s) =
      Some (Inr (results s @ concat (map (changed_hits enc ?ev ?fs d (prev_size s) old 0) new)))"
  proof (rule scan_changed_regions_hits)
    show "d = [] \<or> ?fs \<le> length d" using d fs by auto
    show "\<exists>v. run_evaluator enc ?ev a b (if d = [] then prev_size s else length d) = Inr v"
      if "?fs \<le> length a" "?fs \<le> length b" for a b
      using evaluator_total [OF ev assms(5)] that assms(4) fs by (simp add: cell_size_def)
  qed (use assms fs in simp_all)
  then show ?thesis
    using assms(1-3,6) by (simp add: update_def Let_def)
qed

text \<open>
  C4. The second search after an unknown value, for a value of fixed size and any predicate but
  the flag predicate on signed 32- and 64-bit types (which may overflow): it terminates without
  undefined behaviour, and its results are, in region and address order, exactly the
  cells of the new snapshot that lie in a region of the old one with data and whose new
  contents satisfy the predicate against the old contents (or against the given value).
  \<open>max_results\<close> plays no part: it does not limit this search.
\<close>

theorem second_search_finds:
  assumes "memory s = Some old" and "\<not> results_valid s" and "results s = []"
    and "search_type s \<noteq> DATA" and "\<not> flag_may_overflow (search_type s) p"
    and "check_can_update s p d = Inr ()"
    and "regions_wf old" and "regions_wf new"
    and "aligned (field_size (search_type s)) old" and "aligned (field_size (search_type s)) new"
  shows "update enc s new p d m = Some (Inr (s\<lparr>
    results := concat (map (changed_hits enc (the (evaluator_for (search_type s) p))
      (field_size (search_type s)) d (prev_size s) old 0) new),
    results_valid := True, prev_size := length d, memory := Some new\<rparr>))"
  by (rule second_search_results [OF assms])

end
