(* ===== verification/SearchNarrow.thy ===== *)
theory SearchNarrow
  imports SearchChanged
begin

text \<open>
  The third kind of update, which re-examines the results of an earlier one, the compaction
  that follows it, and the deletion of a range of results.
\<close>

section \<open>Compaction\<close>

text \<open>
  The loop invariant: the first \<open>n\<close> slots hold the nonzero entries of the prefix already
  read, and the suffix from \<open>x\<close> on is untouched.
\<close>

lemma compact_invariant:
  assumes "n \<le> x" and "x \<le> length rs"
  shows "compact rs x n = take n rs @ filter (\<lambda>v. v \<noteq> 0) (drop x rs)"
  using assms
proof (induction "length rs - x" arbitrary: rs x n)
  case 0
  then show ?case by (subst compact.simps) simp
next
  case (Suc k)
  then have x: "x < length rs" by simp
  have drop_x: "drop x rs = rs ! x # drop (Suc x) rs" using x by (simp add: Cons_nth_drop_Suc)
  show ?case
  proof (cases "rs ! x = 0")
    case True
    have "compact rs (Suc x) n = take n rs @ filter (\<lambda>v. v \<noteq> 0) (drop (Suc x) rs)"
      using Suc x by (intro Suc.hyps) auto
    then show ?thesis using True x drop_x by (subst compact.simps) simp
  next
    case False
    let ?rs = "rs[n := rs ! x]"
    have "compact ?rs (Suc x) (Suc n) = take (Suc n) ?rs @ filter (\<lambda>v. v \<noteq> 0) (drop (Suc x) ?rs)"
      using Suc x by (intro Suc.hyps) auto
    moreover have "take (Suc n) ?rs = take n rs @ [rs ! x]"
      using x Suc.prems(1) by (simp add: take_Suc_conv_app_nth)
    moreover have "drop (Suc x) ?rs = drop (Suc x) rs"
      using Suc.prems(1) by (simp add: drop_update_cancel)
    ultimately show ?thesis using False x drop_x by (subst compact.simps) simp
  qed
qed

lemma compact_filter: "compact rs 0 0 = filter (\<lambda>v. v \<noteq> 0) rs"
  using compact_invariant [of 0 0 rs] by simp

text \<open>The mark 0 deletes a result, and with it a result at address 0.\<close>

lemma compact_marks:
  "compact (map (\<lambda>a. if P a then a else 0) xs) 0 0 = filter (\<lambda>a. a \<noteq> 0 \<and> P a) xs"
  unfolding compact_filter by (induction xs) auto

section \<open>Re-examining results\<close>

text \<open>The cell at \<open>a\<close> lies, \<open>fs\<close> bytes long, in a region that was read.\<close>

definition cell_in :: "nat \<Rightarrow> region list \<Rightarrow> u64 \<Rightarrow> bool" where
  "cell_in fs rs a \<longleftrightarrow>
     fs dvd unat a \<and>
     (\<exists>r \<in> set rs. contains a r \<and> region_data r \<noteq> [] \<and> unat (a - region_addr r) + fs \<le> unat (region_size r))"

definition still_matches ::
  "encoding \<Rightarrow> evaluator \<Rightarrow> byte list \<Rightarrow> nat \<Rightarrow> region list \<Rightarrow> region list \<Rightarrow> u64 \<Rightarrow> bool" where
  "still_matches enc ev d psize old new a \<longleftrightarrow>
     (\<exists>n_r \<in> set new. \<exists>o_r \<in> set old.
        contains_data a n_r \<and> contains a o_r \<and>
        run_evaluator enc ev (at_offset (region_data n_r) (unat (a - region_addr n_r)))
          (if d = [] then at_offset (region_data o_r) (unat (a - region_addr o_r)) else at_offset d 0)
          (if d = [] then psize else length d) = Inr True)"

lemma cursor_at:
  assumes "regions_wf rs" and "plain_cursor.behind rs i a"
  shows "(\<exists>r \<in> set rs. contains a r) \<longleftrightarrow>
    skip_while (ended a) rs i < length rs \<and> region_addr (rs ! skip_while (ended a) rs i) \<le> a"
    and "r \<in> set rs \<Longrightarrow> contains a r \<Longrightarrow> rs ! skip_while (ended a) rs i = r"
proof -
  let ?k = "skip_while (ended a) rs i"
  show "rs ! ?k = r" if "r \<in> set rs" "contains a r" for r
    using plain_cursor.cursor_finds [OF assms that] by simp
  show "(\<exists>r \<in> set rs. contains a r) \<longleftrightarrow> ?k < length rs \<and> region_addr (rs ! ?k) \<le> a"
  proof
    assume "\<exists>r \<in> set rs. contains a r"
    then show "?k < length rs \<and> region_addr (rs ! ?k) \<le> a"
      using plain_cursor.cursor_finds [OF assms] by (auto simp: contains_def)
  next
    assume k: "?k < length rs \<and> region_addr (rs ! ?k) \<le> a"
    then have "contains a (rs ! ?k)"
      using skip_while_stop [of "ended a" rs i] by (simp add: contains_def ended_def not_le)
    then show "\<exists>r \<in> set rs. contains a r" using k by auto
  qed
qed

lemma verify_result_mark:
  assumes new: "regions_wf new" "aligned fs new" and old: "regions_wf old" and fs: "0 < fs"
    and d: "d = [] \<or> fs \<le> length d"
    and total: "\<And>a b. fs \<le> length a \<Longrightarrow> fs \<le> length b \<Longrightarrow>
      \<exists>v. run_evaluator enc ev a b (if d = [] then psize else length d) = Inr v"
    and cell: "cell_in fs old a"
    and ni: "plain_cursor.behind new ni a" and oi: "plain_cursor.behind old oi a"
  shows "verify_result enc ev d psize old new a
      (skip_while (ended a) old oi) (skip_while (ended a) new ni) =
    Inr (if still_matches enc ev d psize old new a then a else 0)"
proof -
  let ?o = "skip_while (ended a) old oi" and ?n = "skip_while (ended a) new ni"
  obtain o_r where o_r: "o_r \<in> set old" "contains a o_r" "region_data o_r \<noteq> []"
      "unat (a - region_addr o_r) + fs \<le> unat (region_size o_r)"
    using cell by (auto simp: cell_in_def)
  have o_at: "?o < length old" "old ! ?o = o_r" "region_addr o_r \<le> a"
    using cursor_at [OF old oi] o_r by (auto simp: contains_def)
  show ?thesis
  proof (cases "\<exists>r \<in> set new. contains a r")
    case False
    then have "\<not> (?n < length new \<and> region_addr (new ! ?n) \<le> a)"
      using cursor_at(1) [OF new(1) ni] by simp
    then show ?thesis
      using False by (auto simp: verify_result_def still_matches_def contains_data_def Let_def not_le)
  next
    case True
    then obtain n_r where n_r: "n_r \<in> set new" "contains a n_r" by blast
    have n_at: "?n < length new" "new ! ?n = n_r" "region_addr n_r \<le> a"
      using cursor_at [OF new(1) ni] n_r by (auto simp: contains_def)
    show ?thesis
    proof (cases "region_data n_r = []")
      case True
      then have "\<not> still_matches enc ev d psize old new a"
        using contains_unique [OF new(1) _ n_r(1) _ n_r(2)]
        by (auto simp: still_matches_def contains_data_def)
      then show ?thesis
        using True n_at o_at by (simp add: verify_result_def Let_def)
    next
      case False
      have wf: "region_wf n_r" "region_wf o_r" using new(1) old n_r(1) o_r(1) by (auto simp: regions_wf_def)
      have "unat (a - region_addr n_r) + fs \<le> unat (region_size n_r)"
        using aligned_cell_fits [OF _ wf(1) _ _ n_r(2)] cell new(2) n_r(1)
        by (auto simp: cell_in_def aligned_def)
      then have nfit: "unat (a - region_addr n_r) + fs \<le> length (region_data n_r)"
        using wf(1) False by (simp add: region_wf_def)
      have ofit: "unat (a - region_addr o_r) + fs \<le> length (region_data o_r)"
        using wf(2) o_r(3,4) by (simp add: region_wf_def)
      let ?x = "at_offset (region_data n_r) (unat (a - region_addr n_r))"
      let ?y = "if d = [] then at_offset (region_data o_r) (unat (a - region_addr o_r)) else at_offset d 0"
      have "fs \<le> length ?x" "fs \<le> length ?y" using nfit ofit d by (auto simp: at_offset_def)
      then obtain v where v: "run_evaluator enc ev ?x ?y (if d = [] then psize else length d) = Inr v"
        using total by blast
      have "still_matches enc ev d psize old new a \<longleftrightarrow> v"
      proof -
        have "q = n_r" if "q \<in> set new" "contains_data a q" for q
          using contains_unique [OF new(1) that(1) n_r(1) _ n_r(2)] that(2) by (simp add: contains_data_def)
        moreover have "q = o_r" if "q \<in> set old" "contains a q" for q
          using contains_unique [OF old that(1) o_r(1) that(2) o_r(2)] .
        moreover have "contains_data a n_r" using n_r(2) False by (simp add: contains_data_def)
        ultimately have "(\<exists>q \<in> set new. \<exists>q' \<in> set old. contains_data a q \<and> contains a q' \<and> P q q') \<longleftrightarrow> P n_r o_r"
          for P using n_r(1) o_r(1,2) by blast
        then show ?thesis unfolding still_matches_def by (simp only: v sum.inject eq_True)
      qed
      then show ?thesis
        using False n_at o_at v by (simp add: verify_result_def Let_def leD)
    qed
  qed
qed

lemma ended_eq: "(\<lambda>r. end_addr r \<le> a) = ended a"
  by (simp add: fun_eq_iff ended_def)

lemma verify_results_marks:
  assumes "regions_wf new" and "aligned fs new" and "regions_wf old" and "0 < fs"
    and "d = [] \<or> fs \<le> length d"
    and "\<And>a b. fs \<le> length a \<Longrightarrow> fs \<le> length b \<Longrightarrow>
      \<exists>v. run_evaluator enc ev a b (if d = [] then psize else length d) = Inr v"
    and "\<forall>a \<in> set rs. cell_in fs old a" and "sorted_wrt (<) rs"
    and "rs \<noteq> [] \<Longrightarrow> plain_cursor.behind new ni (hd rs)"
    and "rs \<noteq> [] \<Longrightarrow> plain_cursor.behind old oi (hd rs)"
  shows "verify_results enc ev d psize old new rs oi ni =
    Inr (map (\<lambda>a. if still_matches enc ev d psize old new a then a else 0) rs)"
  using assms(7-10)
proof (induction rs arbitrary: oi ni)
  case Nil
  show ?case by simp
next
  case (Cons a rs)
  let ?o = "skip_while (ended a) old oi" and ?n = "skip_while (ended a) new ni"
  have "verify_result enc ev d psize old new a ?o ?n =
      Inr (if still_matches enc ev d psize old new a then a else 0)"
    using Cons.prems by (intro verify_result_mark [OF assms(1-6)]) simp_all
  moreover have "verify_results enc ev d psize old new rs ?o ?n =
      Inr (map (\<lambda>a. if still_matches enc ev d psize old new a then a else 0) rs)"
  proof (rule Cons.IH)
    have "a \<le> hd rs" if "rs \<noteq> []" using Cons.prems(2) that by (simp add: less_imp_le)
    then show "plain_cursor.behind new ?n (hd rs)" "plain_cursor.behind old ?o (hd rs)" if "rs \<noteq> []"
      using plain_cursor.behind_mono [OF plain_cursor.behind_skip] Cons.prems(3,4) that by auto
  qed (use Cons.prems in simp_all)
  ultimately show ?case by (simp add: ended_eq Let_def)
qed

section \<open>What an update may assume of an earlier one\<close>

text \<open>
  The invariant of a search: the results are in strictly ascending address order and each is a
  whole, aligned cell of a region of the snapshot that was read. The cells of a search over byte
  strings are single bytes.
\<close>

definition snapshot_ok :: "search_type \<Rightarrow> region list \<Rightarrow> bool" where
  "snapshot_ok t rs \<longleftrightarrow> regions_wf rs \<and> aligned (field_size t) rs"

definition search_inv :: "memory_search \<Rightarrow> bool" where
  "search_inv s \<longleftrightarrow> sorted_wrt (<) (results s) \<and>
     (\<not> results_valid s \<longrightarrow> results s = []) \<and>
     (case memory s of
        None \<Rightarrow> \<not> results_valid s
      | Some old \<Rightarrow> snapshot_ok (search_type s) old \<and>
          (\<forall>a \<in> set (results s). cell_in (field_size (search_type s)) old a))"

lemma fixed_size:
  assumes "check_can_update s p d = Inr ()" and "search_type s \<noteq> DATA"
  shows "evaluator_for (search_type s) p = Some (the (evaluator_for (search_type s) p))"
    and "d = [] \<or> length d = field_size (search_type s)" and "0 < field_size (search_type s)"
    and "cell_size (search_type s) n = field_size (search_type s)"
  using assms
  by (auto simp: check_can_update_def cell_size_def field_size_eq value_size_for_search_type_def
      split: if_splits; cases "search_type s"; simp)+

lemma narrowing_results:
  assumes "search_inv s" and "results_valid s" and "memory s = Some old"
    and "check_can_update s p d = Inr ()" and "\<not> flag_may_overflow (search_type s) p"
    and "snapshot_ok (search_type s) new" and t: "search_type s \<noteq> DATA"
  shows "update enc s new p d m = Some (Inr (s\<lparr>
    results := filter (\<lambda>a. a \<noteq> 0 \<and> still_matches enc (the (evaluator_for (search_type s) p)) d
      (prev_size s) old new a) (results s),
    prev_size := length d, memory := Some new\<rparr>))"
proof -
  let ?ev = "the (evaluator_for (search_type s) p)" and ?fs = "field_size (search_type s)"
  note fx = fixed_size [OF assms(4) t]
  let ?mark = "\<lambda>a. if still_matches enc ?ev d (prev_size s) old new a then a else 0"
  have "verify_results enc ?ev d (prev_size s) old new (results s) 0 0 = Inr (map ?mark (results s))"
  proof (rule verify_results_marks)
    show "\<exists>v. run_evaluator enc ?ev a b (if d = [] then prev_size s else length d) = Inr v"
      if "?fs \<le> length a" "?fs \<le> length b" for a b
      using evaluator_total [OF fx(1) assms(5)] that fx(4) by simp
  qed (use assms(1,3,6) fx(2,3) in \<open>auto simp: search_inv_def snapshot_ok_def\<close>)
  then show ?thesis
    using assms(2-4) by (simp add: update_def Let_def compact_marks)
qed

text \<open>
  C5. Narrowing the results of a search for values of fixed size, by any predicate but the flag
  predicate on signed 32- and 64-bit types (which may overflow): under the invariant the
  update returns, without undefined behaviour, and keeps, in their order, exactly the results
  whose cell is still in a readable region of the new snapshot and satisfies the predicate
  there against its old contents (or against the given value). Address 0 never survives,
  because 0 marks a deleted result.
\<close>

theorem narrowing_filters:
  assumes "search_inv s" and "results_valid s" and "memory s = Some old"
    and "check_can_update s p d = Inr ()" and "\<not> flag_may_overflow (search_type s) p"
    and "snapshot_ok (search_type s) new" and t: "search_type s \<noteq> DATA"
  shows "update enc s new p d m = Some (Inr (s\<lparr>
    results := filter (\<lambda>a. a \<noteq> 0 \<and> still_matches enc (the (evaluator_for (search_type s) p)) d
      (prev_size s) old new a) (results s),
    prev_size := length d, memory := Some new\<rparr>))"
  by (rule narrowing_results [OF assms])

section \<open>Deleting a range of results\<close>

lemma lower_bound_from_sorted:
  assumes "sorted xs" and "first + len \<le> length xs"
    and "\<forall>k < first. xs ! k < v" and "\<forall>k. first + len \<le> k \<and> k < length xs \<longrightarrow> v \<le> xs ! k"
  shows "lower_bound_from xs v first len \<le> length xs \<and>
    (\<forall>k < lower_bound_from xs v first len. xs ! k < v) \<and>
    (\<forall>k. lower_bound_from xs v first len \<le> k \<and> k < length xs \<longrightarrow> v \<le> xs ! k)"
  using assms
proof (induction xs v first len rule: lower_bound_from.induct)
  case (1 xs v first len)
  show ?case
  proof (cases "len = 0")
    case True
    then show ?thesis using "1.prems" by (simp add: lower_bound_from.simps [of xs v first 0])
  next
    case False
    let ?h = "first + len div 2"
    have h: "?h < length xs" using False "1.prems"(2) by simp
    show ?thesis
    proof (cases "xs ! ?h < v")
      case True
      have "xs ! k < v" if "k < ?h + 1" for k
      proof -
        have "xs ! k \<le> xs ! ?h" using "1.prems"(1) h that by (intro sorted_nth_mono) auto
        then show ?thesis using True by simp
      qed
      moreover have "lower_bound_from xs v first len =
          lower_bound_from xs v (?h + 1) (len - (len div 2 + 1))"
        using False True by (simp add: lower_bound_from.simps [of xs v first len] Let_def)
      moreover have "?h + 1 + (len - (len div 2 + 1)) = first + len" using False by simp
      ultimately show ?thesis
        using "1.IH"(1) [OF False refl True "1.prems"(1)] "1.prems"(2,4) by simp
    next
      case ge: False
      have "v \<le> xs ! k" if "?h \<le> k" "k < length xs" for k
      proof -
        have "xs ! ?h \<le> xs ! k" using "1.prems"(1) that by (intro sorted_nth_mono) auto
        then show ?thesis using ge by simp
      qed
      moreover have "lower_bound_from xs v first len = lower_bound_from xs v first (len div 2)"
        using False ge by (simp add: lower_bound_from.simps [of xs v first len] Let_def)
      ultimately show ?thesis
        using "1.IH"(2) [OF False refl ge "1.prems"(1) _ "1.prems"(3)] h by simp
    qed
  qed
qed

lemma lower_bound_sorted:
  assumes "sorted xs"
  shows "lower_bound xs v \<le> length xs" and "take (lower_bound xs v) xs = filter (\<lambda>x. x < v) xs"
    and "drop (lower_bound xs v) xs = filter (\<lambda>x. v \<le> x) xs"
proof -
  let ?k = "lower_bound xs v"
  have k: "?k \<le> length xs \<and> (\<forall>j < ?k. xs ! j < v) \<and> (\<forall>j. ?k \<le> j \<and> j < length xs \<longrightarrow> v \<le> xs ! j)"
    unfolding lower_bound_def by (rule lower_bound_from_sorted [OF assms]) auto
  then show "?k \<le> length xs" by simp
  have lt: "\<forall>x \<in> set (take ?k xs). x < v" and ge: "\<forall>x \<in> set (drop ?k xs). v \<le> x"
    using k by (auto simp: in_set_conv_nth)
  have "filter (\<lambda>x. x < v) (take ?k xs @ drop ?k xs) = take ?k xs"
    using lt ge unfolding filter_append by (simp add: filter_id_conv filter_empty_conv not_less)
  then show "take ?k xs = filter (\<lambda>x. x < v) xs" by simp
  have "filter (\<lambda>x. v \<le> x) (take ?k xs @ drop ?k xs) = drop ?k xs"
    using lt ge unfolding filter_append by (simp add: filter_id_conv filter_empty_conv not_le)
  then show "drop ?k xs = filter (\<lambda>x. v \<le> x) xs" by simp
qed

lemma lower_bound_mono:
  assumes "sorted xs" and "v \<le> w"
  shows "lower_bound xs v \<le> lower_bound xs w"
proof -
  have "length (filter (\<lambda>x. x < v) xs) \<le> length (filter (\<lambda>x. x < w) xs)"
    using assms(2) by (induction xs) auto
  then show ?thesis
    using lower_bound_sorted(1,2) [OF assms(1)] by (metis length_take min_absorb2)
qed

lemma filter_outside:
  fixes lo hi :: "'a::linorder"
  assumes "sorted xs" and "\<And>a. a < lo \<Longrightarrow> a \<le> hi"
  shows "filter (\<lambda>a. a < lo) xs @ filter (\<lambda>a. hi < a) xs = filter (\<lambda>a. \<not> (lo \<le> a \<and> a \<le> hi)) xs"
  using assms(1)
proof (induction xs)
  case (Cons x xs)
  have "filter (\<lambda>a. a < lo) xs = []" if "lo \<le> x"
    using Cons.prems that by (auto simp: filter_empty_conv)
  then show ?case using Cons assms(2) [of x] by (cases "lo \<le> x") (auto simp: not_le not_less)
qed simp

text \<open>
  C33. Deleting the results from \<open>start\<close> to \<open>end\<close> inclusive, in a sorted result list and below
  the highest address, removes exactly those, and the rest keeps its order.
\<close>

theorem delete_results_removes_range:
  assumes "sorted_wrt (<) (results s)" and "start \<le> end_incl + 1" and "end_incl < - 1"
  shows "delete_results s start end_incl =
    Inr (s\<lparr>results := filter (\<lambda>a. \<not> (start \<le> a \<and> a \<le> end_incl)) (results s)\<rparr>)"
proof -
  have sorted: "sorted (results s)"
    using assms(1) by (simp add: strict_sorted_iff)
  let ?i = "lower_bound (results s) start" and ?j = "lower_bound (results s) (end_incl + 1)"
  have "1 + end_incl \<noteq> 0"
    using assms(3) by (metis add.commute add_eq_0_iff2 less_irrefl)
  then have next_le: "end_incl + 1 \<le> a \<longleftrightarrow> end_incl < a" for a
    using unatSuc [of end_incl] by (auto simp: word_le_nat_alt word_less_nat_alt add.commute)
  have "erase (results s) ?i ?j = Inr (take ?i (results s) @ drop ?j (results s))"
    using lower_bound_mono [OF sorted assms(2)] by (simp add: erase_def)
  also have "take ?i (results s) @ drop ?j (results s) =
      filter (\<lambda>a. a < start) (results s) @ filter (\<lambda>a. end_incl < a) (results s)"
    using lower_bound_sorted [OF sorted] next_le by simp
  also have "\<dots> = filter (\<lambda>a. \<not> (start \<le> a \<and> a \<le> end_incl)) (results s)"
  proof (rule filter_outside [OF sorted])
    show "a \<le> end_incl" if "a < start" for a
      using that assms(2) next_le [of a] by (meson not_le less_le_trans)
  qed
  finally show ?thesis by (simp add: delete_results_def Let_def)
qed

text \<open>
  C34. At the highest address \<open>end + 1\<close> wraps around to 0: nothing is deleted when every result
  lies at or above \<open>start\<close>, and otherwise the range passed to \<open>erase\<close> is inverted, which is
  undefined.
\<close>

theorem delete_results_to_top_wraps:
  assumes "sorted_wrt (<) (results s)"
  shows "delete_results s start (- 1) =
    (if \<forall>a \<in> set (results s). start \<le> a then Inr s else Inl (Undefined Bad_erase))"
proof -
  have sorted: "sorted (results s)" using assms by (simp add: strict_sorted_iff)
  have zero: "lower_bound (results s) 0 = 0"
    using lower_bound_sorted(1,2) [OF sorted, of 0] by (cases "results s") auto
  have "lower_bound (results s) start = 0 \<longleftrightarrow> filter (\<lambda>a. a < start) (results s) = []"
    using lower_bound_sorted(1) [OF sorted, of start]
    unfolding lower_bound_sorted(2) [OF sorted, symmetric] by auto
  also have "\<dots> \<longleftrightarrow> (\<forall>a \<in> set (results s). start \<le> a)"
    by (auto simp: filter_empty_conv not_less)
  finally show ?thesis
    using zero by (simp add: delete_results_def Let_def erase_def)
qed

end
