(* ===== verification/SearchInvariant.thy ===== *)
theory SearchInvariant
  imports SearchNarrow
begin

text \<open>
  The three kinds of update together: each succeeds and preserves the invariant of a search over values
  of fixed size (the flag predicates that may overflow apart); and what goes wrong
  for searches over byte strings, whose cell size is that of the previous value.
\<close>

section \<open>Cells listed region by region\<close>

definition cells_of :: "nat \<Rightarrow> region \<Rightarrow> u64 list \<Rightarrow> bool" where
  "cells_of fs r xs \<longleftrightarrow> xs = [] \<or> region_data r \<noteq> [] \<and>
     (\<exists>ys. xs = map (cell_addr r) ys \<and> sorted_wrt (<) ys \<and>
           (\<forall>y \<in> set ys. fs dvd y \<and> y < unat (region_size r)))"

lemma sorted_filter_upt: "sorted_wrt (<) (filter P (filter Q [i..<j]))"
  by (simp add: sorted_wrt_filter)

lemma known_hits_cells: "cells_of fs r (known_hits enc ev fs d 0 r)"
  unfolding cells_of_def known_hits_def using sorted_filter_upt by fastforce

lemma changed_hits_cells: "cells_of fs r (changed_hits enc ev fs d psize old 0 r)"
  unfolding cells_of_def changed_hits_def using sorted_filter_upt by fastforce

lemma cells_of_in:
  assumes "cells_of fs r xs" and "a \<in> set xs" and "region_wf r"
    and "fs dvd unat (region_addr r)" and "fs dvd unat (region_size r)" and "r \<in> set rs"
  shows "cell_in fs rs a" and "contains a r"
proof -
  obtain y where y: "a = cell_addr r y" "fs dvd y" "y < unat (region_size r)" "region_data r \<noteq> []"
    using assms(1,2) by (auto simp: cells_of_def)
  have c: "contains a r" unfolding y(1) by (rule cell_addr_contains [OF assms(3) y(3)])
  have ua: "unat a = unat (region_addr r) + y" using y by (simp add: unat_cell_addr assms(3))
  then have "fs dvd unat a" using y(2) assms(4) by simp
  then show "cell_in fs rs a"
    using aligned_cell_fits [OF _ assms(3-5) c] c y(4) assms(6) by (auto simp: cell_in_def)
  show "contains a r" by (rule c)
qed

lemma cells_of_sorted:
  assumes "cells_of fs r xs" and "region_wf r"
  shows "sorted_wrt (<) xs"
proof -
  have "cell_addr r i < cell_addr r j" if "i < j" "j < unat (region_size r)" for i j
    using that by (simp add: word_less_nat_alt unat_cell_addr assms(2))
  then show ?thesis
    using assms(1) by (auto simp: cells_of_def sorted_wrt_map elim!: sorted_wrt_mono_rel [rotated])
qed

lemma cells_concat:
  assumes "snapshot_ok t rs" and "\<And>r. cells_of (field_size t) r (f r)"
  shows "sorted_wrt (<) (concat (map f rs)) \<and>
    (\<forall>a \<in> set (concat (map f rs)). cell_in (field_size t) rs a)"
proof
  have wf: "regions_wf rs" "aligned (field_size t) rs" using assms(1) by (auto simp: snapshot_ok_def)
  have inside: "cell_in (field_size t) rs a" "contains a r" if "r \<in> set rs" "a \<in> set (f r)" for r a
    using cells_of_in [OF assms(2) that(2)] wf that(1) by (auto simp: regions_wf_def aligned_def)
  then show "\<forall>a \<in> set (concat (map f rs)). cell_in (field_size t) rs a" by auto
  show "sorted_wrt (<) (concat (map f rs))"
    using wf(1) inside(2)
  proof (induction rs)
    case (Cons r rs)
    have "a < b" if "a \<in> set (f r)" "s \<in> set rs" "b \<in> set (f s)" for a b s
    proof -
      have "contains a r" "contains b s" "end_addr r \<le> region_addr s"
        using Cons.prems that by (auto simp: regions_wf_Cons)
      then show ?thesis by (auto simp: contains_def)
    qed
    moreover have "sorted_wrt (<) (f r)"
      using cells_of_sorted [OF assms(2)] Cons.prems(1) by (simp add: regions_wf_Cons)
    moreover have "sorted_wrt (<) (concat (map f rs))"
      using Cons by (auto simp: regions_wf_Cons)
    ultimately show ?case by (auto simp: sorted_wrt_append)
  qed simp
qed

section \<open>Updates preserve the invariant\<close>

lemma first_update_inv:
  assumes "search_inv s" and "memory s = None" and "check_can_update s p d = Inr ()"
    and "\<not> flag_may_overflow (search_type s) p" and "snapshot_ok (search_type s) new"
    and t: "search_type s \<noteq> DATA"
  shows "\<exists>s'. update enc s new p d m = Some (Inr s') \<and> search_inv s'"
proof (cases "p = ALL_P")
  case True
  then show ?thesis using assms by (auto simp: update_def Let_def search_inv_def)
next
  case False
  let ?t = "search_type s"
  have inv: "?t \<noteq> DATA" "results s = []"
    using assms(1,2) t by (auto simp: search_inv_def)
  note fx = fixed_size [OF assms(3) inv(1)]
  have d: "length d = field_size ?t"
    using fx(2) assms(2,3) False by (auto simp: check_can_update_def split: if_splits)
  have "\<forall>r \<in> set new. region_data r \<noteq> [] \<longrightarrow> length d \<le> unat (region_size r)"
  proof (intro ballI impI)
    fix r assume "r \<in> set new"
    then have "field_size ?t dvd unat (region_size r)" "0 < unat (region_size r)"
      using assms(5) by (auto simp: snapshot_ok_def aligned_def regions_wf_def region_wf_def
          word_less_nat_alt)
    then show "length d \<le> unat (region_size r)" unfolding d by (rule dvd_imp_le)
  qed
  then have "update enc s new p d m = Some (Inr (s\<lparr>
    results := take m (concat (map (known_hits enc (the (evaluator_for ?t p)) (field_size ?t) d 0) new)),
    results_valid := True, prev_size := length d, memory := Some new\<rparr>))"
    using assms inv False by (intro first_search_results) (auto simp: snapshot_ok_def)
  moreover have "sorted_wrt (<) (take m xs) \<and> set (take m xs) \<subseteq> set xs"
    if "sorted_wrt (<) xs" for xs :: "u64 list"
    using that by (auto intro: sorted_wrt_take dest: in_set_takeD)
  ultimately show ?thesis
    using cells_concat [OF assms(5) known_hits_cells] inv(1) assms(5)
    by (fastforce simp: search_inv_def)
qed

lemma second_update_inv:
  assumes "search_inv s" and "memory s = Some old" and "\<not> results_valid s"
    and "check_can_update s p d = Inr ()"
    and "\<not> flag_may_overflow (search_type s) p" and "snapshot_ok (search_type s) new"
    and "search_type s \<noteq> DATA"
  shows "\<exists>s'. update enc s new p d m = Some (Inr s') \<and> search_inv s'"
proof -
  have "update enc s new p d m = Some (Inr (s\<lparr>
    results := concat (map (changed_hits enc (the (evaluator_for (search_type s) p))
      (field_size (search_type s)) d (prev_size s) old 0) new),
    results_valid := True, prev_size := length d, memory := Some new\<rparr>))"
    using assms by (intro second_search_results) (auto simp: snapshot_ok_def search_inv_def)
  then show ?thesis
    using cells_concat [OF assms(6) changed_hits_cells] assms(1,6)
    by (fastforce simp: search_inv_def)
qed

lemma still_matches_cell:
  assumes "still_matches enc ev d psize old new a" and "fs dvd unat a"
    and "regions_wf new" and "aligned fs new"
  shows "cell_in fs new a"
proof -
  obtain r where r: "r \<in> set new" "contains_data a r"
    using assms(1) by (auto simp: still_matches_def)
  then have "unat (a - region_addr r) + fs \<le> unat (region_size r)"
    using assms(2-4)
    by (intro aligned_cell_fits) (auto simp: contains_data_def regions_wf_def aligned_def)
  then show ?thesis using r assms(2) by (auto simp: cell_in_def contains_data_def)
qed

lemma narrowing_inv:
  assumes "search_inv s" and "results_valid s" and "memory s = Some old"
    and "check_can_update s p d = Inr ()"
    and "\<not> flag_may_overflow (search_type s) p" and "snapshot_ok (search_type s) new"
    and "search_type s \<noteq> DATA"
  shows "\<exists>s'. update enc s new p d m = Some (Inr s') \<and> search_inv s'"
proof -
  have "cell_in (field_size (search_type s)) new a"
    if "a \<in> set (results s)" "still_matches enc ev d n old new a" for a ev n
    using still_matches_cell [OF that(2)] assms(1,3,6) that(1)
    by (auto simp: search_inv_def snapshot_ok_def cell_in_def)
  then show ?thesis
    using narrowing_results [OF assms(1-7), of enc m] assms(1,6)
    by (auto simp: search_inv_def sorted_wrt_filter)
qed

lemma update_preserves_invariant_step:
  assumes "search_inv s" and "snapshot_ok (search_type s) new"
    and "\<not> flag_may_overflow (search_type s) p" and "search_type s \<noteq> DATA"
  shows "(\<exists>msg. update enc s new p d m = Some (Inl (Throw (Invalid_argument msg)))) \<or>
    (\<exists>s'. update enc s new p d m = Some (Inr s') \<and> search_inv s')"
proof (cases "check_can_update s p d")
  case (Inl f)
  then have "\<exists>msg. f = Throw (Invalid_argument msg)"
    by (auto simp: check_can_update_def split: if_splits)
  with Inl show ?thesis by (auto simp: update_def)
next
  case (Inr u)
  then have ok: "check_can_update s p d = Inr ()" by simp
  show ?thesis
  proof (cases "memory s")
    case None
    then show ?thesis using first_update_inv [OF assms(1) None ok assms(3,2,4)] by blast
  next
    case (Some old)
    then show ?thesis
      using second_update_inv [OF assms(1) Some _ ok assms(3,2,4)]
        narrowing_inv [OF assms(1) _ Some ok assms(3,2,4)] by blast
  qed
qed

section \<open>Searches over byte strings\<close>

lemma aligned_1 [simp]: "aligned 1 rs" "aligned (Suc 0) rs"
  by (simp_all add: aligned_def)

text \<open>
  C32. A search over byte strings takes the length of the compared bytes from the value of the
  previous update. After an update without a value that length is 0, and the next update
  without a value compares nothing: \<open>EQUAL\<close> keeps every result (other than address 0) that
  still lies in a region that could be read, whatever its bytes are now.
\<close>

theorem data_search_forgets_size:
  assumes "search_type s = DATA" and "results_valid s" and "memory s = Some old" and "prev_size s = 0"
    and "regions_wf old" and "regions_wf new"
    and "sorted_wrt (<) (results s)" and "\<forall>a \<in> set (results s). cell_in 1 old a"
  shows "update enc s new EQUAL [] m = Some (Inr (s\<lparr>
    results := filter (\<lambda>a. a \<noteq> 0 \<and> (\<exists>r \<in> set new. contains_data a r)) (results s),
    memory := Some new\<rparr>))"
proof -
  let ?ev = "Data_op_function EQ"
  have ev: "evaluator_for DATA EQUAL = Some ?ev"
    using evaluator_for_relop [of EQUAL EQ DATA] by (simp add: relational_entry_def)
  have run: "run_evaluator enc ?ev a b 0 = Inr True" for a b
    by (simp add: load2_def load_def)
  have "verify_results enc ?ev [] 0 old new (results s) 0 0 =
      Inr (map (\<lambda>a. if still_matches enc ?ev [] 0 old new a then a else 0) (results s))"
    using assms(5-8) run by (intro verify_results_marks [where fs = 1]) auto
  moreover have "still_matches enc ?ev [] 0 old new a \<longleftrightarrow> (\<exists>r \<in> set new. contains_data a r)"
    if "a \<in> set (results s)" for a
    using assms(8) that run by (auto simp: still_matches_def cell_in_def)
  then have "filter (\<lambda>a. a \<noteq> 0 \<and> still_matches enc ?ev [] 0 old new a) (results s) =
      filter (\<lambda>a. a \<noteq> 0 \<and> (\<exists>r \<in> set new. contains_data a r)) (results s)"
    by (intro filter_cong) auto
  ultimately show ?thesis
    using assms(1-4) ev by (simp add: update_def Let_def compact_marks check_can_update_def)
qed

end
