(* ===== verification/SearchReachable.thy ===== *)
theory SearchReachable
  imports SearchInvariant
begin

text \<open>
  The invariant of a search after any update that succeeds, the flag predicate included: when
  an update returns a search at all, that search satisfies the invariant, and with it every
  search that the program can reach.
\<close>

section \<open>First and second search\<close>

text \<open>The cells a loop adds to the results: ascending offsets from \<open>y\<close> on, inside the region.\<close>

definition adds_cells :: "nat \<Rightarrow> region \<Rightarrow> u64 \<Rightarrow> u64 list \<Rightarrow> u64 list \<Rightarrow> bool" where
  "adds_cells fs r y found found' \<longleftrightarrow>
     (\<exists>ys. found' = found @ map (cell_addr r) ys \<and> sorted_wrt (<) ys \<and>
        (\<forall>z \<in> set ys. fs dvd z \<and> unat y \<le> z \<and> z < unat (region_size r)))"

lemma adds_none [simp]: "adds_cells fs r y found found"
  by (auto simp: adds_cells_def)

lemma adds_cells_later:
  assumes "adds_cells fs r y' found found'" and "unat y \<le> unat y'"
  shows "adds_cells fs r y found found'"
proof -
  obtain ys where ys: "found' = found @ map (cell_addr r) ys" "sorted_wrt (<) ys"
    "\<forall>z \<in> set ys. fs dvd z \<and> unat y' \<le> z \<and> z < unat (region_size r)"
    using assms(1) unfolding adds_cells_def by blast
  then have "\<forall>z \<in> set ys. fs dvd z \<and> unat y \<le> z \<and> z < unat (region_size r)"
    using assms(2) by auto
  with ys show ?thesis unfolding adds_cells_def by blast
qed

lemma adds_cells_hit:
  assumes "adds_cells fs r y' (found @ [region_addr r + y]) found'" and "unat y < unat y'"
    and "fs dvd unat y" and "y < region_size r"
  shows "adds_cells fs r y found found'"
proof -
  obtain ys where ys: "found' = (found @ [region_addr r + y]) @ map (cell_addr r) ys"
    "sorted_wrt (<) ys" "\<forall>z \<in> set ys. fs dvd z \<and> unat y' \<le> z \<and> z < unat (region_size r)"
    using assms(1) unfolding adds_cells_def by blast
  then have "found' = found @ map (cell_addr r) (unat y # ys) \<and> sorted_wrt (<) (unat y # ys) \<and>
      (\<forall>z \<in> set (unat y # ys). fs dvd z \<and> unat y \<le> z \<and> z < unat (region_size r))"
    using assms(2-4) by (auto simp: cell_addr_def word_less_nat_alt)
  then show ?thesis unfolding adds_cells_def by blast
qed

text \<open>Stepping to the next cell does not wrap around.\<close>

lemma next_cell:
  assumes "y < region_size r" and "fs dvd unat y" and "fs dvd unat (region_size r)" and "region_wf r"
  shows "unat (y + of_nat fs) = unat y + fs" and "fs dvd unat (y + of_nat fs)"
proof -
  have "unat y + fs \<le> unat (region_size r)"
    using assms(1-3) by (intro aligned_next) (auto simp: word_less_nat_alt)
  then have "unat y + fs < 2 ^ 64" using assms(4) by (auto simp: region_wf_def)
  then show "unat (y + of_nat fs) = unat y + fs" by (simp add: unat_word_ariths unat_of_nat)
  then show "fs dvd unat (y + of_nat fs)" using assms(2) by simp
qed

definition scan_pre :: "nat \<Rightarrow> u64 \<Rightarrow> region \<Rightarrow> u64 \<Rightarrow> bool" where
  "scan_pre fs fs' r y \<longleftrightarrow>
     fs' = of_nat fs \<and> 0 < fs \<and> region_wf r \<and> fs dvd unat y \<and> fs dvd unat (region_size r)"

lemma scan_pre_next:
  assumes "scan_pre fs fs' r y" and "y < region_size r"
  shows "scan_pre fs fs' r (y + fs')" and "unat y < unat (y + fs')"
  using next_cell [of y r fs] assms by (auto simp: scan_pre_def)

lemma adds_cells_step:
  assumes "adds_cells fs r (y + fs') (if b then found @ [region_addr r + y] else found) found'"
    and "scan_pre fs fs' r y" and "y < region_size r"
  shows "adds_cells fs r y found found'"
proof -
  note less = scan_pre_next(2) [OF assms(2,3)]
  have "fs dvd unat y" using assms(2) by (simp add: scan_pre_def)
  then show ?thesis
    using adds_cells_hit [OF _ less _ assms(3)] adds_cells_later [OF _ less_imp_le [OF less]] assms(1)
    by (cases b) auto
qed

lemma below_bound: "n \<le> unat s \<Longrightarrow> y < s - of_nat n \<Longrightarrow> y < (s::u64)"
proof -
  assume n: "n \<le> unat s" and y: "y < s - of_nat n"
  have "unat (of_nat n :: u64) = n"
    using n u64_bound [of s] by (simp add: unat_of_nat)
  then have "(of_nat n :: u64) \<le> s" using n by (simp only: word_le_nat_alt)
  then have "s - of_nat n \<le> s" by (rule word_sub_le)
  with y show "y < s" by simp
qed

text \<open>
  The comparisons the loop makes without undefined behaviour are made inside the region: the
  bound that has wrapped around for a value longer than the region lets at most one more pass,
  at its very end, and that one finds nothing.
\<close>

definition stays_inside :: "encoding \<Rightarrow> evaluator \<Rightarrow> u64 \<Rightarrow> byte list \<Rightarrow> region \<Rightarrow> bool" where
  "stays_inside enc ev fs' d r \<longleftrightarrow>
     (\<forall>y b. y < region_size r - of_nat (length d) \<longrightarrow>
        run_evaluator enc ev (at_offset (region_data r) (unat y)) (at_offset d 0) (length d) = Inr b \<longrightarrow>
        y < region_size r \<or> y = region_size r \<and> \<not> b \<and> fs' = 1)"

lemma scan_region_at_end:
  assumes "scan_region enc ev fs' d m r (region_size r) found = Some (Inr found')"
    and "stays_inside enc ev fs' d r"
  shows "found' = found"
proof (cases "region_size r < region_size r - of_nat (length d) \<and> length found < m")
  case True
  let ?y = "region_size r + 1"
  note unfold = assms(1) [unfolded scan_region.simps [of enc ev fs' d m r "region_size r" found]]
  have go: "scan_region enc ev fs' d m r ?y found = Some (Inr found') \<and> fs' = 1"
    using unfold True assms(2) unfolding stays_inside_def by (fastforce split: sum.splits if_splits)
  have "unat (region_size r) + 1 < 2 ^ 64"
    using True u64_bound [of "region_size r - of_nat (length d)"] by (simp add: word_less_nat_alt)
  then have "region_size r < ?y" by (simp add: word_less_nat_alt unat_word_ariths)
  then have "\<not> ?y < region_size r \<and> ?y \<noteq> region_size r" by auto
  then have "run_evaluator enc ev (at_offset (region_data r) (unat ?y)) (at_offset d 0) (length d) \<noteq> Inr b"
    if "?y < region_size r - of_nat (length d)" for b
    using assms(2) that unfolding stays_inside_def by blast
  then show ?thesis
    using conjunct1 [OF go, unfolded scan_region.simps [of enc ev fs' d m r ?y found]]
    by (auto split: sum.splits if_splits)
qed (use assms(1) in \<open>auto simp: scan_region.simps [of enc ev fs' d m r "region_size r" found]\<close>)

lemma scan_region_adds:
  assumes "scan_region enc ev fs' d m r y found = Some (Inr found')"
    and "scan_pre fs fs' r y" and "y < region_size r" and inside: "stays_inside enc ev fs' d r"
  shows "adds_cells fs r y found found'"
  using assms(1-3)
proof (induction "unat (region_size r) - unat y" arbitrary: y found rule: less_induct)
  case less
  note unfold = less.prems(1) [unfolded scan_region.simps [of enc ev fs' d m r y found]]
  show ?case
  proof (cases "y < region_size r - of_nat (length d) \<and> length found < m")
    case True
    note y = less.prems(3)
    obtain b where b: "scan_region enc ev fs' d m r (y + fs')
        (if b then found @ [region_addr r + y] else found) = Some (Inr found')"
      using unfold True by (auto split: sum.splits)
    note nx = scan_pre_next [OF less.prems(2) y]
    have "unat (region_size r) - unat (y + fs') < unat (region_size r) - unat y"
      using nx(2) y by (simp add: word_less_nat_alt diff_less_mono2)
    note rest = less.hyps [OF this b nx(1)]
    have "unat y + fs \<le> unat (region_size r)"
      using less.prems(2) y by (intro aligned_next) (auto simp: scan_pre_def word_less_nat_alt)
    then have "y + fs' \<le> region_size r"
      using next_cell(1) [of y r fs] less.prems(2) y by (simp add: scan_pre_def word_le_nat_alt)
    then consider "y + fs' < region_size r" | "y + fs' = region_size r" by fastforce
    then have "adds_cells fs r (y + fs') (if b then found @ [region_addr r + y] else found) found'"
    proof cases
      case 2
      then show ?thesis using scan_region_at_end [OF b [unfolded 2] inside] by simp
    qed (rule rest)
    then show ?thesis by (rule adds_cells_step [OF _ less.prems(2) y])
  qed (use unfold in auto)
qed

text \<open>Both kinds of values stay inside: those no longer than the region, and byte strings.\<close>

lemma short_stays_inside: "length d \<le> unat (region_size r) \<Longrightarrow> stays_inside enc ev fs' d r"
  using below_bound by (auto simp: stays_inside_def)

lemma data_stays_inside:
  assumes "region_wf r" and "region_data r \<noteq> []" and "d \<noteq> []"
    and "(\<exists>oper. ev = Data_op_function oper) \<or> ev = Data_flag"
  shows "stays_inside enc ev 1 d r"
proof (cases "length d \<le> unat (region_size r)")
  case False
  have len: "length (region_data r) = unat (region_size r)" "0 < unat (region_size r)"
    using assms(1,2) by (auto simp: region_wf_def word_less_nat_alt)
  have "y < region_size r \<or> y = region_size r \<and> \<not> b"
    if b: "run_evaluator enc ev (at_offset (region_data r) (unat y)) (at_offset d 0) (length d) = Inr b"
    for y b
    using assms(4)
  proof
    assume "\<exists>oper. ev = Data_op_function oper"
    then obtain oper where "ev = Data_op_function oper" ..
    then have "length d \<le> unat (region_size r) + 1 - unat y"
      using b len(1) by (auto simp: load2_def load_def at_offset_def res_bind_Inr_iff split: if_splits)
    then have "unat y < unat (region_size r)" using False len(2) by linarith
    then show ?thesis by (simp add: word_less_nat_alt)
  next
    assume ev: "ev = Data_flag"
    have "1 < length d" using False len(2) by linarith
    then have "\<not> b" "1 \<le> unat (region_size r) + 1 - unat y"
      using b ev len(1)
      by (auto simp: data_flag_def load2_def load_def at_offset_def res_bind_Inr_iff data_flag_loop_eq
          split: if_splits)
    then have "unat y \<le> unat (region_size r)" by linarith
    with \<open>\<not> b\<close> show ?thesis by (auto simp: word_less_nat_alt nat_less_le word_unat_eq_iff)
  qed
  then show ?thesis by (auto simp: stays_inside_def)
qed (rule short_stays_inside)

text \<open>The jump to the next old region goes forward.\<close>

lemma jump_ahead:
  assumes "scan_pre fs fs' r y" and "y < region_size r"
    and "k < length old" and "region_addr r + y < region_addr (old ! k)"
    and "fs dvd unat (region_addr r)" and "\<forall>o_r \<in> set old. fs dvd unat (region_addr o_r)"
  shows "unat y < unat (region_addr (old ! k) - region_addr r)"
    and "scan_pre fs fs' r (region_addr (old ! k) - region_addr r)"
proof -
  have "unat (region_addr r + y) = unat (region_addr r) + unat y"
    using assms(1,2) by (simp add: scan_pre_def region_wf_def word_less_nat_alt unat_word_ariths)
  then have less_y: "unat (region_addr r) + unat y < unat (region_addr (old ! k))"
    using assms(4) by (simp add: word_less_nat_alt)
  then have uy: "unat (region_addr (old ! k) - region_addr r) =
      unat (region_addr (old ! k)) - unat (region_addr r)"
    by (simp add: unat_sub word_le_nat_alt)
  show "scan_pre fs fs' r (region_addr (old ! k) - region_addr r)"
    using assms(1,3,5,6) uy by (simp add: scan_pre_def)
  show "unat y < unat (region_addr (old ! k) - region_addr r)" using less_y uy by linarith
qed

lemma scan_changed_region_adds:
  assumes "scan_changed_region enc ev fs' d psize old r y i found = Some (Inr (i', found'))"
    and "scan_pre fs fs' r y" and "fs dvd unat (region_addr r)"
    and "\<forall>o_r \<in> set old. fs dvd unat (region_addr o_r)"
  shows "adds_cells fs r y found found' \<and> (region_data r = [] \<longrightarrow> found' = found)"
  using assms(1,2)
proof (induction "unat (region_size r) - unat y" arbitrary: y i found rule: less_induct)
  case less
  note unfold = less.prems(1) [unfolded scan_changed_region.simps [of enc ev fs' d psize old r y i found]]
  note pre = less.prems(2)
  let ?k = "skip_while (\<lambda>o_r. region_data o_r = [] \<or> end_addr o_r \<le> region_addr r + y) old i"
  show ?case
  proof (cases "y < region_size r")
    case y: True
    note nx = scan_pre_next [OF pre y]
    have smaller: "unat (region_size r) - unat y' < unat (region_size r) - unat y"
      if "unat y < unat y'" for y' :: u64
      using that y by (simp add: word_less_nat_alt diff_less_mono2)
    note again = less.hyps [OF smaller [OF nx(2)] _ nx(1)]
    consider (skip) "region_data r = []" | (hit) "region_data r \<noteq> []"
        "length old \<le> ?k \<or> \<not> region_addr r + y < region_addr (old ! ?k)"
      | (jump) "region_data r \<noteq> []" "?k < length old" "region_addr r + y < region_addr (old ! ?k)"
      by fastforce
    then show ?thesis
    proof cases
      case skip
      then have "scan_changed_region enc ev fs' d psize old r (y + fs') i found = Some (Inr (i', found'))"
        using unfold y by simp
      then show ?thesis
        using again adds_cells_step [of fs r y fs' False found found', OF _ pre y] by simp
    next
      case hit
      then have "found' = found \<or>
        (\<exists>b. scan_changed_region enc ev fs' d psize old r (y + fs') ?k
          (if b then found @ [region_addr r + y] else found) = Some (Inr (i', found')))"
        using unfold y by (simp add: Let_def split: sum.splits if_split_asm) (metis (full_types))+
      then show ?thesis using again adds_cells_step [OF _ pre y] hit(1) by fastforce
    next
      case jump
      let ?y = "region_addr (old ! ?k) - region_addr r"
      have go: "scan_changed_region enc ev fs' d psize old r ?y ?k found = Some (Inr (i', found'))"
        using unfold y jump by (simp add: Let_def)
      note ahead = jump_ahead [OF pre y jump(2,3) assms(3,4)]
      then have "adds_cells fs r ?y found found'"
        using less.hyps [OF smaller go] by blast
      then show ?thesis
        using adds_cells_later [of fs r ?y found found' y] ahead(1) jump(1) by simp
    qed
  qed (use unfold in auto)
qed

text \<open>One region after another.\<close>

lemma adds_cells_of:
  "adds_cells fs r 0 found found' \<Longrightarrow> (region_data r = [] \<Longrightarrow> found' = found) \<Longrightarrow>
   \<exists>xs. found' = found @ xs \<and> cells_of fs r xs"
  unfolding adds_cells_def cells_of_def by (metis append_Nil2)

lemma cells_concat_lists:
  assumes "snapshot_ok t rs" and "list_all2 (cells_of (field_size t)) rs xss"
  shows "sorted_wrt (<) (concat xss) \<and> (\<forall>a \<in> set (concat xss). cell_in (field_size t) rs a)"
proof -
  have "distinct rs"
    using assms(1) region_nonempty
    by (auto simp: snapshot_ok_def regions_wf_def sorted_wrt_iff_nth_less distinct_conv_nth)
      (metis linorder_neqE_nat linorder_not_less nth_mem)
  have len: "length rs = length xss" using assms(2) by (rule list_all2_lengthD)
  define f where "f r = (if r \<in> set rs then the (map_of (zip rs xss) r) else [])" for r
  have nth: "f (rs ! i) = xss ! i" if "i < length rs" for i
    using that len \<open>distinct rs\<close> by (simp add: f_def map_of_zip_nth)
  then have "xss = map f rs" using len by (intro nth_equalityI) auto
  moreover have "cells_of (field_size t) r (f r)" for r
  proof (cases "r \<in> set rs")
    case True
    then obtain i where "i < length rs" "r = rs ! i" by (auto simp: in_set_conv_nth)
    then show ?thesis using nth assms(2) by (auto simp: list_all2_conv_all_nth)
  qed (simp add: f_def cells_of_def)
  ultimately show ?thesis using cells_concat [OF assms(1), of f] by simp
qed

lemma scan_regions_cells:
  assumes "scan_regions enc ev (of_nat fs) d m rs found = Some (Inr found')"
    and "0 < fs" and "\<forall>r \<in> set rs. region_wf r \<and> fs dvd unat (region_size r) \<and>
      (region_data r \<noteq> [] \<longrightarrow> stays_inside enc ev (of_nat fs) d r)"
  shows "\<exists>xss. found' = found @ concat xss \<and> list_all2 (cells_of fs) rs xss"
  using assms(1,3)
proof (induction rs arbitrary: found)
  case (Cons r rs)
  obtain found1 where f1: "scan_regions enc ev (of_nat fs) d m rs found1 = Some (Inr found')"
    "\<exists>xs. found1 = found @ xs \<and> cells_of fs r xs"
  proof (cases "region_data r = []")
    case True
    then show ?thesis using Cons.prems that [of found] by (auto simp: cells_of_def)
  next
    case False
    then obtain found1 where s: "scan_region enc ev (of_nat fs) d m r 0 found = Some (Inr found1)"
      "scan_regions enc ev (of_nat fs) d m rs found1 = Some (Inr found')"
      using Cons.prems(1) by (auto simp: prog_bind_Inr_iff)
    have "adds_cells fs r 0 found found1"
      using Cons.prems(2) assms(2) False
      by (intro scan_region_adds [OF s(1)]) (auto simp: scan_pre_def region_wf_def)
    then show ?thesis using that s(2) adds_cells_of False by blast
  qed
  then obtain xs where xs: "found1 = found @ xs" "cells_of fs r xs" by blast
  obtain xss where "found' = found1 @ concat xss" "list_all2 (cells_of fs) rs xss"
    using Cons.IH [OF f1(1)] Cons.prems(2) by auto
  with xs show ?case by (intro exI [where x = "xs # xss"]) simp
qed simp

lemma scan_changed_regions_cells:
  assumes "scan_changed_regions enc ev (of_nat fs) d psize old rs i found = Some (Inr found')"
    and "0 < fs" and "regions_wf rs" and "aligned fs rs" and "aligned fs old"
  shows "\<exists>xss. found' = found @ concat xss \<and> list_all2 (cells_of fs) rs xss"
  using assms(1,3,4)
proof (induction rs arbitrary: i found)
  case (Cons r rs)
  obtain i1 found1 where s:
    "scan_changed_region enc ev (of_nat fs) d psize old r 0 i found = Some (Inr (i1, found1))"
    "scan_changed_regions enc ev (of_nat fs) d psize old rs i1 found1 = Some (Inr found')"
    using Cons.prems(1) by (auto simp: prog_bind_Inr_iff)
  have "adds_cells fs r 0 found found1 \<and> (region_data r = [] \<longrightarrow> found1 = found)"
    using Cons.prems(2,3) assms(2,5)
    by (intro scan_changed_region_adds [OF s(1)]) (auto simp: scan_pre_def aligned_def regions_wf_Cons)
  then obtain xs where xs: "found1 = found @ xs" "cells_of fs r xs" using adds_cells_of by blast
  obtain xss where "found' = found1 @ concat xss" "list_all2 (cells_of fs) rs xss"
    using Cons.IH [OF s(2)] Cons.prems(2,3) by (auto simp: aligned_def regions_wf_Cons)
  with xs show ?case by (intro exI [where x = "xs # xss"]) simp
qed simp

section \<open>Narrowing\<close>

lemma verify_result_value:
  assumes "verify_result enc ev d psize old new res oi ni = Inr v" and "v \<noteq> 0"
    and "ni = skip_while (\<lambda>r. end_addr r \<le> res) new n"
  shows "v = res \<and> (\<exists>r \<in> set new. contains_data res r)"
proof -
  have ni: "ni < length new" "\<not> res < region_addr (new ! ni)" "region_data (new ! ni) \<noteq> []" "v = res"
    using assms(1,2) by (auto simp: verify_result_def Let_def res_bind_Inr_iff split: if_splits)
  then have "\<not> end_addr (new ! ni) \<le> res"
    using skip_while_stop [of "\<lambda>r. end_addr r \<le> res" new n] assms(3) by simp
  then have "contains_data res (new ! ni)"
    using ni by (simp add: contains_data_def contains_def not_less not_le)
  then show ?thesis using ni by auto
qed

lemma verify_results_kept:
  "verify_results enc ev d psize old new rs oi ni = Inr vs \<Longrightarrow>
   list_all2 (\<lambda>a v. v = 0 \<or> v = a \<and> (\<exists>r \<in> set new. contains_data a r)) rs vs"
proof (induction rs arbitrary: oi ni vs)
  case (Cons a rs)
  then show ?case
    by (auto simp: Let_def res_bind_Inr_iff dest: verify_result_value [OF _ _ refl])
qed simp

lemma kept_sorted:
  "list_all2 (\<lambda>a v. v = 0 \<or> v = a \<and> Q a) as vs \<Longrightarrow> sorted_wrt (<) (as :: u64 list) \<Longrightarrow>
   sorted_wrt (<) (filter (\<lambda>v. v \<noteq> 0) vs) \<and> (\<forall>v \<in> set (filter (\<lambda>v. v \<noteq> 0) vs). v \<in> set as \<and> Q v)"
proof (induction rule: list_all2_induct)
  case (Cons a as v vs)
  then show ?case by auto
qed simp

lemma compact_nonzero: "compact vs 0 0 = filter (\<lambda>v. v \<noteq> 0) vs"
  using compact_marks [of "\<lambda>_. True" vs] by simp

lemma contains_data_cell:
  assumes "r \<in> set new" and "contains_data a r" and "fs dvd unat a"
    and "regions_wf new" and "aligned fs new"
  shows "cell_in fs new a"
proof -
  have "unat (a - region_addr r) + fs \<le> unat (region_size r)"
    using assms
    by (intro aligned_cell_fits) (auto simp: contains_data_def regions_wf_def aligned_def)
  then show ?thesis using assms by (auto simp: cell_in_def contains_data_def)
qed

section \<open>Any successful update\<close>

text \<open>The comparisons of a first search stay inside, whatever the type of its value.\<close>

lemma first_stays_inside:
  assumes "check_can_update s p d = Inr ()" and "memory s = None" and "p \<noteq> ALL_P"
    and "region_wf r" and "region_data r \<noteq> []" and "field_size (search_type s) dvd unat (region_size r)"
  shows "stays_inside enc (the (evaluator_for (search_type s) p)) (of_nat (field_size (search_type s))) d r"
proof (cases "search_type s = DATA")
  case True
  have "d \<noteq> []" using assms(1-3) by (auto simp: check_can_update_def split: if_splits)
  moreover have "(\<exists>oper. the (evaluator_for DATA p) = Data_op_function oper) \<or>
      the (evaluator_for DATA p) = Data_flag"
    using assms(3) by (cases p) (auto simp: evaluator_for_def search_type_configs_def
        infix_function_pointers_for_data_def)
  moreover have "field_size DATA = 1" by (simp add: field_size_def search_type_configs_def)
  ultimately show ?thesis using data_stays_inside [OF assms(4,5)] True by simp
next
  case False
  have "length d = field_size (search_type s)"
    using fixed_size(2) [OF assms(1) False] assms(1-3) by (auto simp: check_can_update_def split: if_splits)
  then show ?thesis
    using assms(4,6) by (intro short_stays_inside) (simp add: region_wf_def word_less_nat_alt dvd_imp_le)
qed

lemma update_search_inv:
  assumes "search_inv s" and "snapshot_ok (search_type s) new"
    and "update enc s new p d m = Some (Inr s')"
  shows "search_inv s'"
proof -
  let ?t = "search_type s"
  let ?fs = "field_size ?t"
  have ok: "check_can_update s p d = Inr ()"
    using assms(3) by (auto simp: update_def split: sum.splits)
  have t: "\<not> results_valid s \<Longrightarrow> results s = []" "sorted_wrt (<) (results s)"
    using assms(1) by (auto simp: search_inv_def)
  have fs: "0 < ?fs" by (cases ?t) (auto simp: field_size_def search_type_configs_def)
  have wf: "regions_wf new" "aligned ?fs new" using assms(2) by (auto simp: snapshot_ok_def)
  have finish: "search_inv s'"
    if "s' = s\<lparr>results := concat xss, results_valid := True, prev_size := length d, memory := Some new\<rparr>"
      "list_all2 (cells_of ?fs) new xss" for xss
    using cells_concat_lists [OF assms(2) that(2)] that(1) assms(2) by (auto simp: search_inv_def)
  show ?thesis
  proof (cases "memory s")
    case None
    show ?thesis
    proof (cases "p = ALL_P")
      case True
      then show ?thesis using assms None ok by (auto simp: update_def Let_def search_inv_def)
    next
      case False
      have fits: "\<forall>r \<in> set new. region_wf r \<and> ?fs dvd unat (region_size r) \<and>
          (region_data r \<noteq> [] \<longrightarrow> stays_inside enc (the (evaluator_for ?t p)) (of_nat ?fs) d r)"
        using first_stays_inside [OF ok None False] wf by (simp add: regions_wf_def aligned_def)
      obtain found where f:
        "scan_regions enc (the (evaluator_for ?t p)) (of_nat ?fs) d m new (results s) = Some (Inr found)"
        "s' = s\<lparr>results := found, results_valid := True, prev_size := length d, memory := Some new\<rparr>"
        using assms(3) None ok False by (auto simp: update_def Let_def prog_bind_Inr_iff)
      have "results s = []" using assms(1) None by (simp add: search_inv_def)
      moreover obtain xss where "found = results s @ concat xss" "list_all2 (cells_of ?fs) new xss"
        using scan_regions_cells [OF f(1) fs fits] by blast
      ultimately show ?thesis using finish f(2) by simp
    qed
  next
    case (Some old)
    have old: "aligned ?fs old" "\<forall>a \<in> set (results s). ?fs dvd unat a"
      using assms(1) Some by (auto simp: search_inv_def snapshot_ok_def cell_in_def)
    show ?thesis
    proof (cases "results_valid s")
      case False
      then obtain found where f:
        "scan_changed_regions enc (the (evaluator_for ?t p)) (of_nat ?fs) d (prev_size s) old new 0
           (results s) = Some (Inr found)"
        "s' = s\<lparr>results := found, results_valid := True, prev_size := length d, memory := Some new\<rparr>"
        using assms(3) Some ok by (auto simp: update_def Let_def prog_bind_Inr_iff)
      obtain xss where "found = results s @ concat xss" "list_all2 (cells_of ?fs) new xss"
        using scan_changed_regions_cells [OF f(1) fs wf old(1)] by blast
      then show ?thesis using finish f(2) t(1) False by simp
    next
      case True
      then obtain vs where vs:
        "verify_results enc (the (evaluator_for ?t p)) d (prev_size s) old new (results s) 0 0 = Inr vs"
        "s' = s\<lparr>results := compact vs 0 0, prev_size := length d, memory := Some new\<rparr>"
        using assms(3) Some ok by (auto simp: update_def Let_def split: sum.splits)
      note kept = kept_sorted [OF verify_results_kept [OF vs(1)] t(2)]
      then have "cell_in ?fs new a" if "a \<in> set (filter (\<lambda>v. v \<noteq> 0) vs)" for a
        using contains_data_cell [OF _ _ _ wf] old(2) that by blast
      then show ?thesis
        using kept vs(2) True assms(2) by (simp add: search_inv_def compact_nonzero)
    qed
  qed
qed

section \<open>Reachable searches\<close>

text \<open>
  What the shell does with one search: it creates it, names it, updates it with snapshots of
  the task and deletes results from it.
\<close>

inductive search_step :: "encoding \<Rightarrow> memory_search \<Rightarrow> memory_search \<Rightarrow> bool" for enc where
  annotate: "search_step enc s (set_annotation text s)"
| update: "search_step enc s s'"
  if "update enc s new p d m = Some (Inr s')" and "snapshot_ok (search_type s) new"
| delete: "search_step enc s s'" if "delete_results s start end_incl = Inr s'"

inductive reachable :: "encoding \<Rightarrow> memory_search \<Rightarrow> bool" for enc where
  new: "reachable enc (new_memory_search t all_mem)"
| step: "reachable enc s'" if "reachable enc s" and "search_step enc s s'"

inductive_cases search_stepE: "search_step enc s s'"

lemma set_take_drop: "set (take i xs @ drop j xs) \<subseteq> set xs"
  using set_take_subset set_drop_subset by fastforce

lemma sorted_erase:
  assumes "sorted_wrt (<) (xs :: 'a::linorder list)" and "i \<le> j"
  shows "sorted_wrt (<) (take i xs @ drop j xs)"
proof -
  have "a < b" if "a \<in> set (take i xs)" "b \<in> set (drop j xs)" for a b
  proof -
    have "b \<in> set (drop i xs)" using that(2) assms(2) set_drop_subset_set_drop [of i j xs] by auto
    moreover have "sorted_wrt (<) (take i xs @ drop i xs)" using assms(1) by simp
    ultimately show ?thesis using that(1) unfolding sorted_wrt_append by blast
  qed
  then show ?thesis using assms(1) by (auto simp: sorted_wrt_append sorted_wrt_take sorted_wrt_drop)
qed

lemma delete_results_inv:
  assumes "search_inv s" and "delete_results s start end_incl = Inr s'"
  shows "search_inv s'"
proof -
  let ?i = "lower_bound (results s) start" and ?j = "lower_bound (results s) (end_incl + 1)"
  have s': "?i \<le> ?j" "s' = s\<lparr>results := take ?i (results s) @ drop ?j (results s)\<rparr>"
    using assms(2) by (auto simp: delete_results_def Let_def erase_def split: if_splits)
  then show ?thesis
    using assms(1) sorted_erase [of "results s" ?i ?j] set_take_drop [of ?i "results s" ?j]
    by (auto simp: search_inv_def split: option.splits)
qed

lemma search_step_inv: "search_step enc s s' \<Longrightarrow> search_inv s \<Longrightarrow> search_inv s'"
proof (erule search_stepE)
  show "search_inv s'" if "search_inv s" "s' = set_annotation msg s" for msg
    using that by (auto simp: search_inv_def set_annotation_def split: option.splits)
  show "search_inv s'" if "search_inv s" "update enc s new p d m = Some (Inr s')"
    "snapshot_ok (search_type s) new" for new p d m
    using update_search_inv that by blast
  show "search_inv s'" if "search_inv s" "delete_results s start end_incl = Inr s'" for start end_incl
    using delete_results_inv that by blast
qed

lemma reachable_inv: "reachable enc s \<Longrightarrow> search_inv s"
proof (induction rule: reachable.induct)
  case (new t all_mem)
  then show ?case by (simp add: search_inv_def new_memory_search_def)
next
  case (step s s')
  then show ?case using search_step_inv by blast
qed

text \<open>
  C16. In every reachable search, results only exist together with a snapshot, are free of
  duplicates and ascending, and each is a cell in a region that the snapshot holds the bytes
  of (of a byte string, its first byte).
\<close>

theorem reachable_results_in_snapshot:
  assumes "reachable enc s" and "has_valid_results s"
  shows "\<exists>snap. memory s = Some snap \<and> sorted (results s) \<and> distinct (results s) \<and>
    (\<forall>a \<in> set (results s). \<exists>r \<in> set snap. contains a r \<and>
       unat (a - region_addr r) + field_size (search_type s) \<le> length (region_data r))"
proof -
  note inv = reachable_inv [OF assms(1)]
  then obtain snap where snap: "memory s = Some snap"
    using assms(2) by (auto simp: search_inv_def has_valid_results_def split: option.splits)
  then have cell: "cell_in (field_size (search_type s)) snap a" if "a \<in> set (results s)" for a
    using inv that by (simp add: search_inv_def)
  have "\<exists>r \<in> set snap. contains a r \<and>
       unat (a - region_addr r) + field_size (search_type s) \<le> length (region_data r)"
    if "a \<in> set (results s)" for a
  proof -
    obtain r where r: "r \<in> set snap" "contains a r" "region_data r \<noteq> []"
        "unat (a - region_addr r) + field_size (search_type s) \<le> unat (region_size r)"
      using cell [OF \<open>a \<in> set (results s)\<close>] by (auto simp: cell_in_def)
    moreover have "region_wf r"
      using inv snap r(1) by (auto simp: search_inv_def snapshot_ok_def regions_wf_def)
    ultimately show ?thesis by (auto simp: region_wf_def)
  qed
  then show ?thesis
    using snap inv by (auto simp: search_inv_def strict_sorted_iff)
qed

end
