(* ===== verification/SearchReturns.thy ===== *)
theory SearchReturns
  imports SearchReachable
begin

text \<open>
  Every update returns, whatever the type, the predicate and the value: the loops of a search
  over values of any size end, also where they read beyond a buffer, and where they do not end
  by finding.
\<close>

section \<open>The first search\<close>

text \<open>The counter reaches the bound without passing it, since both are multiples of the step.\<close>

lemma scan_region_returns:
  assumes "fs dvd unat (region_size r - of_nat (length d))" and "0 < fs" and "fs' = of_nat fs"
    and "fs dvd unat y"
  shows "scan_region enc ev fs' d m r y found \<noteq> None"
  using assms(4)
proof (induction "unat (region_size r - of_nat (length d)) - unat y" arbitrary: y found rule: less_induct)
  case less
  let ?bound = "region_size r - of_nat (length d)"
  show ?case
  proof (cases "y < ?bound")
    case True
    have "unat y + fs \<le> unat ?bound"
      using less.prems assms(1) True by (intro aligned_next) (auto simp: word_less_nat_alt)
    then have y: "unat (y + fs') = unat y + fs"
      using u64_bound [of ?bound] assms(3) by (simp add: unat_word_ariths unat_of_nat)
    then have "unat ?bound - unat (y + fs') < unat ?bound - unat y" "fs dvd unat (y + fs')"
      using True assms(2) less.prems by (auto simp: word_less_nat_alt)
    from less.hyps [OF this] show ?thesis
      by (subst scan_region.simps) (simp split: sum.splits)
  qed (subst scan_region.simps, simp)
qed

lemma scan_regions_return:
  assumes "\<forall>r \<in> set rs. fs dvd unat (region_size r - of_nat (length d))" and "0 < fs"
  shows "scan_regions enc ev (of_nat fs) d m rs found \<noteq> None"
  using assms(1)
proof (induction rs arbitrary: found)
  case (Cons r rs)
  have "scan_region enc ev (of_nat fs) d m r 0 found \<noteq> None"
    using Cons.prems assms(2) by (intro scan_region_returns) auto
  then show ?case
    using Cons by (auto simp: prog_bind_def split: option.splits sum.splits)
qed simp

section \<open>The second search\<close>

lemma scan_changed_region_returns:
  assumes "scan_pre fs fs' r y" and "fs dvd unat (region_addr r)"
    and "\<forall>o_r \<in> set old. fs dvd unat (region_addr o_r)"
  shows "scan_changed_region enc ev fs' d psize old r y i found \<noteq> None"
  using assms(1)
proof (induction "unat (region_size r) - unat y" arbitrary: y i found rule: less_induct)
  case less
  let ?k = "skip_while (\<lambda>o_r. region_data o_r = [] \<or> end_addr o_r \<le> region_addr r + y) old i"
  let ?y = "region_addr (old ! ?k) - region_addr r"
  show ?case
  proof (cases "y < region_size r")
    case y: True
    note nx = scan_pre_next [OF less.prems y]
    have smaller: "unat (region_size r) - unat y' < unat (region_size r) - unat y"
      if "unat y < unat y'" for y' :: u64
      using that y by (simp add: word_less_nat_alt diff_less_mono2)
    have next_y: "scan_changed_region enc ev fs' d psize old r (y + fs') j found' \<noteq> None" for j found'
      by (rule less.hyps [OF smaller [OF nx(2)] nx(1)])
    have jump: "scan_changed_region enc ev fs' d psize old r ?y ?k found \<noteq> None"
      if "?k < length old" "region_addr r + y < region_addr (old ! ?k)"
      using jump_ahead [OF less.prems y that assms(2,3)] by (intro less.hyps smaller)
    show ?thesis
    proof
      assume "scan_changed_region enc ev fs' d psize old r y i found = None"
      then show False
        using next_y jump y unfolding scan_changed_region.simps [of enc ev fs' d psize old r y i found] Let_def
        by (simp del: not_None_eq split: sum.splits if_split_asm)
    qed
  qed (subst scan_changed_region.simps, simp)
qed

lemma scan_changed_regions_return:
  assumes "0 < fs" and "regions_wf rs" and "aligned fs rs" and "aligned fs old"
  shows "scan_changed_regions enc ev (of_nat fs) d psize old rs i found \<noteq> None"
  using assms(2,3)
proof (induction rs arbitrary: i found)
  case (Cons r rs)
  have "scan_changed_region enc ev (of_nat fs) d psize old r 0 i found \<noteq> None"
    using Cons.prems assms(1,4)
    by (intro scan_changed_region_returns) (auto simp: scan_pre_def aligned_def regions_wf_Cons)
  moreover have "scan_changed_regions enc ev (of_nat fs) d psize old rs j found' \<noteq> None" for j found'
    using Cons by (simp add: aligned_def regions_wf_Cons)
  ultimately show ?case
    by (auto simp: prog_bind_def split: option.splits sum.splits)
qed simp

section \<open>Every update\<close>

lemma field_size_positive: "0 < field_size t"
  by (cases t) (auto simp: field_size_def search_type_configs_def)

lemma first_bound_aligned:
  assumes "check_can_update s p d = Inr ()" and "memory s = None" and "p \<noteq> ALL_P"
    and "aligned (field_size (search_type s)) rs" and "regions_wf rs" and "r \<in> set rs"
  shows "field_size (search_type s) dvd unat (region_size r - of_nat (length d))"
proof (cases "search_type s = DATA")
  case True
  then show ?thesis by (simp add: field_size_def search_type_configs_def)
next
  case False
  let ?fs = "field_size (search_type s)"
  have d: "length d = ?fs"
    using fixed_size(2) [OF assms(1) False] assms(1-3) by (auto simp: check_can_update_def split: if_splits)
  have r: "?fs dvd unat (region_size r)" "?fs \<le> unat (region_size r)"
    using assms(4-6) by (auto simp: aligned_def regions_wf_def region_wf_def word_less_nat_alt intro: dvd_imp_le)
  then have "unat (region_size r - of_nat (length d)) = unat (region_size r) - ?fs"
    using d u64_bound [of "region_size r"] by (simp add: unat_sub word_le_nat_alt unat_of_nat)
  with r show ?thesis by simp
qed

lemma update_returns:
  assumes "search_inv s" and "snapshot_ok (search_type s) new"
  shows "update enc s new p d m \<noteq> None"
proof (cases "check_can_update s p d")
  case (Inr u)
  then have ok: "check_can_update s p d = Inr ()" by simp
  have new: "regions_wf new" "aligned (field_size (search_type s)) new"
    using assms(2) by (auto simp: snapshot_ok_def)
  show ?thesis
  proof (cases "memory s")
    case None
    have "scan_regions enc (the (evaluator_for (search_type s) p)) (of_nat (field_size (search_type s))) d m new
        (results s) \<noteq> None" if "p \<noteq> ALL_P"
      using first_bound_aligned [OF ok None that new(2,1)] field_size_positive
      by (intro scan_regions_return) auto
    then show ?thesis
      using None ok
      by (cases "p = ALL_P") (auto simp: update_def Let_def prog_bind_def split: option.splits sum.splits)
  next
    case (Some old)
    have "aligned (field_size (search_type s)) old"
      using assms(1) Some by (auto simp: search_inv_def snapshot_ok_def)
    then show ?thesis
      using Some ok scan_changed_regions_return [OF field_size_positive new, of old]
      by (auto simp: update_def Let_def prog_bind_def simp del: not_None_eq split: option.splits sum.splits)
  qed
qed (simp add: update_def)

end
