(* ===== verification/SearchOutcome.thy ===== *)
theory SearchOutcome
  imports SearchReturns
begin

text \<open>
  The outcomes of an update of a search over values of fixed size, for every type and every
  predicate: each loop compares whole cells only, so the one failure that can come from a
  comparison is the signed overflow of the flag predicate.
\<close>

section \<open>Comparisons of whole cells\<close>

lemma flag_signed_failure: "flag_signed x = Inl f \<Longrightarrow> f = Undefined Signed_overflow"
  by (auto simp: flag_signed_def split: if_splits)

lemma flag_function_failure: "flag_op_function q x y = Inl f \<Longrightarrow> f = Undefined Signed_overflow"
  by (cases q) (auto dest: flag_signed_failure)

lemma evaluator_failure:
  assumes "evaluator_for t p = Some ev" and "t \<noteq> DATA"
    and "field_size t \<le> length a" and "field_size t \<le> length b"
    and "run_evaluator enc ev a b sz = Inl f"
  shows "f = Undefined Signed_overflow \<and> flag_may_overflow t p"
proof -
  have size: "cell_size t sz = field_size t"
    using assms(2) field_size_eq [of t] by (cases t) (simp_all add: cell_size_def value_size_for_search_type_def)
  have may: "flag_may_overflow t p"
    using evaluator_total [OF assms(1), of sz a b enc] assms(3-5) size by auto
  then obtain q where q: "type_prim t = Some q" "\<not> is_float q" "p = FLAG"
    by (auto simp: flag_may_overflow_def is_float_def)
  then have "ev = Flag_op_function q" using assms(1) by (simp add: evaluator_for_flag)
  moreover have "prim_size q = field_size t"
    using cell_size_Some [OF q(1), of sz] size by simp
  ultimately show ?thesis
    using assms(3-5) may by (auto simp: load2_ok dest: flag_function_failure)
qed

text \<open>An evaluator of cells of \<open>fs\<close> bytes that fails on whole cells with \<open>Q\<close> only.\<close>

definition fails_only :: "encoding \<Rightarrow> evaluator \<Rightarrow> nat \<Rightarrow> (failure \<Rightarrow> bool) \<Rightarrow> bool" where
  "fails_only enc ev fs Q \<longleftrightarrow>
     (\<forall>a b sz f. fs \<le> length a \<longrightarrow> fs \<le> length b \<longrightarrow> run_evaluator enc ev a b sz = Inl f \<longrightarrow> Q f)"

lemma fails_onlyD:
  "fails_only enc ev fs Q \<Longrightarrow> run_evaluator enc ev a b sz = Inl f \<Longrightarrow> fs \<le> length a \<Longrightarrow> fs \<le> length b \<Longrightarrow> Q f"
  unfolding fails_only_def by blast

text \<open>A cell inside a region that was read is there in full.\<close>

lemma cell_there:
  assumes "region_wf r" and "region_data r \<noteq> []" and "n + fs \<le> unat (region_size r)"
  shows "fs \<le> length (at_offset (region_data r) n)"
  using assms by (simp add: region_wf_def at_offset_length)

lemma scan_cell_there:
  assumes "scan_pre fs fs' r y" and "y < region_size r" and "region_data r \<noteq> []"
  shows "fs \<le> length (at_offset (region_data r) (unat y))"
  using assms by (intro cell_there aligned_next) (auto simp: scan_pre_def word_less_nat_alt)

section \<open>The three loops\<close>

lemma scan_region_fails:
  assumes "scan_region enc ev fs' d m r y found = Some (Inl f)" and "scan_pre fs fs' r y"
    and "fails_only enc ev fs Q" and "fs = length d" and "length d \<le> unat (region_size r)"
    and "region_data r \<noteq> []"
  shows "Q f"
  using assms(1,2)
proof (induction "unat (region_size r) - unat y" arbitrary: y found rule: less_induct)
  case less
  note unfold = less.prems(1) [unfolded scan_region.simps [of enc ev fs' d m r y found]]
  have bound: "y < region_size r - of_nat (length d)" using unfold by (simp split: if_splits)
  then have y: "y < region_size r" by (rule below_bound [OF assms(5)])
  note nx = scan_pre_next [OF less.prems(2) y]
  have smaller: "unat (region_size r) - unat (y + fs') < unat (region_size r) - unat y"
    using nx(2) y by (simp add: word_less_nat_alt diff_less_mono2)
  show ?case
  proof (cases "run_evaluator enc ev (at_offset (region_data r) (unat y)) (at_offset d 0) (length d)")
    case (Inl g)
    then have "g = f" using unfold by (simp split: if_splits)
    moreover have "fs \<le> length (at_offset d 0)" using assms(4) by (simp add: at_offset_def)
    ultimately show ?thesis
      using fails_onlyD [OF assms(3) Inl scan_cell_there [OF less.prems(2) y assms(6)]] by simp
  next
    case (Inr b)
    then have "scan_region enc ev fs' d m r (y + fs') (if b then found @ [region_addr r + y] else found) =
        Some (Inl f)"
      using unfold by (simp split: if_splits)
    then show ?thesis by (rule less.hyps [OF smaller _ nx(1)])
  qed
qed

lemma scan_regions_fail:
  assumes "scan_regions enc ev (of_nat fs) d m rs found = Some (Inl f)"
    and "regions_wf rs" and "aligned fs rs" and "0 < fs" and "fails_only enc ev fs Q" and "fs = length d"
  shows "Q f"
  using assms(1-3)
proof (induction rs arbitrary: found)
  case (Cons r rs)
  have r: "region_wf r" "fs dvd unat (region_size r)" and rs: "regions_wf rs" "aligned fs rs"
    using Cons.prems by (auto simp: regions_wf_Cons aligned_def)
  then have fits: "scan_pre fs (of_nat fs) r 0" "length d \<le> unat (region_size r)"
    using assms(4,6) by (auto simp: scan_pre_def region_wf_def word_less_nat_alt intro: dvd_imp_le)
  have "Q f" if "region_data r \<noteq> []" "scan_region enc ev (of_nat fs) d m r 0 found = Some (Inl f)"
    by (rule scan_region_fails [OF that(2) fits(1) assms(5,6) fits(2) that(1)])
  then show ?case
    using Cons.prems(1) Cons.IH [OF _ rs]
    by (auto simp: prog_bind_def split: if_splits option.splits sum.splits)
qed simp

lemma scan_changed_region_fails:
  assumes "scan_changed_region enc ev fs' d psize old r y i found = Some (Inl f)" and "scan_pre fs fs' r y"
    and "fs dvd unat (region_addr r)" and "regions_wf old" and "aligned fs old"
    and "fails_only enc ev fs Q" and "d = [] \<or> fs = length d"
  shows "Q f"
  using assms(1,2)
proof (induction "unat (region_size r) - unat y" arbitrary: y i found rule: less_induct)
  case less
  note unfold = less.prems(1) [unfolded scan_changed_region.simps [of enc ev fs' d psize old r y i found]]
  let ?P = "\<lambda>o_r. region_data o_r = [] \<or> end_addr o_r \<le> region_addr r + y"
  let ?k = "skip_while ?P old i"
  let ?o = "old ! ?k" and ?a = "region_addr r + y"
  have y: "y < region_size r" using unfold by (simp split: if_splits)
  note nx = scan_pre_next [OF less.prems(2) y]
  have smaller: "unat (region_size r) - unat y' < unat (region_size r) - unat y"
    if "unat y < unat y'" for y' :: u64
    using that y by (simp add: word_less_nat_alt diff_less_mono2)
  note again = less.hyps [OF smaller [OF nx(2)] _ nx(1)]
  have starts: "\<forall>o_r \<in> set old. fs dvd unat (region_addr o_r)" using assms(5) by (simp add: aligned_def)
  consider (skip) "region_data r = []" | (jump) "region_data r \<noteq> []" "?k < length old" "?a < region_addr ?o"
    | (stop) "region_data r \<noteq> []" "\<not> ?k < length old"
    | (cell) "region_data r \<noteq> []" "?k < length old" "\<not> ?a < region_addr ?o"
    by blast
  then show ?case
  proof cases
    case skip
    then show ?thesis using unfold y again by simp
  next
    case stop
    then show ?thesis using unfold y by (simp add: Let_def)
  next
    case jump
    let ?y = "region_addr ?o - region_addr r"
    have "scan_changed_region enc ev fs' d psize old r ?y ?k found = Some (Inl f)"
      using unfold y jump by (simp add: Let_def)
    moreover note ahead = jump_ahead [OF less.prems(2) y jump(2,3) assms(3) starts]
    ultimately show ?thesis using less.hyps [OF smaller] by blast
  next
    case cell
    let ?old_y = "?a - region_addr ?o"
    have o_r: "region_wf ?o" "fs dvd unat (region_addr ?o)" "fs dvd unat (region_size ?o)"
      using assms(4,5) cell(2) by (auto simp: regions_wf_def aligned_def)
    have data: "region_data ?o \<noteq> []" "contains ?a ?o"
      using skip_while_stop [of ?P old i] cell(2,3) by (auto simp: contains_def)
    have "unat ?a = unat (region_addr r) + unat y"
      using less.prems(2) y by (simp add: scan_pre_def region_wf_def word_less_nat_alt unat_word_ariths)
    then have "fs dvd unat ?a" using assms(3) less.prems(2) by (simp add: scan_pre_def)
    then have there: "fs \<le> length (at_offset (region_data ?o) (unat ?old_y))"
      using aligned_cell_fits [OF _ o_r data(2)] by (intro cell_there o_r(1) data(1))
    let ?t = "if d = [] then at_offset (region_data ?o) (unat ?old_y) else at_offset d 0"
    let ?sz = "if d = [] then psize else length d"
    have full: "fs \<le> length ?t" using there assms(7) by (auto simp: at_offset_def)
    show ?thesis
    proof (cases "run_evaluator enc ev (at_offset (region_data r) (unat y)) ?t ?sz")
      case (Inl g)
      then have "g = f" using unfold y cell by (simp add: Let_def)
      then show ?thesis
        using fails_onlyD [OF assms(6) Inl scan_cell_there [OF less.prems(2) y cell(1)] full] by simp
    next
      case (Inr b)
      then have "scan_changed_region enc ev fs' d psize old r (y + fs') ?k
          (if b then found @ [?a] else found) = Some (Inl f)"
        using unfold y cell by (simp add: Let_def)
      then show ?thesis by (rule again)
    qed
  qed
qed

lemma scan_changed_regions_fail:
  assumes "scan_changed_regions enc ev (of_nat fs) d psize old rs i found = Some (Inl f)"
    and "regions_wf rs" and "aligned fs rs" and "0 < fs" and "regions_wf old" and "aligned fs old"
    and "fails_only enc ev fs Q" and "d = [] \<or> fs = length d"
  shows "Q f"
  using assms(1-3)
proof (induction rs arbitrary: i found)
  case (Cons r rs)
  have r: "scan_pre fs (of_nat fs) r 0" "fs dvd unat (region_addr r)" and rs: "regions_wf rs" "aligned fs rs"
    using Cons.prems(2,3) assms(4) by (auto simp: regions_wf_Cons aligned_def scan_pre_def)
  have "Q f" if "scan_changed_region enc ev (of_nat fs) d psize old r 0 i found = Some (Inl f)"
    by (rule scan_changed_region_fails [OF that r assms(5-8)])
  then show ?case
    using Cons.prems(1) Cons.IH [OF _ rs]
    by (auto simp: prog_bind_def split: option.splits sum.splits)
qed simp

lemma verify_result_fails:
  assumes "verify_result enc ev d psize old new a oi ni = Inl f"
    and "ni = skip_while (\<lambda>r. end_addr r \<le> a) new n" and "oi = skip_while (\<lambda>r. end_addr r \<le> a) old i"
    and "regions_wf new" and "aligned fs new" and "regions_wf old" and "cell_in fs old a"
    and "fails_only enc ev fs Q" and "d = [] \<or> fs = length d"
  shows "Q f"
proof -
  let ?n = "new ! ni" and ?o = "old ! oi"
  let ?t = "if d = [] then at_offset (region_data ?o) (unat (a - region_addr ?o)) else at_offset d 0"
  let ?sz = "if d = [] then psize else length d"
  have at: "ni < length new" "oi < length old" "region_addr ?n \<le> a" "region_addr ?o \<le> a" "region_data ?n \<noteq> []"
    and run: "run_evaluator enc ev (at_offset (region_data ?n) (unat (a - region_addr ?n))) ?t ?sz = Inl f"
    using assms(1) by (auto simp: verify_result_def Let_def res_bind_Inl_iff split: if_splits)
  have here: "contains a ?n" "contains a ?o"
    using skip_while_stop [of "\<lambda>r. end_addr r \<le> a" new n] skip_while_stop [of "\<lambda>r. end_addr r \<le> a" old i]
      at assms(2,3) by (auto simp: contains_def)
  obtain o_r where o_r: "o_r \<in> set old" "contains a o_r" "region_data o_r \<noteq> []"
      "unat (a - region_addr o_r) + fs \<le> unat (region_size o_r)" and a: "fs dvd unat a"
    using assms(7) by (auto simp: cell_in_def)
  have "?o = o_r" by (rule contains_unique [OF assms(6) nth_mem [OF at(2)] o_r(1) here(2) o_r(2)])
  then have "fs \<le> length (at_offset (region_data ?o) (unat (a - region_addr ?o)))"
    using o_r assms(6) by (intro cell_there) (auto simp: regions_wf_def)
  then have "fs \<le> length ?t" using assms(9) by (auto simp: at_offset_def)
  moreover have "region_wf ?n" "fs dvd unat (region_addr ?n)" "fs dvd unat (region_size ?n)"
    using assms(4,5) at(1) by (auto simp: regions_wf_def aligned_def)
  then have "fs \<le> length (at_offset (region_data ?n) (unat (a - region_addr ?n)))"
    using aligned_cell_fits [OF a _ _ _ here(1)] by (intro cell_there at(5))
  ultimately show ?thesis using fails_onlyD [OF assms(8) run] by blast
qed

lemma verify_results_fail:
  assumes "verify_results enc ev d psize old new as oi ni = Inl f"
    and "\<forall>a \<in> set as. cell_in fs old a"
    and "regions_wf new" and "aligned fs new" and "regions_wf old"
    and "fails_only enc ev fs Q" and "d = [] \<or> fs = length d"
  shows "Q f"
  using assms(1,2)
proof (induction as arbitrary: oi ni)
  case (Cons a as)
  let ?n = "skip_while (\<lambda>r. end_addr r \<le> a) new ni" and ?o = "skip_while (\<lambda>r. end_addr r \<le> a) old oi"
  have a: "cell_in fs old a" using Cons.prems(2) by simp
  have "Q f" if "verify_result enc ev d psize old new a ?o ?n = Inl f"
    by (rule verify_result_fails [OF that refl refl assms(3-5) a assms(6,7)])
  moreover have "verify_result enc ev d psize old new a ?o ?n = Inl f \<or>
      verify_results enc ev d psize old new as ?o ?n = Inl f"
    using Cons.prems(1) by (auto simp: Let_def res_bind_Inl_iff)
  ultimately show ?case using Cons.IH Cons.prems(2) by auto
qed simp

section \<open>Every update of a search over values of fixed size\<close>

lemma update_failure:
  assumes "search_inv s" and "snapshot_ok (search_type s) new" and "search_type s \<noteq> DATA"
    and "check_can_update s p d = Inr ()" and "update enc s new p d m = Some (Inl f)"
  shows "f = Undefined Signed_overflow \<and> flag_may_overflow (search_type s) p"
proof -
  let ?t = "search_type s"
  let ?fs = "field_size ?t"
  let ?ev = "the (evaluator_for ?t p)"
  let ?Q = "\<lambda>f. f = Undefined Signed_overflow \<and> flag_may_overflow ?t p"
  note fx = fixed_size [OF assms(4,3)]
  have fails: "fails_only enc ?ev ?fs ?Q"
    unfolding fails_only_def using evaluator_failure [OF fx(1) assms(3)] by blast
  have new: "regions_wf new" "aligned ?fs new" using assms(2) by (auto simp: snapshot_ok_def)
  have size: "d = [] \<or> ?fs = length d" using fx(2) by auto
  show ?thesis
  proof (cases "memory s")
    case None
    then have "p \<noteq> ALL_P" using assms(4,5) by (auto simp: update_def)
    then have scan: "scan_regions enc ?ev (of_nat ?fs) d m new (results s) = Some (Inl f)"
      using assms(4,5) None by (auto simp: update_def Let_def prog_bind_def split: option.splits sum.splits)
    have "d \<noteq> []" using assms(4) None \<open>p \<noteq> ALL_P\<close> by (auto simp: check_can_update_def split: if_splits)
    then show ?thesis using scan_regions_fail [OF scan new fx(3) fails] size by blast
  next
    case (Some old)
    have old: "regions_wf old" "aligned ?fs old" "\<forall>a \<in> set (results s). cell_in ?fs old a"
      using assms(1) Some by (auto simp: search_inv_def snapshot_ok_def)
    show ?thesis
    proof (cases "results_valid s")
      case True
      then have "verify_results enc ?ev d (prev_size s) old new (results s) 0 0 = Inl f"
        using assms(4,5) Some by (auto simp: update_def Let_def split: sum.splits)
      then show ?thesis by (rule verify_results_fail [OF _ old(3) new old(1) fails size])
    next
      case False
      then have "scan_changed_regions enc ?ev (of_nat ?fs) d (prev_size s) old new 0 (results s) = Some (Inl f)"
        using assms(4,5) Some by (auto simp: update_def Let_def prog_bind_def split: option.splits sum.splits)
      then show ?thesis by (rule scan_changed_regions_fail [OF _ new fx(3) old(1,2) fails size])
    qed
  qed
qed

text \<open>
  C1. Every update of a search over values of a fixed size, of any such type and with any
  predicate, returns, and in one of three ways. It refuses the arguments with
  \<open>invalid_argument\<close>; or it yields a search whose results are again strictly ascending, whole,
  aligned cells of readable regions of the new snapshot, as the next update relies on; or, for
  the flag predicate on signed 32- and 64-bit types only, a comparison computes a signed
  overflow (C30). No update reads out of bounds, loops or breaks the order of the results.
\<close>

theorem update_outcomes:
  assumes "search_inv s" and "snapshot_ok (search_type s) new" and "search_type s \<noteq> DATA"
  shows "(\<exists>msg. update enc s new p d m = Some (Inl (Throw (Invalid_argument msg)))) \<or>
    (\<exists>s'. update enc s new p d m = Some (Inr s') \<and> search_inv s') \<or>
    (p = FLAG \<and> search_type s \<in> {INT32, INT32_RE, INT64, INT64_RE} \<and>
       update enc s new p d m = Some (Inl (Undefined Signed_overflow)))"
proof (cases "check_can_update s p d")
  case (Inl f)
  then have "\<exists>msg. f = Throw (Invalid_argument msg)"
    by (auto simp: check_can_update_def split: if_splits)
  with Inl show ?thesis by (auto simp: update_def)
next
  case (Inr u)
  then have ok: "check_can_update s p d = Inr ()" by simp
  obtain r where r: "update enc s new p d m = Some r" using update_returns [OF assms(1,2)] by blast
  show ?thesis
  proof (cases r)
    case (Inl f)
    then show ?thesis
      using update_failure [OF assms ok, of enc m f] r by (auto simp: flag_may_overflow_def)
  next
    case (Inr s')
    then show ?thesis using update_search_inv [OF assms(1,2)] r by blast
  qed
qed

end
