(* ===== verification/RefKernel.thy ===== *)
theory RefKernel
  imports AdapterProps
begin

unbundle bit_operations_syntax

text \<open>
  A small kernel that behaves as the Mach calls are documented, on a list of regions with
  their bytes and a suspend count. It instantiates the kernel parameter in the witnesses of
  the properties; nothing in the model depends on it.
\<close>

record ref_kernel =
  rk_regions :: "(u64 \<times> u64 \<times> basic_info \<times> byte list) list"
  rk_suspended :: nat

definition rw_info :: basic_info where
  "rw_info = \<lparr>info_protection = 3, info_max_protection = 7, info_inheritance = 0,
     info_shared = 0, info_reserved = 0, info_behavior = 0, info_user_wired_count = 0\<rparr>"

definition no_access_info :: basic_info where
  "no_access_info = rw_info\<lparr>info_protection := 0\<rparr>"

definition rk_find :: "ref_kernel \<Rightarrow> u64 \<Rightarrow> (u64 \<times> u64 \<times> basic_info \<times> byte list) option" where
  "rk_find k x = find (\<lambda>(a, s, _). x < a + s) (rk_regions k)"

definition rk_read :: "ref_kernel \<Rightarrow> u64 \<Rightarrow> u64 \<Rightarrow> kern_return \<times> byte list" where
  "rk_read k x n =
     (case find (\<lambda>(a, s, i, bs). a \<le> x \<and> unat (x - a) + unat n \<le> length bs \<and>
                   info_protection i AND VM_PROT_READ \<noteq> 0) (rk_regions k) of
        None \<Rightarrow> (1, [])
      | Some (a, s, i, bs) \<Rightarrow> (KERN_SUCCESS, take (unat n) (drop (unat (x - a)) bs)))"

definition rk_write :: "ref_kernel \<Rightarrow> u64 \<Rightarrow> byte list \<Rightarrow> kern_return \<times> ref_kernel" where
  "rk_write k x new =
     (let inside = (\<lambda>(a, s, i, bs). a \<le> x \<and> unat (x - a) + length new \<le> length bs \<and>
                      info_protection i AND VM_PROT_WRITE \<noteq> 0)
      in if list_ex inside (rk_regions k)
         then (KERN_SUCCESS, k\<lparr>rk_regions := map (\<lambda>(a, s, i, bs).
                 if inside (a, s, i, bs)
                 then (a, s, i, take (unat (x - a)) bs @ new @ drop (unat (x - a) + length new) bs)
                 else (a, s, i, bs)) (rk_regions k)\<rparr>)
         else (1, k))"

definition ref_mach :: "ref_kernel mach" where
  "ref_mach = \<lparr>
     task_for_pid = (\<lambda>k p. (KERN_SUCCESS, 7)),
     mach_vm_region = (\<lambda>k t x. case rk_find k x of
         Some (a, s, i, _) \<Rightarrow> (KERN_SUCCESS, a, s, i) | None \<Rightarrow> (1, x, 0, rw_info)),
     mach_vm_read_overwrite = (\<lambda>k t x n. rk_read k x n),
     mach_vm_write = (\<lambda>k t x bs. rk_write k x bs),
     mach_vm_protect = (\<lambda>k t x n p. (KERN_SUCCESS, k\<lparr>rk_regions :=
         map (\<lambda>(a, s, i, bs). (a, s, if a = x then i\<lparr>info_protection := p\<rparr> else i, bs)) (rk_regions k)\<rparr>)),
     vm_allocate = (\<lambda>k t x n b. (1, x, k)),
     vm_deallocate = (\<lambda>k t x n. (1, k)),
     task_suspend = (\<lambda>k t. (KERN_SUCCESS, k\<lparr>rk_suspended := rk_suspended k + 1\<rparr>)),
     task_resume = (\<lambda>k t. if rk_suspended k = 0 then (1, k)
         else (KERN_SUCCESS, k\<lparr>rk_suspended := rk_suspended k - 1\<rparr>)),
     task_terminate = (\<lambda>k t. (1, k)),
     task_threads = (\<lambda>k t. (1, [])),
     thread_terminate = (\<lambda>k t. (1, k))\<rparr>"

definition ref_phosg :: phosg where
  "ref_phosg = \<lparr>string_printf = (\<lambda>f _. f), split_string = (\<lambda>s c. [s]),
     skip_whitespace = (\<lambda>s n. n), skip_non_whitespace = (\<lambda>s n. length s),
     parse_data_string = (\<lambda>s. Inr ([], [])), format_data_string = (\<lambda>d m. []),
     format_size = (\<lambda>n. []), print_data = (\<lambda>d a prev flags. [])\<rparr>"

definition ref_adapter :: adapter where
  "ref_adapter = \<lparr>pid = 42, task = 7\<rparr>"

definition rk_table :: "ref_kernel \<Rightarrow> (u64 \<times> u64) list" where
  "rk_table k = map (\<lambda>(a, s, _). (a, s)) (rk_regions k)"

lemma find_map: "find P (map f xs) = map_option f (find (P \<circ> f) xs)"
  by (induction xs) auto

lemma rk_read_length: "rk_read k x n = (KERN_SUCCESS, bs) \<Longrightarrow> length bs = unat n"
  by (auto simp: rk_read_def KERN_SUCCESS_def find_Some_iff split: option.splits)

lemma ref_kernel_table: "table_kernel ref_mach t {k. rk_table k = tab} tab"
proof -
  have "case find (\<lambda>(a, s). x < a + s) (rk_table k) of
      Some (a, s) \<Rightarrow> \<exists>i. mach_vm_region ref_mach k t x = (KERN_SUCCESS, a, s, i)
    | None \<Rightarrow> fst (mach_vm_region ref_mach k t x) \<noteq> KERN_SUCCESS" for k x
  proof -
    have f: "(\<lambda>(a, s). x < a + s) \<circ> (\<lambda>(a, s, _ :: basic_info \<times> byte list). (a, s)) =
        (\<lambda>(a, s, _). x < a + s)"
      by auto
    show ?thesis
      by (auto simp: rk_table_def find_map f ref_mach_def rk_find_def KERN_SUCCESS_def
          split: option.split)
  qed
  moreover have "rk_table (snd (mach_vm_protect ref_mach k t x n p)) = rk_table k" for k x n p
    by (simp add: rk_table_def ref_mach_def case_prod_beta comp_def)
  moreover have "mach_vm_read_overwrite ref_mach k t x n = (KERN_SUCCESS, bs) \<Longrightarrow> length bs = unat n"
    for k x n bs
    by (simp add: ref_mach_def rk_read_length)
  ultimately show ?thesis unfolding table_kernel_def by auto
qed

lemma ref_kernel_counted: "suspend_counted ref_mach t rk_suspended"
  by (simp add: suspend_counted_def ref_mach_def KERN_SUCCESS_def)

text \<open>A task with two regions of eight bytes, the second without access.\<close>

definition two_regions :: ref_kernel where
  "two_regions = \<lparr>rk_regions = [(4096, 8, rw_info, [1, 2, 3, 4, 5, 6, 7, 8]),
     (8192, 8, no_access_info, [9, 9, 9, 9, 9, 9, 9, 9])], rk_suspended = 0\<rparr>"

lemma two_regions_table: "rk_table two_regions = [(4096, 8), (8192, 8)]"
  by (simp add: rk_table_def two_regions_def)

lemma two_regions_wf: "table_wf [(4096, 8), (8192, 8)]"
  by (simp add: table_wf_def)

theorem get_all_regions_complete_witness:
  "\<exists>rs k'. get_all_regions ref_mach ref_phosg ref_adapter True two_regions = Some (Inr rs, k') \<and>
     map extent rs = [(4096, 8), (8192, 8)] \<and> regions_wf rs"
  using get_all_regions_complete [OF ref_kernel_table two_regions_wf, of two_regions ref_phosg
      ref_adapter True] two_regions_table
  by auto

theorem get_target_regions_covers_witness:
  "\<exists>rs extra k'. get_target_regions ref_mach ref_phosg ref_adapter (Some 0) [4100] True two_regions
       = Some (Inr rs, k') \<and>
     map extent rs = (4096, 8) # extra \<and> length extra \<le> 1 \<and> regions_wf rs"
  using get_target_regions_covers [OF ref_kernel_table two_regions_wf, of two_regions "[4100]"
      ref_phosg ref_adapter 0 True] two_regions_table
  by (auto simp: hit_def)

theorem get_target_regions_derefs_end_iff_witness:
  "\<exists>k'. get_target_regions ref_mach ref_phosg ref_adapter None [4100] True two_regions
     = Some (Inl (Undefined Past_end), k')"
  using get_target_regions_derefs_end_iff [OF ref_kernel_table two_regions_wf, of two_regions
      ref_phosg ref_adapter "[4100]" True] two_regions_table
  by simp

theorem set_protection_changes_masked_bits_witness:
  "\<exists>p. (\<forall>j < 32. bit p j = (if j < 3 \<and> bit (7::byte) j then bit (1::byte) j else bit (0::32 word) j)) \<and>
     snd (set_protection ref_mach ref_phosg ref_adapter 8192 0 1 7 two_regions) =
       snd (mach_vm_protect ref_mach two_regions 7 8192 8 p)"
proof -
  have "mach_vm_region ref_mach two_regions (task ref_adapter) 8192 =
      (KERN_SUCCESS, 8192, 8, no_access_info)"
    by (simp add: ref_mach_def rk_find_def two_regions_def)
  moreover have "info_protection no_access_info = 0" "task ref_adapter = 7"
    by (simp_all add: no_access_info_def ref_adapter_def)
  ultimately show ?thesis
    using set_protection_changes_masked_bits [of ref_mach two_regions ref_adapter 8192 8192 8
        no_access_info 7 1 ref_phosg 0]
    by (simp only:)
qed

text \<open>A region that is readable once its protection allows it, but holds fewer bytes than its size.\<close>

definition short_region :: region where
  "short_region = region_of_info 4096 9 no_access_info"

definition short_kernel :: ref_kernel where
  "short_kernel = \<lparr>rk_regions = [(4096, 9, no_access_info, [1])], rk_suspended = 0\<rparr>"

theorem failed_read_leaves_region_readable_witness:
  "\<exists>k1. try_read_region ref_mach ref_phosg ref_adapter short_region short_kernel =
       (Inr short_region, k1) \<and>
     map (\<lambda>(_, _, i, _). info_protection i) (rk_regions k1) = [1]"
proof -
  let ?k1 = "short_kernel\<lparr>rk_regions := [(4096, 9, no_access_info\<lparr>info_protection := 1\<rparr>, [1])]\<rparr>"
  have p: "protection short_region AND READABLE = 0"
    by (simp add: short_region_def region_of_info_def no_access_info_def rw_info_def
        prot_of_info_def protection_defs)
  have set: "set_protection ref_mach ref_phosg ref_adapter (region_addr short_region)
      (region_size short_region) (protection short_region OR READABLE) ALL_ACCESS short_kernel
      = (Inr (), ?k1)"
    by (simp add: set_protection_def ref_mach_def rk_find_def short_kernel_def short_region_def
        region_of_info_def no_access_info_def rw_info_def prot_of_info_def new_protection_def
        protection_defs KERN_SUCCESS_def)
  have read: "fst (mach_vm_read_overwrite ref_mach ?k1 (task ref_adapter)
      (region_addr short_region) (region_size short_region)) \<noteq> KERN_SUCCESS"
    by (simp add: ref_mach_def rk_read_def short_kernel_def short_region_def region_of_info_def
        KERN_SUCCESS_def)
  show ?thesis
    using failed_read_leaves_region_readable [OF p set read] by simp
qed

theorem pause_guard_balanced_witness:
  "\<exists>k'. with_pause_guard ref_mach ref_phosg (Some ref_adapter)
       (\<lambda>k. Some (Inl (Throw (Runtime_error ''x'')) :: unit res, k)) two_regions =
       Some (Inl (Throw (Runtime_error ''x'')), k') \<and> rk_suspended k' = 0"
proof -
  let ?body = "\<lambda>k::ref_kernel. Some (Inl (Throw (Runtime_error ''x'')) :: unit res, k)"
  have run: "with_pause_guard ref_mach ref_phosg (Some ref_adapter) ?body two_regions =
      Some (Inl (Throw (Runtime_error ''x'')), two_regions\<lparr>rk_suspended := 0\<rparr>)"
    by (simp add: with_pause_guard_def pause_def resume_def ref_mach_def two_regions_def
        KERN_SUCCESS_def)
  have "rk_suspended (two_regions\<lparr>rk_suspended := 0\<rparr>) = rk_suspended two_regions \<and>
      (Inl (Throw (Runtime_error ''x'')) :: unit res) \<noteq> Inl Terminate"
    by (rule pause_guard_balanced [OF _ _ run, where count = rk_suspended])
      (auto simp: ref_kernel_counted)
  with run show ?thesis by (auto simp: two_regions_def)
qed

end
