(* ===== verification/SearchWitness.thy ===== *)
theory SearchWitness
  imports SearchOutcome RefKernel
begin

text \<open>
  Concrete searches over small snapshots: each property of the search is applied to inputs on
  which its hypotheses hold.
\<close>

definition cells :: "u64 \<Rightarrow> byte list \<Rightarrow> region" where
  "cells a bs = (region_of_info a (of_nat (length bs)) rw_info)\<lparr>region_data := bs\<rparr>"

lemma cells_simps [simp]:
  "region_addr (cells a bs) = a" "region_size (cells a bs) = of_nat (length bs)"
  "region_data (cells a bs) = bs"
  by (simp_all add: cells_def region_of_info_def)

lemma cells_end [simp]: "end_addr (cells a bs) = a + of_nat (length bs)"
  by (simp add: end_addr_def)

definition old_snap :: "region list" where
  "old_snap = [cells 4096 [1, 2, 1, 3], cells 4200 [1, 9]]"

definition new_snap :: "region list" where
  "new_snap = [cells 4096 [1, 5, 1, 7], cells 4200 [1, 1]]"

lemma snaps_ok:
  "regions_wf old_snap" "regions_wf new_snap"
  "aligned (field_size UINT8) old_snap" "aligned (field_size UINT8) new_snap"
  by (simp_all add: old_snap_def new_snap_def regions_wf_def region_wf_def field_size_eq
      value_size_for_search_type_def)

lemma snapshots_ok: "snapshot_ok UINT8 old_snap" "snapshot_ok UINT8 new_snap"
  by (simp_all add: snapshot_ok_def snaps_ok)

definition u8_search :: memory_search where
  "u8_search = new_memory_search UINT8 False"

lemma u8_search_simps [simp]:
  "search_type u8_search = UINT8" "memory u8_search = None" "results u8_search = []"
  "results_valid u8_search = False" "prev_size u8_search = 0"
  by (simp_all add: u8_search_def new_memory_search_def)

lemma u8_check [simp]:
  "search_type s = UINT8 \<Longrightarrow> memory s \<noteq> None \<or> d \<noteq> [] \<Longrightarrow> d = [] \<or> length d = 1 \<Longrightarrow>
     p \<in> {EQUAL, GREATER} \<Longrightarrow> check_can_update s p d = Inr ()"
  by (auto simp: check_can_update_def evaluator_for_relop value_size_for_search_type_def)

lemma u8_field [simp]: "field_size UINT8 = 1"
  by (simp add: field_size_eq value_size_for_search_type_def)

lemma u8_equal [simp]:
  "run_evaluator enc (the (evaluator_for UINT8 EQUAL)) (a # as) (b # bs) n = Inr (a = b)"
  by (simp add: evaluator_for_relop relational_entry_def load2_def load_def is_float_def
      is_reverse_endian_search_type_def word_unat_eq_iff)

lemma upts [simp]: "[0..<3] = [0, 1, 2::nat]" "[0..<Suc 0] = [0::nat]"
    "[0..<4] = [0, 1, 2, 3::nat]" "[0..<2] = [0, 1::nat]"
  by (simp_all add: upt_rec)

lemmas scan_eval =
  known_hits_def changed_hits_def cell_matches_def changed_matches_def cell_addr_def at_offset_def

theorem first_search_finds_witness:
  "\<exists>s'. update reference_encoding u8_search old_snap EQUAL [1] 10 = Some (Inr s') \<and>
     results s' = [4096, 4098, 4200]"
proof -
  have "take 10 (concat (map (known_hits reference_encoding (the (evaluator_for UINT8 EQUAL))
      (field_size UINT8) [1] 0) old_snap)) = [4096, 4098, 4200]"
    by (simp add: old_snap_def scan_eval)
  then show ?thesis
    using first_search_finds [of u8_search EQUAL "[1]" old_snap reference_encoding 10] snaps_ok(1)
    by (simp add: flag_may_overflow_def old_snap_def)
qed

theorem first_search_misses_last_cell_witness:
  "\<exists>s'. update reference_encoding u8_search [cells 4096 [1, 1]] EQUAL [1] 10 = Some (Inr s') \<and>
     4097 \<notin> set (results s')"
  using first_search_misses_last_cell [of u8_search EQUAL "[1]" "[cells 4096 [1, 1]]"
      "cells 4096 [1, 1]" reference_encoding 10]
  by (simp add: flag_may_overflow_def regions_wf_def region_wf_def cell_addr_def)

theorem first_search_small_region_overruns_witness:
  "update reference_encoding (new_memory_search DATA False) [cells 4096 [1]] EQUAL [1, 2, 3] 10
     = Some (Inl (Undefined Past_buffer))"
  using first_search_small_region_overruns [of "new_memory_search DATA False" EQUAL EQ "[1, 2, 3]" 10
      "cells 4096 [1]" reference_encoding "[]"]
  by (simp add: new_memory_search_def region_wf_def)

definition u8_snapshot :: memory_search where
  "u8_snapshot = u8_search\<lparr>memory := Some old_snap\<rparr>"

theorem second_search_finds_witness:
  "\<exists>s'. update reference_encoding u8_snapshot new_snap EQUAL [] 10 = Some (Inr s') \<and>
     results s' = [4096, 4098, 4200]"
proof -
  have "concat (map (changed_hits reference_encoding (the (evaluator_for UINT8 EQUAL))
      (field_size UINT8) [] 0 old_snap 0) new_snap) = [4096, 4098, 4200]"
    by (simp add: old_snap_def new_snap_def scan_eval contains_data_def contains_def)
  then show ?thesis
    using second_search_finds [of u8_snapshot old_snap EQUAL "[]" new_snap reference_encoding 10] snaps_ok
    by (simp add: flag_may_overflow_def u8_snapshot_def)
qed

definition u8_found :: memory_search where
  "u8_found = u8_search\<lparr>memory := Some old_snap, results := [4096, 4097, 4200], results_valid := True\<rparr>"

lemma u8_found_inv: "search_inv u8_found"
  using snapshots_ok
  by (simp add: search_inv_def u8_found_def cell_in_def old_snap_def contains_def)

theorem narrowing_filters_witness:
  "\<exists>s'. update reference_encoding u8_found new_snap EQUAL [] 10 = Some (Inr s') \<and>
     results s' = [4096, 4200]"
proof -
  have "filter (\<lambda>a. a \<noteq> 0 \<and> still_matches reference_encoding (the (evaluator_for UINT8 EQUAL)) []
      0 old_snap new_snap a) [4096, 4097, 4200] = [4096, 4200]"
    by (simp add: old_snap_def new_snap_def scan_eval still_matches_def contains_data_def contains_def)
  then show ?thesis
    using narrowing_filters [of u8_found old_snap EQUAL "[]" new_snap reference_encoding 10]
      u8_found_inv snapshots_ok
    by (simp add: flag_may_overflow_def u8_found_def)
qed

theorem delete_results_removes_range_witness:
  "\<exists>s'. delete_results u8_found 4097 4199 = Inr s' \<and> results s' = [4096, 4200]"
  using delete_results_removes_range [of u8_found 4097 4199]
  by (simp add: u8_found_def)

theorem delete_results_to_top_wraps_witness:
  "delete_results u8_found 4097 (- 1) = Inl (Undefined Bad_erase)"
  using delete_results_to_top_wraps [of u8_found 4097]
  by (simp add: u8_found_def)

theorem update_outcomes_witness:
  "\<exists>s'. update reference_encoding u8_found new_snap GREATER [] 10 = Some (Inr s') \<and> search_inv s'"
proof -
  have "check_can_update u8_found GREATER [] = Inr ()"
    by (simp add: u8_found_def)
  then show ?thesis
    using update_outcomes [of u8_found new_snap reference_encoding GREATER "[]" 10]
      u8_found_inv snapshots_ok narrowing_inv [of u8_found old_snap GREATER "[]" new_snap]
    by (simp add: flag_may_overflow_def u8_found_def)
qed

theorem reachable_results_in_snapshot_witness:
  "\<exists>s. reachable reference_encoding s \<and> results s = [4096] \<and>
     (\<exists>snap. memory s = Some snap \<and> (\<exists>r \<in> set snap. contains 4096 r))"
proof -
  let ?snap = "[cells 4096 [1, 2]]"
  let ?s = "u8_search\<lparr>results := [4096], results_valid := True, prev_size := 1, memory := Some ?snap\<rparr>"
  have ok: "snapshot_ok UINT8 ?snap"
    by (simp add: snapshot_ok_def regions_wf_def region_wf_def aligned_def)
  have "update reference_encoding u8_search ?snap EQUAL [1] 10 = Some (Inr ?s)"
    by (simp add: update_def Let_def scan_region.simps load_def load2_def at_offset_def
        evaluator_for_relop relational_entry_def is_float_def is_reverse_endian_search_type_def)
  then have "search_step reference_encoding u8_search ?s"
    using ok by (intro search_step.update) (auto simp: flag_may_overflow_def)
  then have r: "reachable reference_encoding ?s"
    using reachable.new [of reference_encoding UINT8 False] reachable.step
    by (auto simp: u8_search_def)
  then have "\<exists>snap. memory ?s = Some snap \<and> (\<exists>r \<in> set snap. contains 4096 r)"
    using reachable_results_in_snapshot [OF r] by (auto simp: has_valid_results_def)
  with r show ?thesis by auto
qed

definition data_found :: memory_search where
  "data_found = \<lparr>search_type = DATA, results_valid = True, all_memory = False,
     memory = Some old_snap, prev_size = 0, results = [4096, 4097], annotation = []\<rparr>"

theorem data_search_forgets_size_witness:
  "\<exists>s'. update reference_encoding data_found new_snap EQUAL [] 10 = Some (Inr s') \<and>
     results s' = [4096, 4097]"
proof -
  have "filter (\<lambda>a. a \<noteq> 0 \<and> (\<exists>r \<in> set new_snap. contains_data a r)) [4096, 4097] = [4096, 4097]"
    by (simp add: new_snap_def contains_data_def contains_def)
  then show ?thesis
    using data_search_forgets_size [of data_found old_snap new_snap reference_encoding 10] snaps_ok(1,2)
    by (simp add: data_found_def cell_in_def old_snap_def contains_def)
qed

theorem reverse_signed_order_inverted_witness:
  "run_evaluator reference_encoding (the (evaluator_for INT16_RE LESS)) [255, 255] [0, 1] 2 = Inr False"
  using reverse_signed_order_inverted [OF reference_encoding_ok, of INT16_RE 2 "[255, 255]" "[0, 1]"]
  by (simp add: value_size_for_search_type_def signed_take_bit_eq_take_bit_minus)

end
