(* ===== verification/OrderedMap.thy ===== *)
theory OrderedMap
  imports Prelude
begin

text \<open>
  \<open>std::map\<close> as an association list in strictly ascending key order, which is the order its
  iterators give, and the multimaps (\<open>std::unordered_multimap\<close>) as association lists with
  duplicates, whose order carries no meaning.
\<close>

section \<open>Ordered maps\<close>

definition omap_ok :: "('k::linorder \<times> 'v) list \<Rightarrow> bool" where
  "omap_ok m \<longleftrightarrow> sorted_wrt (<) (map fst m)"

text \<open>\<open>emplace\<close> does nothing when the key is present.\<close>

fun omap_emplace :: "'k::linorder \<Rightarrow> 'v \<Rightarrow> ('k \<times> 'v) list \<Rightarrow> ('k \<times> 'v) list" where
  "omap_emplace k v [] = [(k, v)]"
| "omap_emplace k v ((k', v') # m) =
     (if k < k' then (k, v) # (k', v') # m
      else if k = k' then (k', v') # m
      else (k', v') # omap_emplace k v m)"

definition omap_erase :: "'k \<Rightarrow> ('k \<times> 'v) list \<Rightarrow> ('k \<times> 'v) list" where
  "omap_erase k m = filter (\<lambda>(k', _). k' \<noteq> k) m"

text \<open>Assignment to the mapped value of a key, through a reference into the map.\<close>

definition omap_modify :: "'k \<Rightarrow> ('v \<Rightarrow> 'v) \<Rightarrow> ('k \<times> 'v) list \<Rightarrow> ('k \<times> 'v) list" where
  "omap_modify k f m = map (\<lambda>(k', v). (k', if k' = k then f v else v)) m"

lemma omap_ok_simps [simp]:
  "omap_ok []"
  "omap_ok ((k, v) # m) \<longleftrightarrow> omap_ok m \<and> (\<forall>k' \<in> fst ` set m. k < k')"
  by (auto simp: omap_ok_def)

lemma keys_emplace [simp]: "fst ` set (omap_emplace k v m) = insert k (fst ` set m)"
  by (induction k v m rule: omap_emplace.induct) auto

lemma omap_ok_emplace [simp]: "omap_ok m \<Longrightarrow> omap_ok (omap_emplace k v m)"
  by (induction k v m rule: omap_emplace.induct) auto

lemma omap_ok_erase [simp]: "omap_ok m \<Longrightarrow> omap_ok (omap_erase k m)"
  by (induction m) (auto simp: omap_erase_def)

lemma keys_modify [simp]: "map fst (omap_modify k f m) = map fst m"
  by (induction m) (auto simp: omap_modify_def)

lemma omap_ok_modify [simp]: "omap_ok (omap_modify k f m) \<longleftrightarrow> omap_ok m"
  by (simp add: omap_ok_def)

lemma omap_emplace_last:
  "\<forall>k' \<in> fst ` set m. k' < k \<Longrightarrow> omap_emplace k v m = m @ [(k, v)]"
  by (induction m) auto

lemma omap_ok_distinct: "omap_ok m \<Longrightarrow> distinct (map fst m)"
  by (simp add: omap_ok_def strict_sorted_iff)

text \<open>
  The contract of a map that the components above rely on, whatever its representation.
\<close>

locale finite_map =
  fixes ok :: "'m \<Rightarrow> bool"
    and lookup :: "'m \<Rightarrow> 'k \<Rightarrow> 'v option"
    and emplace :: "'k \<Rightarrow> 'v \<Rightarrow> 'm \<Rightarrow> 'm"
    and erase :: "'k \<Rightarrow> 'm \<Rightarrow> 'm"
    and modify :: "'k \<Rightarrow> ('v \<Rightarrow> 'v) \<Rightarrow> 'm \<Rightarrow> 'm"
  assumes ok_emplace: "ok m \<Longrightarrow> ok (emplace k v m)"
    and ok_erase: "ok m \<Longrightarrow> ok (erase k m)"
    and ok_modify: "ok m \<Longrightarrow> ok (modify k f m)"
    and lookup_emplace:
      "ok m \<Longrightarrow> lookup (emplace k v m) k' =
         (if k' = k \<and> lookup m k = None then Some v else lookup m k')"
    and lookup_erase: "ok m \<Longrightarrow> lookup (erase k m) k' = (if k' = k then None else lookup m k')"
    and lookup_modify:
      "ok m \<Longrightarrow> lookup (modify k f m) k' = (if k' = k then map_option f (lookup m k) else lookup m k')"
begin

text \<open>\<open>erase\<close> followed by \<open>emplace\<close>: how the program replaces an entry.\<close>

lemma lookup_replace: "ok m \<Longrightarrow> lookup (emplace k v (erase k m)) k' = (if k' = k then Some v else lookup m k')"
  by (simp add: lookup_emplace lookup_erase ok_erase)

lemma ok_replace: "ok m \<Longrightarrow> ok (emplace k v (erase k m))"
  by (simp add: ok_emplace ok_erase)

end

lemma map_of_emplace:
  "omap_ok m \<Longrightarrow> map_of (omap_emplace k v m) k' =
     (if k' = k \<and> map_of m k = None then Some v else map_of m k')"
proof (induction m)
  case (Cons x m)
  obtain k1 v1 where x: "x = (k1, v1)" by (cases x)
  have "map_of m k = None" if "k < k1"
    using Cons.prems that x by (auto simp: map_of_eq_None_iff)
  then show ?case using Cons x by auto
qed simp

interpretation om: finite_map omap_ok map_of omap_emplace omap_erase omap_modify
proof
  show "map_of (omap_erase k m) k' = (if k' = k then None else map_of m k')" for k k' and m :: "('a \<times> 'b) list"
    by (induction m) (auto simp: omap_erase_def)
  show "map_of (omap_modify k f m) k' = (if k' = k then map_option f (map_of m k) else map_of m k')"
    for k k' f and m :: "('a \<times> 'b) list"
    by (induction m) (auto simp: omap_modify_def)
qed (simp_all add: map_of_emplace)

section \<open>Multimaps\<close>

text \<open>The values in \<open>equal_range(k)\<close>, and \<open>erase\<close> of that whole range.\<close>

definition equal_range :: "'k \<Rightarrow> ('k \<times> 'v) list \<Rightarrow> 'v list" where
  "equal_range k m = map snd (filter (\<lambda>(k', _). k' = k) m)"

definition multi_emplace :: "'k \<Rightarrow> 'v \<Rightarrow> ('k \<times> 'v) list \<Rightarrow> ('k \<times> 'v) list" where
  "multi_emplace k v m = m @ [(k, v)]"

definition multi_erase :: "'k \<Rightarrow> ('k \<times> 'v) list \<Rightarrow> ('k \<times> 'v) list" where
  "multi_erase k m = filter (\<lambda>(k', _). k' \<noteq> k) m"

definition erase_by_value :: "('k \<times> 'v) list \<Rightarrow> 'k \<Rightarrow> 'v \<Rightarrow> ('k \<times> 'v) list" where
  "erase_by_value m k v = filter (\<lambda>(k', v'). \<not> (k' = k \<and> v' = v)) m"

lemma set_multimap [simp]:
  "set (equal_range k m) = {v. (k, v) \<in> set m}"
  "set (multi_erase k m) = {x \<in> set m. fst x \<noteq> k}"
  "set (erase_by_value m k v) = set m - {(k, v)}"
  by (auto simp: equal_range_def multi_erase_def erase_by_value_def image_iff)

lemma distinct_multimap [simp]:
  "distinct m \<Longrightarrow> distinct (multi_erase k m)"
  "distinct m \<Longrightarrow> distinct (erase_by_value m k v)"
  by (simp_all add: multi_erase_def erase_by_value_def)

lemma distinct_equal_range: "distinct m \<Longrightarrow> distinct (equal_range k m)"
  by (induction m) (auto simp: equal_range_def)

end
