(* ===== verification/StdText.thy ===== *)
theory StdText
  imports Prelude
begin

text \<open>
  The part of the C and C++ standard libraries' text conversions that the program uses:
  \<open>printf\<close> of unsigned numbers (\<open>%zu\<close>, \<open>%4llu\<close>, \<open>%016llX\<close>) and \<open>%s\<close>, and the parsers \<open>stoull\<close>,
  \<open>stoll\<close>, \<open>stoi\<close> and \<open>strtoull\<close> with their bases, error cases and end positions.
\<close>

section \<open>Printing\<close>

definition digit_char :: "nat \<Rightarrow> char" where
  "digit_char d = (if d < 10 then char_of (48 + d) else char_of (55 + d))"

fun to_base :: "nat \<Rightarrow> nat \<Rightarrow> string" where
  "to_base b n = (if b < 2 \<or> n < b then [digit_char n] else to_base b (n div b) @ [digit_char (n mod b)])"

declare to_base.simps [simp del]

definition pad_left :: "nat \<Rightarrow> char \<Rightarrow> string \<Rightarrow> string" where
  "pad_left w c s = replicate (w - length s) c @ s"

text \<open>\<open>%016llX\<close> (and \<open>%016zX\<close>), \<open>%zu\<close>, and \<open>%4llu\<close>.\<close>

definition hex016 :: "u64 \<Rightarrow> string" where
  "hex016 v = pad_left 16 (CHR ''0'') (to_base 16 (unat v))"

definition dec :: "nat \<Rightarrow> string" where
  "dec n = to_base 10 n"

definition dec4 :: "nat \<Rightarrow> string" where
  "dec4 n = pad_left 4 (CHR '' '') (to_base 10 n)"

text \<open>\<open>%s\<close> of \<open>s.c_str()\<close>: up to the first NUL.\<close>

definition c_str :: "string \<Rightarrow> string" where
  "c_str s = takeWhile (\<lambda>c. c \<noteq> CHR 0x00) s"

section \<open>Parsing\<close>

definition is_space :: "char \<Rightarrow> bool" where
  "is_space c \<longleftrightarrow> c = CHR '' '' \<or> (9 \<le> (of_char c :: nat) \<and> (of_char c :: nat) \<le> 13)"

definition digit_value :: "char \<Rightarrow> nat option" where
  "digit_value c =
     (let n = of_char c :: nat
      in if 48 \<le> n \<and> n \<le> 57 then Some (n - 48)
         else if 65 \<le> n \<and> n \<le> 90 then Some (n - 55)
         else if 97 \<le> n \<and> n \<le> 122 then Some (n - 87)
         else None)"

definition is_digit :: "nat \<Rightarrow> char \<Rightarrow> bool" where
  "is_digit b c = (case digit_value c of None \<Rightarrow> False | Some d \<Rightarrow> d < b)"

definition of_digits :: "nat \<Rightarrow> string \<Rightarrow> nat" where
  "of_digits b s = foldl (\<lambda>v c. b * v + the (digit_value c)) 0 s"

text \<open>A \<open>0x\<close> prefix counts only when a hexadecimal digit follows.\<close>

fun hex_prefixed :: "string \<Rightarrow> bool" where
  "hex_prefixed (z # x # c # s) = (z = CHR ''0'' \<and> (x = CHR ''x'' \<or> x = CHR ''X'') \<and> is_digit 16 c)"
| "hex_prefixed _ = False"

text \<open>
  The subject sequence of \<open>strtoull\<close>: white space, a sign, a prefix and digits. The result is
  the sign, the magnitude and the number of characters used, or \<open>None\<close> when there is no digit.
\<close>

definition parse_number :: "nat \<Rightarrow> string \<Rightarrow> (bool \<times> nat \<times> nat) option" where
  "parse_number base s =
     (let spaces = length (takeWhile is_space s);
          s1 = drop spaces s;
          signed = (s1 \<noteq> [] \<and> (hd s1 = CHR ''+'' \<or> hd s1 = CHR ''-''));
          neg = (s1 \<noteq> [] \<and> hd s1 = CHR ''-'');
          s2 = (if signed then tl s1 else s1);
          prefixed = ((base = 0 \<or> base = 16) \<and> hex_prefixed s2);
          b = (if prefixed then 16
               else if base = 0 then (if s2 \<noteq> [] \<and> hd s2 = CHR ''0'' then 8 else 10)
               else base);
          s3 = (if prefixed then drop 2 s2 else s2);
          ds = takeWhile (is_digit b) s3
      in if ds = [] then None
         else Some (neg, of_digits b ds,
                spaces + (if signed then 1 else 0) + (if prefixed then 2 else 0) + length ds))"

definition stoull :: "string \<Rightarrow> nat \<Rightarrow> (u64 \<times> nat) res" where
  "stoull s base =
     (case parse_number base s of
        None \<Rightarrow> Inl (Throw (Invalid_argument ''stoull: no conversion''))
      | Some (neg, v, pos) \<Rightarrow>
          if 2 ^ 64 \<le> v then Inl (Throw (Out_of_range ''stoull: out of range''))
          else Inr (if neg then - of_nat v else of_nat v, pos))"

definition signed_value :: "bool \<Rightarrow> nat \<Rightarrow> int" where
  "signed_value neg v = (if neg then - int v else int v)"

definition stoll :: "string \<Rightarrow> nat \<Rightarrow> int res" where
  "stoll s base =
     (case parse_number base s of
        None \<Rightarrow> Inl (Throw (Invalid_argument ''stoll: no conversion''))
      | Some (neg, v, _) \<Rightarrow>
          if signed_value neg v < - (2 ^ 63) \<or> 2 ^ 63 \<le> signed_value neg v
          then Inl (Throw (Out_of_range ''stoll: out of range''))
          else Inr (signed_value neg v))"

definition stoi :: "string \<Rightarrow> int res" where
  "stoi s =
     (case parse_number 10 s of
        None \<Rightarrow> Inl (Throw (Invalid_argument ''stoi: no conversion''))
      | Some (neg, v, _) \<Rightarrow>
          if signed_value neg v < - (2 ^ 31) \<or> 2 ^ 31 \<le> signed_value neg v
          then Inl (Throw (Out_of_range ''stoi: out of range''))
          else Inr (signed_value neg v))"

text \<open>\<open>strtoull(s, &end, 0)\<close>: the value, saturated, and how much was used.\<close>

definition strtoull :: "string \<Rightarrow> nat \<Rightarrow> u64 \<times> nat" where
  "strtoull s base =
     (case parse_number base s of
        None \<Rightarrow> (0, 0)
      | Some (neg, v, pos) \<Rightarrow>
          (if 2 ^ 64 \<le> v then - 1 else if neg then - of_nat v else of_nat v, pos))"

section \<open>Printed numbers are read back\<close>

lemma digit_value_char: "d < 36 \<Longrightarrow> digit_value (digit_char d) = Some d"
  by (auto simp: digit_value_def digit_char_def Let_def of_char_of)

lemma is_digit_char: "d < b \<Longrightarrow> b \<le> 36 \<Longrightarrow> is_digit b (digit_char d)"
  by (simp add: is_digit_def digit_value_char)

lemma of_digits_append: "of_digits b (s @ [c]) = b * of_digits b s + the (digit_value c)"
  by (simp add: of_digits_def)

lemma to_base_digits:
  assumes "2 \<le> b" and "b \<le> 36"
  shows "of_digits b (to_base b n) = n \<and> (\<forall>c \<in> set (to_base b n). is_digit b c) \<and> to_base b n \<noteq> []"
proof (induction n rule: less_induct)
  case (less n)
  show ?case
  proof (cases "n < b")
    case True
    then show ?thesis
      using assms by (simp add: to_base.simps [of b n] of_digits_def digit_value_char is_digit_char)
  next
    case False
    then have "n div b < n" using assms by (intro div_less_dividend) auto
    moreover have "n mod b < b" "n mod b < 36" using assms by (simp_all add: order_less_le_trans [of _ b])
    ultimately show ?thesis
      using less [of "n div b"] False assms
      by (simp add: to_base.simps [of b n] of_digits_append digit_value_char is_digit_char)
  qed
qed

lemma of_digits_zeros: "of_digits b (replicate k (CHR ''0'') @ s) = of_digits b s"
proof -
  have "digit_value (CHR ''0'') = Some 0" by code_simp
  then have "foldl (\<lambda>v c. b * v + the (digit_value c)) 0 (replicate k (CHR ''0'')) = 0"
    by (induction k) auto
  then show ?thesis by (simp add: of_digits_def)
qed

lemma length_to_base: "2 \<le> b \<Longrightarrow> n < b ^ k \<Longrightarrow> 0 < k \<Longrightarrow> length (to_base b n) \<le> k"
proof (induction k arbitrary: n)
  case (Suc k)
  show ?case
  proof (cases "n < b")
    case True
    then show ?thesis by (simp add: to_base.simps [of b n])
  next
    case False
    then have "0 < k" using Suc.prems by (cases k) auto
    moreover have "n div b < b ^ k"
      using Suc.prems by (simp add: less_mult_imp_div_less mult.commute)
    ultimately show ?thesis
      using Suc False by (simp add: to_base.simps [of b n])
  qed
qed simp

lemma hex016_digits:
  "of_digits 16 (hex016 v) = unat v" "\<forall>c \<in> set (hex016 v). is_digit 16 c" "length (hex016 v) = 16"
proof -
  note d = to_base_digits [of 16 "unat v"]
  have "unat v < 16 ^ 16" using unsigned_less [of v] by simp
  then have "length (to_base 16 (unat v)) \<le> 16" by (intro length_to_base) auto
  then show "length (hex016 v) = 16" by (simp add: hex016_def pad_left_def)
  show "of_digits 16 (hex016 v) = unat v"
    using d by (simp add: hex016_def pad_left_def of_digits_zeros)
  have "is_digit 16 (CHR ''0'')" by code_simp
  then show "\<forall>c \<in> set (hex016 v). is_digit 16 c"
    using d by (auto simp: hex016_def pad_left_def)
qed

lemma digit_not_special:
  "is_digit 16 c \<Longrightarrow> \<not> is_space c \<and> c \<notin> {CHR ''+'', CHR ''-'', CHR ''x'', CHR ''X'', CHR ''s'', CHR ''t'',
     CHR '' '', CHR ''@''}"
  by (auto simp: is_digit_def digit_value_def is_space_def Let_def split: if_splits)

text \<open>Digits of base 10 or 16 at the front of a string are all that is read.\<close>

lemma parse_number_digits:
  assumes "b = 10 \<or> b = 16" and "ds \<noteq> []" and "\<forall>c \<in> set ds. is_digit b c"
    and "b = 16 \<Longrightarrow> \<not> hex_prefixed (ds @ rest)" and "rest = [] \<or> \<not> is_digit b (hd rest)"
  shows "parse_number b (ds @ rest) = Some (False, of_digits b ds, length ds)"
proof -
  have hd: "is_digit 16 (hd ds)"
    using assms(1,2,3) by (cases ds) (auto simp: is_digit_def split: option.splits)
  note special = digit_not_special [OF hd]
  have sp: "takeWhile is_space (ds @ rest) = []"
    using special assms(2) by (cases ds) auto
  have tw: "takeWhile (is_digit b) (ds @ rest) = ds"
    using assms(3,5) by (cases rest) (auto simp: takeWhile_append)
  have unprefixed: "(b = 16 \<and> hex_prefixed (ds @ rest)) = False" "b \<noteq> 0"
    using assms(1,4) by auto
  have signs: "(hd (ds @ rest) = CHR ''+'') = False" "(hd (ds @ rest) = CHR ''-'') = False"
    using special assms(2) by auto
  show ?thesis
    unfolding parse_number_def Let_def sp list.size drop_0 signs simp_thms if_False
    using assms(2) by (simp add: tw unprefixed)
qed

lemma hex_prefixed_digits: "\<forall>c \<in> set ds. is_digit 16 c \<Longrightarrow> 2 \<le> length ds \<Longrightarrow> \<not> hex_prefixed (ds @ rest)"
proof -
  assume ds: "\<forall>c \<in> set ds. is_digit 16 c" "2 \<le> length ds"
  then obtain x y zs where d: "ds = x # y # zs" by (metis Suc_le_length_iff numeral_2_eq_2)
  then have "y \<noteq> CHR ''x'' \<and> y \<noteq> CHR ''X''" using digit_not_special [of y] ds(1) by force
  then show ?thesis unfolding d by (cases "zs @ rest") simp_all
qed

lemma stoull_hex016:
  assumes "rest = [] \<or> \<not> is_digit 16 (hd rest)"
  shows "stoull (hex016 v @ rest) 16 = Inr (v, 16)"
proof -
  have "parse_number 16 (hex016 v @ rest) = Some (False, unat v, 16)"
    using parse_number_digits [of 16 "hex016 v" rest] assms hex016_digits [of v]
      hex_prefixed_digits [of "hex016 v" rest]
    by (cases "hex016 v") auto
  moreover have "unat v < 2 ^ 64" using unsigned_less [of v] by simp
  ultimately show ?thesis by (simp add: stoull_def)
qed

lemma stoull_dec:
  assumes "n < 2 ^ 64" and "rest = [] \<or> \<not> is_digit 10 (hd rest)"
  shows "stoull (dec n @ rest) 10 = Inr (of_nat n, length (dec n))"
proof -
  have "parse_number 10 (dec n @ rest) = Some (False, n, length (dec n))"
    using parse_number_digits [of 10 "dec n" rest] assms to_base_digits [of 10 n]
    by (auto simp: dec_def)
  then show ?thesis using assms(1) by (simp add: stoull_def)
qed

end
