(* ===== verification/RegionFreezer.thy ===== *)
theory RegionFreezer
  imports Evaluators ProcessMemoryAdapter OrderedMap StdText
begin

text \<open>
  The class RegionFreezer: the regions that a background thread keeps writing into the
  target, under three indices. A region object is shared by the indices through pointers, so
  the model keeps the objects in a store (a list that only grows) and the indices map to
  positions in it. The lock makes every method atomic; one round of the write thread is the
  function \<open>write_pass\<close>.
\<close>

section \<open>Regions\<close>

text \<open>The fields of the subclass ArrayRegion; a plain region has none.\<close>

record array_fields =
  num_items :: u64
  data_mask :: "byte list"
  null_data :: "byte list"
  null_data_mask :: "byte list"

record frozen =
  rgn_name :: string
  rgn_index :: u64
  rgn_addr :: u64
  rgn_data :: "byte list"
  rgn_error :: string
  rgn_enable :: bool
  rgn_array :: "array_fields option"

definition new_region :: "string \<Rightarrow> u64 \<Rightarrow> u64 \<Rightarrow> byte list \<Rightarrow> bool \<Rightarrow> frozen" where
  "new_region name index a d enable =
     \<lparr>rgn_name = name, rgn_index = index, rgn_addr = a, rgn_data = d, rgn_error = [],
      rgn_enable = enable, rgn_array = None\<rparr>"

definition new_array_region ::
  "string \<Rightarrow> u64 \<Rightarrow> u64 \<Rightarrow> u64 \<Rightarrow> byte list \<Rightarrow> byte list \<Rightarrow> byte list option \<Rightarrow> byte list option \<Rightarrow> bool
     \<Rightarrow> frozen" where
  "new_array_region name index a items d dmask null null_mask enable =
     (new_region name index a d enable)\<lparr>rgn_array := Some
        (case (null, null_mask) of
           (Some n, Some nm) \<Rightarrow>
             \<lparr>num_items = items, data_mask = dmask, null_data = n, null_data_mask = nm\<rparr>
         | _ \<Rightarrow> \<lparr>num_items = items, data_mask = dmask, null_data = [], null_data_mask = []\<rparr>)\<rparr>"

section \<open>The registry\<close>

record freezer =
  objects :: "frozen list"
  regions_by_name :: "(string \<times> nat) list"
  regions_by_addr :: "(u64 \<times> nat) list"
  regions_by_index :: "(u64 \<times> nat) list"
  next_index :: u64

definition new_freezer :: freezer where
  "new_freezer = \<lparr>objects = [], regions_by_name = [], regions_by_addr = [], regions_by_index = [],
     next_index = 0\<rparr>"

definition add_region :: "frozen \<Rightarrow> freezer \<Rightarrow> freezer" where
  "add_region rgn fz =
     (let p = length (objects fz)
      in fz\<lparr>objects := objects fz @ [rgn],
            regions_by_name := multi_emplace (rgn_name rgn) p (regions_by_name fz),
            regions_by_addr := multi_emplace (rgn_addr rgn) p (regions_by_addr fz),
            regions_by_index := omap_emplace (rgn_index rgn) p (regions_by_index fz)\<rparr>)"

definition freeze :: "string \<Rightarrow> u64 \<Rightarrow> byte list \<Rightarrow> bool \<Rightarrow> freezer \<Rightarrow> freezer" where
  "freeze name a d enable fz =
     add_region (new_region name (next_index fz) a d enable) (fz\<lparr>next_index := next_index fz + 1\<rparr>)"

definition freeze_array ::
  "string \<Rightarrow> u64 \<Rightarrow> u64 \<Rightarrow> byte list \<Rightarrow> byte list \<Rightarrow> byte list option \<Rightarrow> byte list option \<Rightarrow> bool
     \<Rightarrow> freezer \<Rightarrow> freezer" where
  "freeze_array name base_addr max_items d dmask null null_mask enable fz =
     add_region (new_array_region name (next_index fz) base_addr max_items d dmask null null_mask enable)
       (fz\<lparr>next_index := next_index fz + 1\<rparr>)"

text \<open>
  The three \<open>unfreeze\<close> methods. The loop body of the first two drops one region from the
  other two indices; the range itself is erased at the end.
\<close>

definition drop_by_name_step :: "nat \<Rightarrow> freezer \<Rightarrow> freezer" where
  "drop_by_name_step p fz =
     fz\<lparr>regions_by_addr := erase_by_value (regions_by_addr fz) (rgn_addr (objects fz ! p)) p,
        regions_by_index := omap_erase (rgn_index (objects fz ! p)) (regions_by_index fz)\<rparr>"

definition unfreeze_name :: "string \<Rightarrow> freezer \<Rightarrow> nat \<times> freezer" where
  "unfreeze_name name fz =
     (let its = equal_range name (regions_by_name fz);
          fz' = fold drop_by_name_step its fz
      in (length its, fz'\<lparr>regions_by_name := multi_erase name (regions_by_name fz')\<rparr>))"

definition drop_by_addr_step :: "nat \<Rightarrow> freezer \<Rightarrow> freezer" where
  "drop_by_addr_step p fz =
     fz\<lparr>regions_by_name := erase_by_value (regions_by_name fz) (rgn_name (objects fz ! p)) p,
        regions_by_index := omap_erase (rgn_index (objects fz ! p)) (regions_by_index fz)\<rparr>"

definition unfreeze_addr :: "u64 \<Rightarrow> freezer \<Rightarrow> nat \<times> freezer" where
  "unfreeze_addr a fz =
     (let its = equal_range a (regions_by_addr fz);
          fz' = fold drop_by_addr_step its fz
      in (length its, fz'\<lparr>regions_by_addr := multi_erase a (regions_by_addr fz')\<rparr>))"

definition unfreeze_index :: "u64 \<Rightarrow> freezer \<Rightarrow> bool \<times> freezer" where
  "unfreeze_index i fz =
     (case map_of (regions_by_index fz) i of
        None \<Rightarrow> (False, fz)
      | Some p \<Rightarrow>
          (True, fz\<lparr>
             regions_by_name := erase_by_value (regions_by_name fz) (rgn_name (objects fz ! p)) p,
             regions_by_addr := erase_by_value (regions_by_addr fz) (rgn_addr (objects fz ! p)) p,
             regions_by_index := omap_erase i (regions_by_index fz)\<rparr>))"

text \<open>\<open>regions_by_name\<close> is cleared twice, \<open>regions_by_addr\<close> never.\<close>

definition unfreeze_all :: "freezer \<Rightarrow> nat \<times> freezer" where
  "unfreeze_all fz =
     (length (regions_by_index fz), fz\<lparr>regions_by_name := [], regions_by_index := []\<rparr>)"

text \<open>The loop of the \<open>enable\<close> methods: regions already in the wanted state are not counted.\<close>

fun enable_each :: "nat list \<Rightarrow> bool \<Rightarrow> frozen list \<Rightarrow> nat \<times> frozen list" where
  "enable_each [] b objs = (0, objs)"
| "enable_each (p # ps) b objs =
     (if rgn_enable (objs ! p) = b then enable_each ps b objs
      else (case enable_each ps b (objs[p := (objs ! p)\<lparr>rgn_enable := b\<rparr>])
            of (n, objs') \<Rightarrow> (n + 1, objs')))"

definition enable_refs :: "nat list \<Rightarrow> bool \<Rightarrow> freezer \<Rightarrow> nat \<times> freezer" where
  "enable_refs ps b fz =
     (case enable_each ps b (objects fz) of (n, objs) \<Rightarrow> (n, fz\<lparr>objects := objs\<rparr>))"

definition enable_name :: "string \<Rightarrow> bool \<Rightarrow> freezer \<Rightarrow> nat \<times> freezer" where
  "enable_name name b fz = enable_refs (equal_range name (regions_by_name fz)) b fz"

definition enable_addr :: "u64 \<Rightarrow> bool \<Rightarrow> freezer \<Rightarrow> nat \<times> freezer" where
  "enable_addr a b fz = enable_refs (equal_range a (regions_by_addr fz)) b fz"

definition enable_index :: "u64 \<Rightarrow> bool \<Rightarrow> freezer \<Rightarrow> bool \<times> freezer" where
  "enable_index i b fz =
     (case map_of (regions_by_index fz) i of
        None \<Rightarrow> (False, fz)
      | Some p \<Rightarrow>
          if rgn_enable (objects fz ! p) = b then (False, fz)
          else (True, fz\<lparr>objects := (objects fz)[p := (objects fz ! p)\<lparr>rgn_enable := b\<rparr>]\<rparr>))"

definition enable_all :: "bool \<Rightarrow> freezer \<Rightarrow> nat \<times> freezer" where
  "enable_all b fz = enable_refs (map snd (regions_by_index fz)) b fz"

definition frozen_count :: "freezer \<Rightarrow> nat" where
  "frozen_count fz = length (regions_by_index fz)"

text \<open>The registered regions, in the order in which the program walks them.\<close>

definition frozen_regions :: "freezer \<Rightarrow> frozen list" where
  "frozen_regions fz = map (\<lambda>(i, p). objects fz ! p) (regions_by_index fz)"

section \<open>Printing\<close>

definition print_tail :: "frozen \<Rightarrow> string" where
  "print_tail r =
     (if rgn_error r \<noteq> [] then '' (error: '' @ c_str (rgn_error r) @ '')'' @ [CHR 0x0A]
      else [CHR 0x0A])"

definition print_block :: "phosg \<Rightarrow> string \<Rightarrow> byte list \<Rightarrow> u64 option \<Rightarrow> string" where
  "print_block ph title bytes a = title @ [CHR 0x0A] @ print_data ph bytes a None None"

definition print_region :: "phosg \<Rightarrow> bool \<Rightarrow> frozen \<Rightarrow> string" where
  "print_region ph with_data r =
     dec4 (unat (rgn_index r)) @ '': '' @ hex016 (rgn_addr r) @ '':'' @
     hex016 (of_nat (length (rgn_data r))) @
     (case rgn_array r of
        None \<Rightarrow> '' ''
      | Some ar \<Rightarrow> '' [array:'' @ dec (unat (num_items ar)) @ ''] '') @
     c_str (rgn_name r) @ (if rgn_enable r then [] else '' (disabled)'') @ print_tail r @
     (if \<not> with_data then []
      else case rgn_array r of
          None \<Rightarrow> print_block ph ''data:'' (rgn_data r) (Some (rgn_addr r))
        | Some ar \<Rightarrow>
            print_block ph ''data:'' (rgn_data r) None @
            print_block ph ''data mask:'' (data_mask ar) None @
            (if null_data ar \<noteq> [] \<and> null_data_mask ar \<noteq> []
             then print_block ph ''null data:'' (null_data ar) None @
                  print_block ph ''null data mask:'' (null_data_mask ar) None
             else []))"

definition print_command :: "phosg \<Rightarrow> frozen \<Rightarrow> string" where
  "print_command ph r =
     (case rgn_array r of
        None \<Rightarrow>
          ''f +n'' @ c_str (rgn_name r) @ '' '' @ hex016 (rgn_addr r) @ '' '' @
          c_str (format_data_string ph (rgn_data r) None) @
          (if rgn_enable r then [] else '' +d'') @ [CHR 0x0A]
      | Some ar \<Rightarrow>
          ''f +n'' @ c_str (rgn_name r) @ '' '' @ hex016 (rgn_addr r) @ '' +m'' @
          dec (unat (num_items ar)) @ '' '' @
          c_str (format_data_string ph (rgn_data r) (Some (data_mask ar))) @
          (if rgn_enable r then [] else '' +d'') @
          (if null_data ar \<noteq> [] \<and> null_data_mask ar \<noteq> []
           then '' +N'' @ c_str (format_data_string ph (null_data ar) (Some (null_data_mask ar)))
           else []) @ [CHR 0x0A])"

definition print_freezer_regions :: "phosg \<Rightarrow> bool \<Rightarrow> freezer \<Rightarrow> string" where
  "print_freezer_regions ph with_data fz =
     (if regions_by_index fz = [] then ''no regions frozen'' @ [CHR 0x0A]
      else ''frozen regions:'' @ [CHR 0x0A] @ concat (map (print_region ph with_data) (frozen_regions fz)))"

definition print_regions_commands :: "phosg \<Rightarrow> freezer \<Rightarrow> string" where
  "print_regions_commands ph fz =
     (if regions_by_index fz = [] then ''no regions frozen'' @ [CHR 0x0A]
      else ''frozen regions:'' @ [CHR 0x0A] @ concat (map (print_command ph) (frozen_regions fz)))"

section \<open>Writing\<close>

text \<open>
  \<open>memcmp_mask\<close>: 0 when the buffers agree, 1 when they differ only where the mask is 0, -1
  (without a mask: what \<open>memcmp\<close> gives) otherwise. Mask bytes are read only where the buffers
  differ.
\<close>

fun memcmp_mask_loop :: "int \<Rightarrow> byte list \<Rightarrow> byte list \<Rightarrow> byte list \<Rightarrow> nat \<Rightarrow> int res" where
  "memcmp_mask_loop masked_differences va vb vmask 0 = Inr masked_differences"
| "memcmp_mask_loop masked_differences (a # va) (b # vb) vmask (Suc n) =
     (if a \<noteq> b
      then (case vmask of
              [] \<Rightarrow> Inl (Undefined Past_buffer)
            | m # vmask' \<Rightarrow> if m = 0 then memcmp_mask_loop 1 va vb vmask' n else Inr (- 1))
      else memcmp_mask_loop masked_differences va vb (tl vmask) n)"
| "memcmp_mask_loop masked_differences _ _ vmask (Suc n) = Inl (Undefined Past_buffer)"

definition memcmp_mask :: "byte list \<Rightarrow> byte list \<Rightarrow> byte list option \<Rightarrow> nat \<Rightarrow> int res" where
  "memcmp_mask a b dmask n =
     (case dmask of
        None \<Rightarrow> load2 n a b (\<lambda>x y. Inr (memcmp x y))
      | Some m \<Rightarrow> memcmp_mask_loop 0 a b m n)"

text \<open>\<open>for (y = 0; y < size; y++) if (item[y] != 0) break;\<close> and the test \<open>y == size\<close>.\<close>

fun all_zero :: "byte list \<Rightarrow> nat \<Rightarrow> bool res" where
  "all_zero item 0 = Inr True"
| "all_zero (b # item) (Suc n) = (if b \<noteq> 0 then Inr False else all_zero item n)"
| "all_zero [] (Suc n) = Inl (Undefined Past_buffer)"

text \<open>
  What the loop of \<open>ArrayRegion::write\<close> decides: the data is present, present with masked
  differences in slot \<open>x\<close>, slot \<open>x\<close> is null, or there is no room. Offsets are 64 bits wide.
\<close>

datatype slot =
    Already
  | Masked_match u64
  | Null_slot u64
  | No_space

definition item_at :: "byte list \<Rightarrow> u64 \<Rightarrow> byte list" where
  "item_at contents off = at_offset contents (unat off)"

definition slot_offset :: "frozen \<Rightarrow> nat \<Rightarrow> u64" where
  "slot_offset r x = of_nat x * of_nat (length (rgn_data r))"

definition classify_slot :: "frozen \<Rightarrow> array_fields \<Rightarrow> byte list \<Rightarrow> nat \<Rightarrow> slot option res" where
  "classify_slot r ar contents x =
     (let off = slot_offset r x; item = item_at contents off; n = length (rgn_data r)
      in res_bind (memcmp_mask item (at_offset (rgn_data r) 0) (Some (at_offset (data_mask ar) 0)) n)
        (\<lambda>cmp. if cmp = 0 then Inr (Some Already)
               else if cmp = 1 then Inr (Some (Masked_match off))
               else if null_data ar \<noteq> []
               then res_bind
                      (memcmp_mask item (at_offset (null_data ar) 0)
                         (Some (at_offset (null_data_mask ar) 0)) n)
                      (\<lambda>cmp'. Inr (if 0 \<le> cmp' then Some (Null_slot off) else None))
               else res_bind (all_zero item n)
                      (\<lambda>z. Inr (if z then Some (Null_slot off) else None))))"

function scan_slots :: "frozen \<Rightarrow> array_fields \<Rightarrow> byte list \<Rightarrow> nat \<Rightarrow> slot res" where
  "scan_slots r ar contents x =
     (if x < unat (num_items ar)
      then res_bind (classify_slot r ar contents x)
        (\<lambda>s. case s of Some sl \<Rightarrow> Inr sl | None \<Rightarrow> scan_slots r ar contents (Suc x))
      else Inr No_space)"
  by pat_completeness auto
termination
  by (relation "measure (\<lambda>(r, ar, contents, x). unat (num_items ar) - x)") auto

declare scan_slots.simps [simp del]

text \<open>
  \<open>write\<close>: exceptions end up in \<open>error\<close>. The write after a masked match or into a null slot
  leaves \<open>error\<close> as it was.
\<close>

definition caught :: "frozen \<Rightarrow> failure \<Rightarrow> 'k \<Rightarrow> frozen res \<times> 'k" where
  "caught r f k = (if is_exception f then (Inr (r\<lparr>rgn_error := what f\<rparr>), k) else (Inl f, k))"

definition write_plain :: "'k mach \<Rightarrow> phosg \<Rightarrow> adapter \<Rightarrow> frozen \<Rightarrow> ('k, frozen) effect" where
  "write_plain M ph ad r k =
     (case write_bytes M ph ad (rgn_addr r) (rgn_data r) k of
        (Inl f, k') \<Rightarrow> caught r f k'
      | (Inr _, k') \<Rightarrow> (Inr (r\<lparr>rgn_error := []\<rparr>), k'))"

definition write_slot :: "'k mach \<Rightarrow> phosg \<Rightarrow> adapter \<Rightarrow> frozen \<Rightarrow> u64 \<Rightarrow> ('k, frozen) effect" where
  "write_slot M ph ad r off k =
     (case write_bytes M ph ad (rgn_addr r + off) (rgn_data r) k of
        (Inl f, k') \<Rightarrow> caught r f k'
      | (Inr _, k') \<Rightarrow> (Inr r, k'))"

definition write_array :: "'k mach \<Rightarrow> phosg \<Rightarrow> adapter \<Rightarrow> frozen \<Rightarrow> array_fields \<Rightarrow> ('k, frozen) effect" where
  "write_array M ph ad r ar k =
     (case read_bytes M ph ad (rgn_addr r) (num_items ar * of_nat (length (rgn_data r))) k of
        (Inl f, k1) \<Rightarrow> caught r f k1
      | (Inr contents, k1) \<Rightarrow>
          (case scan_slots r ar contents 0 of
             Inl f \<Rightarrow> caught r f k1
           | Inr Already \<Rightarrow> (Inr (r\<lparr>rgn_error := []\<rparr>), k1)
           | Inr (Masked_match off) \<Rightarrow> write_slot M ph ad r off k1
           | Inr (Null_slot off) \<Rightarrow> write_slot M ph ad r off k1
           | Inr No_space \<Rightarrow> (Inr (r\<lparr>rgn_error := ''no available spaces''\<rparr>), k1)))"

definition write_region :: "'k mach \<Rightarrow> phosg \<Rightarrow> adapter \<Rightarrow> frozen \<Rightarrow> ('k, frozen) effect" where
  "write_region M ph ad r =
     (case rgn_array r of None \<Rightarrow> write_plain M ph ad r | Some ar \<Rightarrow> write_array M ph ad r ar)"

text \<open>One round of \<open>run_write_thread\<close>.\<close>

fun write_each ::
  "'k mach \<Rightarrow> phosg \<Rightarrow> adapter \<Rightarrow> nat list \<Rightarrow> frozen list \<Rightarrow> 'k \<Rightarrow> unit res \<times> frozen list \<times> 'k" where
  "write_each M ph ad [] objs k = (Inr (), objs, k)"
| "write_each M ph ad (p # ps) objs k =
     (if rgn_enable (objs ! p)
      then (case write_region M ph ad (objs ! p) k of
              (Inl f, k') \<Rightarrow> (Inl f, objs, k')
            | (Inr r, k') \<Rightarrow> write_each M ph ad ps (objs[p := r]) k')
      else write_each M ph ad ps objs k)"

definition write_pass ::
  "'k mach \<Rightarrow> phosg \<Rightarrow> adapter \<Rightarrow> freezer \<Rightarrow> 'k \<Rightarrow> unit res \<times> freezer \<times> 'k" where
  "write_pass M ph ad fz k =
     (case write_each M ph ad (map snd (regions_by_index fz)) (objects fz) k
      of (res, objs, k') \<Rightarrow> (res, fz\<lparr>objects := objs\<rparr>, k'))"

end
