(* ===== verification/FreezerProps.thy ===== *)
theory FreezerProps
  imports RegionFreezer
begin

text \<open>
  The registry of RegionFreezer against an abstract view, the list of registered regions in
  index order: the three indices agree, every operation but \<open>unfreeze_all\<close> keeps them in
  agreement, and each operation is a list operation on the abstract view.
\<close>

section \<open>Agreement of the indices\<close>

definition refs :: "freezer \<Rightarrow> nat list" where
  "refs fz = map snd (regions_by_index fz)"

definition freezer_inv :: "freezer \<Rightarrow> bool" where
  "freezer_inv fz \<longleftrightarrow>
     omap_ok (regions_by_index fz) \<and>
     (\<forall>(i, p) \<in> set (regions_by_index fz).
        p < length (objects fz) \<and> rgn_index (objects fz ! p) = i \<and> i < next_index fz) \<and>
     distinct (regions_by_name fz) \<and>
     set (regions_by_name fz) = (\<lambda>p. (rgn_name (objects fz ! p), p)) ` set (refs fz) \<and>
     distinct (regions_by_addr fz) \<and>
     set (regions_by_addr fz) = (\<lambda>p. (rgn_addr (objects fz ! p), p)) ` set (refs fz)"

lemma frozen_regions_refs: "frozen_regions fz = map ((!) (objects fz)) (refs fz)"
  by (simp add: frozen_regions_def refs_def comp_def case_prod_beta)

lemma freezer_invD:
  assumes "freezer_inv fz"
  shows "p \<in> set (refs fz) \<Longrightarrow> p < length (objects fz)" and "distinct (refs fz)"
    and "(i, p) \<in> set (regions_by_index fz) \<Longrightarrow> rgn_index (objects fz ! p) = i"
    and "(i, p) \<in> set (regions_by_index fz) \<Longrightarrow> i < next_index fz"
proof -
  have entry: "p < length (objects fz) \<and> rgn_index (objects fz ! p) = i \<and> i < next_index fz"
    if "(i, p) \<in> set (regions_by_index fz)" for i p
    using assms that by (auto simp: freezer_inv_def)
  then show "(i, p) \<in> set (regions_by_index fz) \<Longrightarrow> rgn_index (objects fz ! p) = i"
    "(i, p) \<in> set (regions_by_index fz) \<Longrightarrow> i < next_index fz" by blast+
  show "p \<in> set (refs fz) \<Longrightarrow> p < length (objects fz)"
    using entry by (auto simp: refs_def)
  have "distinct (map fst (regions_by_index fz))"
    using assms omap_ok_distinct by (auto simp: freezer_inv_def)
  then have "distinct (regions_by_index fz)" by (simp add: distinct_map)
  moreover have "inj_on snd (set (regions_by_index fz))"
  proof (rule inj_onI)
    fix e e' assume "e \<in> set (regions_by_index fz)" "e' \<in> set (regions_by_index fz)" "snd e = snd e'"
    then show "e = e'" using entry [of "fst e" "snd e"] entry [of "fst e'" "snd e'"]
      by (metis prod.collapse)
  qed
  ultimately show "distinct (refs fz)" by (simp add: refs_def distinct_map)
qed

lemma new_freezer_inv: "freezer_inv new_freezer"
  by (simp add: freezer_inv_def new_freezer_def refs_def)

section \<open>Adding\<close>

lemma add_region_spec:
  assumes "freezer_inv fz" and "rgn_index r = next_index fz" and "next_index fz + 1 \<noteq> 0"
  defines "fz' \<equiv> add_region r (fz\<lparr>next_index := next_index fz + 1\<rparr>)"
  shows "freezer_inv fz' \<and> frozen_regions fz' = frozen_regions fz @ [r]"
proof -
  let ?p = "length (objects fz)"
  note D = freezer_invD [OF assms(1)]
  have bi: "regions_by_index fz' = regions_by_index fz @ [(rgn_index r, ?p)]"
    using D(4) assms(2) by (auto simp: fz'_def add_region_def Let_def intro!: omap_emplace_last)
  have refs': "refs fz' = refs fz @ [?p]" using bi by (simp add: refs_def)
  have old: "objects fz' ! p = objects fz ! p" if "p \<in> set (refs fz)" for p
    using D(1) [OF that] by (simp add: fz'_def add_region_def Let_def nth_append)
  have new: "objects fz' ! ?p = r" by (simp add: fz'_def add_region_def Let_def)
  have next_less: "i < next_index fz + 1" if "i \<le> next_index fz" for i
    using that assms(3) unatSuc [of "next_index fz"]
    by (simp add: word_less_nat_alt word_le_nat_alt add.commute)
  have frozen: "frozen_regions fz' = frozen_regions fz @ [r]"
    using old new by (simp add: frozen_regions_refs refs')
  have entries: "p < length (objects fz') \<and> rgn_index (objects fz' ! p) = i \<and> i < next_index fz'"
    if "(i, p) \<in> set (regions_by_index fz')" for i p
  proof (cases "(i, p) \<in> set (regions_by_index fz)")
    case True
    then have "p \<in> set (refs fz)" by (force simp: refs_def)
    then show ?thesis
      using D(1,3,4) True old next_less
      by (fastforce simp: fz'_def add_region_def Let_def less_imp_le)
  next
    case False
    then have "i = rgn_index r" "p = ?p" using that bi by auto
    then show ?thesis using new assms(2) next_less by (simp add: fz'_def add_region_def Let_def)
  qed
  have fresh: "(x, ?p) \<notin> set (regions_by_name fz)" "(y, ?p) \<notin> set (regions_by_addr fz)" for x y
    using assms(1) D(1) by (auto simp: freezer_inv_def)
  have "omap_ok (regions_by_index fz')"
    using assms(1) by (simp add: fz'_def add_region_def Let_def freezer_inv_def)
  moreover have "distinct (regions_by_name fz')" "distinct (regions_by_addr fz')"
    using assms(1) fresh
    by (auto simp: fz'_def add_region_def Let_def multi_emplace_def freezer_inv_def)
  moreover have "set (regions_by_name fz') = (\<lambda>p. (rgn_name (objects fz' ! p), p)) ` set (refs fz')"
  proof -
    have "(\<lambda>p. (rgn_name (objects fz' ! p), p)) ` set (refs fz) = set (regions_by_name fz)"
      using assms(1) old by (auto simp: freezer_inv_def)
    then show ?thesis
      by (simp add: refs' new) (simp add: fz'_def add_region_def Let_def multi_emplace_def)
  qed
  moreover have "set (regions_by_addr fz') = (\<lambda>p. (rgn_addr (objects fz' ! p), p)) ` set (refs fz')"
  proof -
    have "(\<lambda>p. (rgn_addr (objects fz' ! p), p)) ` set (refs fz) = set (regions_by_addr fz)"
      using assms(1) old by (auto simp: freezer_inv_def)
    then show ?thesis
      by (simp add: refs' new) (simp add: fz'_def add_region_def Let_def multi_emplace_def)
  qed
  ultimately have "freezer_inv fz'" using entries by (auto simp: freezer_inv_def)
  with frozen show ?thesis by simp
qed

section \<open>Removing\<close>

definition remove_refs :: "nat set \<Rightarrow> freezer \<Rightarrow> freezer" where
  "remove_refs S fz = fz\<lparr>
     regions_by_name := filter (\<lambda>e. snd e \<notin> S) (regions_by_name fz),
     regions_by_addr := filter (\<lambda>e. snd e \<notin> S) (regions_by_addr fz),
     regions_by_index := filter (\<lambda>e. snd e \<notin> S) (regions_by_index fz)\<rparr>"

lemma refs_remove: "refs (remove_refs S fz) = filter (\<lambda>p. p \<notin> S) (refs fz)"
  by (simp add: refs_def remove_refs_def filter_map comp_def)

lemma remove_refs_keeps [simp]:
  "objects (remove_refs S fz) = objects fz" "next_index (remove_refs S fz) = next_index fz"
  by (simp_all add: remove_refs_def)

lemma remove_refs_inv:
  assumes "freezer_inv fz"
  shows "freezer_inv (remove_refs S fz)"
proof -
  have "omap_ok (filter P (regions_by_index fz))" for P
    using assms by (auto simp: freezer_inv_def omap_ok_def sorted_wrt_filter sorted_wrt_map)
  moreover have "set (filter (\<lambda>e. snd e \<notin> S) (regions_by_name fz)) =
      (\<lambda>p. (rgn_name (objects fz ! p), p)) ` (set (refs fz) - S)"
    "set (filter (\<lambda>e. snd e \<notin> S) (regions_by_addr fz)) =
      (\<lambda>p. (rgn_addr (objects fz ! p), p)) ` (set (refs fz) - S)"
    using assms by (auto simp: freezer_inv_def)
  moreover have "set (refs (remove_refs S fz)) = set (refs fz) - S" by (auto simp: refs_remove)
  ultimately show ?thesis
    using assms unfolding freezer_inv_def remove_refs_keeps by (auto simp: remove_refs_def)
qed

lemma frozen_remove:
  "frozen_regions (remove_refs {p \<in> set (refs fz). P (objects fz ! p)} fz) =
     filter (\<lambda>r. \<not> P r) (frozen_regions fz)"
  by (simp add: frozen_regions_refs refs_remove filter_map comp_def cong: filter_cong)

lemma remove_from_index:
  assumes "freezer_inv fz" and "S \<subseteq> set (refs fz)"
  shows "filter (\<lambda>e. fst e \<notin> (\<lambda>p. rgn_index (objects fz ! p)) ` S) (regions_by_index fz) =
    filter (\<lambda>e. snd e \<notin> S) (regions_by_index fz)"
proof (rule filter_cong [OF refl])
  fix e assume e: "e \<in> set (regions_by_index fz)"
  obtain i p where e_eq: "e = (i, p)" by (cases e)
  then have ip: "(i, p) \<in> set (regions_by_index fz)" using e by simp
  have "q = p" if "q \<in> S" "rgn_index (objects fz ! q) = i" for q
  proof -
    have "q \<in> snd ` set (regions_by_index fz)" using that(1) assms(2) by (auto simp: refs_def)
    then obtain j where j: "(j, q) \<in> set (regions_by_index fz)" by auto
    then have "j = i" using freezer_invD(3) [OF assms(1)] that(2) by blast
    moreover have "distinct (map fst (regions_by_index fz))"
      using assms(1) by (simp add: freezer_inv_def omap_ok_distinct)
    ultimately show ?thesis using j ip eq_key_imp_eq_value by metis
  qed
  then show "(fst e \<notin> (\<lambda>p. rgn_index (objects fz ! p)) ` S) = (snd e \<notin> S)"
    unfolding e_eq using freezer_invD(3) [OF assms(1) ip] by auto
qed

lemma fold_drop_by_name:
  "fold drop_by_name_step ps fz = fz\<lparr>
     regions_by_addr := filter (\<lambda>(a, p). \<not> (p \<in> set ps \<and> a = rgn_addr (objects fz ! p))) (regions_by_addr fz),
     regions_by_index := filter (\<lambda>e. fst e \<notin> (\<lambda>p. rgn_index (objects fz ! p)) ` set ps) (regions_by_index fz)\<rparr>"
proof (induction ps arbitrary: fz)
  case (Cons p ps)
  then show ?case
    by (simp add: drop_by_name_step_def erase_by_value_def omap_erase_def case_prod_beta)
      (rule arg_cong2 [where f = "\<lambda>x y. fz\<lparr>regions_by_addr := x, regions_by_index := y\<rparr>"];
       intro filter_cong; auto)
qed simp

lemma fold_drop_by_addr:
  "fold drop_by_addr_step ps fz = fz\<lparr>
     regions_by_name := filter (\<lambda>(n, p). \<not> (p \<in> set ps \<and> n = rgn_name (objects fz ! p))) (regions_by_name fz),
     regions_by_index := filter (\<lambda>e. fst e \<notin> (\<lambda>p. rgn_index (objects fz ! p)) ` set ps) (regions_by_index fz)\<rparr>"
proof (induction ps arbitrary: fz)
  case (Cons p ps)
  then show ?case
    by (simp add: drop_by_addr_step_def erase_by_value_def omap_erase_def case_prod_beta)
      (rule arg_cong2 [where f = "\<lambda>x y. fz\<lparr>regions_by_name := x, regions_by_index := y\<rparr>"];
       intro filter_cong; auto)
qed simp

text \<open>Every entry of a secondary index is the key of its region.\<close>

lemma by_name_key: "freezer_inv fz \<Longrightarrow> (n, p) \<in> set (regions_by_name fz) \<longleftrightarrow> p \<in> set (refs fz) \<and> n = rgn_name (objects fz ! p)"
  by (auto simp: freezer_inv_def)

lemma by_addr_key: "freezer_inv fz \<Longrightarrow> (a, p) \<in> set (regions_by_addr fz) \<longleftrightarrow> p \<in> set (refs fz) \<and> a = rgn_addr (objects fz ! p)"
  by (auto simp: freezer_inv_def)

lemma unfreeze_name_removes:
  assumes "freezer_inv fz"
  shows "snd (unfreeze_name name fz) = remove_refs {p \<in> set (refs fz). rgn_name (objects fz ! p) = name} fz"
proof -
  let ?S = "{p \<in> set (refs fz). rgn_name (objects fz ! p) = name}"
  have S: "set (equal_range name (regions_by_name fz)) = ?S"
    using by_name_key [OF assms] by auto
  have "filter (\<lambda>(a, p). \<not> (p \<in> ?S \<and> a = rgn_addr (objects fz ! p))) (regions_by_addr fz) =
      filter (\<lambda>e. snd e \<notin> ?S) (regions_by_addr fz)"
    using by_addr_key [OF assms] by (intro filter_cong) auto
  moreover have "multi_erase name (regions_by_name fz) = filter (\<lambda>e. snd e \<notin> ?S) (regions_by_name fz)"
    using by_name_key [OF assms] unfolding multi_erase_def by (intro filter_cong) auto
  moreover have "filter (\<lambda>e. fst e \<notin> (\<lambda>p. rgn_index (objects fz ! p)) ` ?S) (regions_by_index fz) =
      filter (\<lambda>e. snd e \<notin> ?S) (regions_by_index fz)"
    by (rule remove_from_index [OF assms]) auto
  ultimately show ?thesis
    unfolding unfreeze_name_def Let_def fold_drop_by_name S by (simp add: remove_refs_def)
qed

lemma unfreeze_addr_removes:
  assumes "freezer_inv fz"
  shows "snd (unfreeze_addr a fz) = remove_refs {p \<in> set (refs fz). rgn_addr (objects fz ! p) = a} fz"
proof -
  let ?S = "{p \<in> set (refs fz). rgn_addr (objects fz ! p) = a}"
  have S: "set (equal_range a (regions_by_addr fz)) = ?S"
    using by_addr_key [OF assms] by auto
  have "filter (\<lambda>(n, p). \<not> (p \<in> ?S \<and> n = rgn_name (objects fz ! p))) (regions_by_name fz) =
      filter (\<lambda>e. snd e \<notin> ?S) (regions_by_name fz)"
    using by_name_key [OF assms] by (intro filter_cong) auto
  moreover have "multi_erase a (regions_by_addr fz) = filter (\<lambda>e. snd e \<notin> ?S) (regions_by_addr fz)"
    using by_addr_key [OF assms] unfolding multi_erase_def by (intro filter_cong) auto
  moreover have "filter (\<lambda>e. fst e \<notin> (\<lambda>p. rgn_index (objects fz ! p)) ` ?S) (regions_by_index fz) =
      filter (\<lambda>e. snd e \<notin> ?S) (regions_by_index fz)"
    by (rule remove_from_index [OF assms]) auto
  ultimately show ?thesis
    unfolding unfreeze_addr_def Let_def fold_drop_by_addr S by (simp add: remove_refs_def)
qed

lemma unfreeze_index_removes:
  assumes "freezer_inv fz"
  shows "snd (unfreeze_index i fz) = remove_refs {p \<in> set (refs fz). rgn_index (objects fz ! p) = i} fz"
    and "fst (unfreeze_index i fz) \<longleftrightarrow> (\<exists>r \<in> set (frozen_regions fz). rgn_index r = i)"
proof -
  let ?S = "{p \<in> set (refs fz). rgn_index (objects fz ! p) = i}"
  have dist: "distinct (map fst (regions_by_index fz))"
    using assms by (simp add: freezer_inv_def omap_ok_distinct)
  have mem: "q \<in> ?S \<longleftrightarrow> (i, q) \<in> set (regions_by_index fz)" for q
    using freezer_invD(3) [OF assms] by (force simp: refs_def)
  have "snd (unfreeze_index i fz) = remove_refs ?S fz \<and> (fst (unfreeze_index i fz) \<longleftrightarrow> ?S \<noteq> {})"
  proof (cases "map_of (regions_by_index fz) i")
    case None
    then have "(i, q) \<notin> set (regions_by_index fz)" for q
      by (simp add: map_of_eq_None_iff image_iff) (metis fst_conv)
    then have S: "?S = {}" using mem by blast
    then show ?thesis using None unfolding S by (simp add: unfreeze_index_def remove_refs_def)
  next
    case (Some p)
    then have ip: "(i, p) \<in> set (regions_by_index fz)" by (rule map_of_SomeD)
    have S: "?S = {p}"
      using mem ip eq_key_imp_eq_value [OF dist] by blast
    have "filter (\<lambda>e. snd e \<notin> {p}) (regions_by_index fz) = omap_erase i (regions_by_index fz)"
      unfolding omap_erase_def S [symmetric] using freezer_invD(3) [OF assms]
      by (intro filter_cong) (force simp: refs_def)+
    moreover have "filter (\<lambda>e. snd e \<notin> {p}) (regions_by_name fz) =
        erase_by_value (regions_by_name fz) (rgn_name (objects fz ! p)) p"
      using by_name_key [OF assms] unfolding erase_by_value_def by (intro filter_cong) auto
    moreover have "filter (\<lambda>e. snd e \<notin> {p}) (regions_by_addr fz) =
        erase_by_value (regions_by_addr fz) (rgn_addr (objects fz ! p)) p"
      using by_addr_key [OF assms] unfolding erase_by_value_def by (intro filter_cong) auto
    ultimately show ?thesis
      using Some unfolding S by (simp add: unfreeze_index_def remove_refs_def)
  qed
  then show "snd (unfreeze_index i fz) = remove_refs ?S fz"
    "fst (unfreeze_index i fz) \<longleftrightarrow> (\<exists>r \<in> set (frozen_regions fz). rgn_index r = i)"
    by (auto simp: frozen_regions_refs)
qed

section \<open>The secondary indices as lookups\<close>

text \<open>
  The contract of an index: it finds exactly the registered regions with a given key, each
  once. Counting and enabling through an index are list operations under it.
\<close>

locale region_lookup =
  fixes lookup :: "freezer \<Rightarrow> 'k \<Rightarrow> nat list"
    and key :: "frozen \<Rightarrow> 'k"
  assumes lookup_refs:
      "freezer_inv fz \<Longrightarrow> set (lookup fz k) = {p \<in> set (refs fz). key (objects fz ! p) = k}"
    and lookup_distinct: "freezer_inv fz \<Longrightarrow> distinct (lookup fz k)"
begin

lemma lookup_filter_length:
  assumes "freezer_inv fz"
  shows "length (filter (\<lambda>p. P (objects fz ! p)) (lookup fz k)) =
    length (filter (\<lambda>r. key r = k \<and> P r) (frozen_regions fz))"
proof -
  have "set (filter (\<lambda>p. P (objects fz ! p)) (lookup fz k)) =
      set (filter (\<lambda>p. key (objects fz ! p) = k \<and> P (objects fz ! p)) (refs fz))"
    using lookup_refs [OF assms] by auto
  moreover have "distinct (filter (\<lambda>p. P (objects fz ! p)) (lookup fz k))"
    "distinct (filter (\<lambda>p. key (objects fz ! p) = k \<and> P (objects fz ! p)) (refs fz))"
    using lookup_distinct [OF assms] freezer_invD(2) [OF assms] by simp_all
  ultimately have "length (filter (\<lambda>p. P (objects fz ! p)) (lookup fz k)) =
      length (filter (\<lambda>p. key (objects fz ! p) = k \<and> P (objects fz ! p)) (refs fz))"
    by (metis distinct_card)
  then show ?thesis by (simp add: frozen_regions_refs filter_map comp_def)
qed

lemma lookup_length:
  "freezer_inv fz \<Longrightarrow> length (lookup fz k) = length (filter (\<lambda>r. key r = k) (frozen_regions fz))"
  using lookup_filter_length [of fz "\<lambda>_. True" k] by simp

end

lemma enable_each_spec:
  assumes "distinct ps" and "\<forall>p \<in> set ps. p < length objs"
  shows "fst (enable_each ps b objs) = length (filter (\<lambda>p. rgn_enable (objs ! p) \<noteq> b) ps) \<and>
    length (snd (enable_each ps b objs)) = length objs \<and>
    (\<forall>q. snd (enable_each ps b objs) ! q =
       (if q \<in> set ps then (objs ! q)\<lparr>rgn_enable := b\<rparr> else objs ! q))"
  using assms
proof (induction ps arbitrary: objs)
  case (Cons p ps)
  have same: "(objs ! p)\<lparr>rgn_enable := b\<rparr> = objs ! p" if "rgn_enable (objs ! p) = b"
    using that by auto
  let ?objs = "objs[p := (objs ! p)\<lparr>rgn_enable := b\<rparr>]"
  have "filter (\<lambda>q. rgn_enable (?objs ! q) \<noteq> b) ps = filter (\<lambda>q. rgn_enable (objs ! q) \<noteq> b) ps"
    using Cons.prems by (intro filter_cong) (auto simp: nth_list_update)
  then show ?case
    using Cons.IH [of objs] Cons.IH [of ?objs] Cons.prems same
    by (auto simp: case_prod_beta nth_list_update)
qed simp

lemma inv_modify_objects:
  assumes "freezer_inv fz" and "length objs = length (objects fz)"
    and "\<And>p. rgn_name (objs ! p) = rgn_name (objects fz ! p) \<and>
       rgn_addr (objs ! p) = rgn_addr (objects fz ! p) \<and> rgn_index (objs ! p) = rgn_index (objects fz ! p)"
  shows "freezer_inv (fz\<lparr>objects := objs\<rparr>)"
  using assms by (auto simp: freezer_inv_def refs_def)

context region_lookup begin

lemma enable_spec:
  fixes k :: 'k and b :: bool
  assumes "freezer_inv fz"
  defines "res \<equiv> enable_refs (lookup fz k) b fz"
  shows "freezer_inv (snd res) \<and>
    frozen_regions (snd res) =
      map (\<lambda>r. if key r = k then r\<lparr>rgn_enable := b\<rparr> else r) (frozen_regions fz) \<and>
    fst res = length (filter (\<lambda>r. key r = k \<and> rgn_enable r \<noteq> b) (frozen_regions fz))"
proof -
  let ?e = "enable_each (lookup fz k) b (objects fz)"
  have E: "fst ?e = length (filter (\<lambda>p. rgn_enable (objects fz ! p) \<noteq> b) (lookup fz k))"
    "length (snd ?e) = length (objects fz)"
    "snd ?e ! q = (if q \<in> set (lookup fz k) then (objects fz ! q)\<lparr>rgn_enable := b\<rparr> else objects fz ! q)" for q
    using enable_each_spec [of "lookup fz k" "objects fz" b] lookup_refs [OF assms(1), of k]
      lookup_distinct [OF assms(1), of k] freezer_invD(1) [OF assms(1)]
    by auto
  have res: "fst res = fst ?e" "snd res = fz\<lparr>objects := snd ?e\<rparr>"
    by (simp_all add: res_def enable_refs_def case_prod_beta)
  have "freezer_inv (snd res)"
    unfolding res by (rule inv_modify_objects [OF assms(1) E(2)]) (simp add: E(3))
  moreover have "frozen_regions (snd res) =
      map (\<lambda>r. if key r = k then r\<lparr>rgn_enable := b\<rparr> else r) (frozen_regions fz)"
    unfolding res using lookup_refs [OF assms(1), of k]
    by (simp add: frozen_regions_refs E(3) refs_def)
  moreover have "fst res = length (filter (\<lambda>r. key r = k \<and> rgn_enable r \<noteq> b) (frozen_regions fz))"
    unfolding res E(1) by (rule lookup_filter_length [OF assms(1)])
  ultimately show ?thesis by blast
qed

end

interpretation by_name: region_lookup "\<lambda>fz n. equal_range n (regions_by_name fz)" rgn_name
  by unfold_locales (auto simp: by_name_key, auto simp: freezer_inv_def intro: distinct_equal_range)

interpretation by_addr: region_lookup "\<lambda>fz a. equal_range a (regions_by_addr fz)" rgn_addr
  by unfold_locales (auto simp: by_addr_key, auto simp: freezer_inv_def intro: distinct_equal_range)

text \<open>The walk over all regions, as a lookup with a single key.\<close>

interpretation every: region_lookup "\<lambda>fz (_ :: unit). refs fz" "\<lambda>_. ()"
  by unfold_locales (auto dest: freezer_invD(2))

section \<open>The operations on the abstract view\<close>

text \<open>
  C21. \<open>freeze\<close> and \<open>freeze_array\<close> append one region with the next index, whose other fields are
  the arguments, and keep the three indices in agreement, as long as the index counter has
  not wrapped around.
\<close>

theorem freeze_appends:
  assumes "freezer_inv fz" and "next_index fz + 1 \<noteq> 0"
  shows "freezer_inv (freeze name a d en fz) \<and>
    frozen_regions (freeze name a d en fz) =
      frozen_regions fz @ [new_region name (next_index fz) a d en] \<and>
    freezer_inv (freeze_array name a items d m null null_m en fz) \<and>
    frozen_regions (freeze_array name a items d m null null_m en fz) =
      frozen_regions fz @ [new_array_region name (next_index fz) a items d m null null_m en]"
  unfolding freeze_def freeze_array_def
  using add_region_spec [OF assms(1) _ assms(2)]
  by (simp add: new_region_def new_array_region_def)

text \<open>
  C20. \<open>unfreeze_name\<close>, \<open>unfreeze_addr\<close> and \<open>unfreeze_index\<close> remove exactly the regions with the
  given key from all three indices, keep the order of the others, and report how many they
  removed (for the index: whether there was one).
\<close>

theorem unfreeze_removes:
  assumes "freezer_inv fz"
  shows "freezer_inv (snd (unfreeze_name name fz)) \<and>
      frozen_regions (snd (unfreeze_name name fz)) =
        filter (\<lambda>r. rgn_name r \<noteq> name) (frozen_regions fz) \<and>
      fst (unfreeze_name name fz) = length (filter (\<lambda>r. rgn_name r = name) (frozen_regions fz)) \<and>
    freezer_inv (snd (unfreeze_addr a fz)) \<and>
      frozen_regions (snd (unfreeze_addr a fz)) =
        filter (\<lambda>r. rgn_addr r \<noteq> a) (frozen_regions fz) \<and>
      fst (unfreeze_addr a fz) = length (filter (\<lambda>r. rgn_addr r = a) (frozen_regions fz)) \<and>
    freezer_inv (snd (unfreeze_index i fz)) \<and>
      frozen_regions (snd (unfreeze_index i fz)) =
        filter (\<lambda>r. rgn_index r \<noteq> i) (frozen_regions fz) \<and>
      (fst (unfreeze_index i fz) \<longleftrightarrow> (\<exists>r \<in> set (frozen_regions fz). rgn_index r = i))"
proof -
  have "fst (unfreeze_name name fz) = length (equal_range name (regions_by_name fz))"
    "fst (unfreeze_addr a fz) = length (equal_range a (regions_by_addr fz))"
    by (simp_all add: unfreeze_name_def unfreeze_addr_def Let_def)
  then show ?thesis
    using remove_refs_inv [OF assms] unfreeze_index_removes(2) [OF assms, of i]
      by_name.lookup_length [OF assms] by_addr.lookup_length [OF assms]
    unfolding unfreeze_name_removes [OF assms] unfreeze_addr_removes [OF assms]
      unfreeze_index_removes(1) [OF assms]
      frozen_remove [of fz "\<lambda>r. rgn_name r = name"] frozen_remove [of fz "\<lambda>r. rgn_addr r = a"]
      frozen_remove [of fz "\<lambda>r. rgn_index r = i"]
    by simp
qed

text \<open>
  C22. \<open>enable_name\<close>, \<open>enable_addr\<close> and \<open>enable_all\<close> set the flag of exactly the regions with the
  key, change nothing else, and report how many were in the other state.
\<close>

theorem enable_sets_flag:
  assumes "freezer_inv fz"
  shows "freezer_inv (snd (enable_name name b fz)) \<and>
      frozen_regions (snd (enable_name name b fz)) =
        map (\<lambda>r. if rgn_name r = name then r\<lparr>rgn_enable := b\<rparr> else r) (frozen_regions fz) \<and>
      fst (enable_name name b fz) =
        length (filter (\<lambda>r. rgn_name r = name \<and> rgn_enable r \<noteq> b) (frozen_regions fz)) \<and>
    freezer_inv (snd (enable_addr a b fz)) \<and>
      frozen_regions (snd (enable_addr a b fz)) =
        map (\<lambda>r. if rgn_addr r = a then r\<lparr>rgn_enable := b\<rparr> else r) (frozen_regions fz) \<and>
      fst (enable_addr a b fz) =
        length (filter (\<lambda>r. rgn_addr r = a \<and> rgn_enable r \<noteq> b) (frozen_regions fz)) \<and>
    freezer_inv (snd (enable_all b fz)) \<and>
      frozen_regions (snd (enable_all b fz)) =
        map (\<lambda>r. r\<lparr>rgn_enable := b\<rparr>) (frozen_regions fz) \<and>
      fst (enable_all b fz) = length (filter (\<lambda>r. rgn_enable r \<noteq> b) (frozen_regions fz))"
  using by_name.enable_spec [OF assms, where k = name and b = b]
    by_addr.enable_spec [OF assms, where k = a and b = b]
    every.enable_spec [OF assms, where k = "()" and b = b]
  by (simp add: enable_name_def enable_addr_def enable_all_def refs_def)

text \<open>
  C23. \<open>unfreeze_all\<close> unregisters every region and reports how many, but leaves the address
  index as it was: when anything was frozen, the indices disagree afterwards, and
  \<open>unfreeze_addr\<close> of such an address again reports the regions that are no longer there.
\<close>

theorem unfreeze_all_leaves_addresses:
  assumes "freezer_inv fz"
  shows "fst (unfreeze_all fz) = length (frozen_regions fz) \<and>
    frozen_regions (snd (unfreeze_all fz)) = [] \<and>
    (freezer_inv (snd (unfreeze_all fz)) \<longleftrightarrow> frozen_regions fz = []) \<and>
    fst (unfreeze_addr a (snd (unfreeze_all fz))) =
      length (filter (\<lambda>r. rgn_addr r = a) (frozen_regions fz))"
proof -
  have "freezer_inv (snd (unfreeze_all fz)) \<longleftrightarrow> regions_by_addr fz = []"
    by (auto simp: freezer_inv_def unfreeze_all_def refs_def)
  also have "\<dots> \<longleftrightarrow> frozen_regions fz = []"
  proof -
    have "set (regions_by_addr fz) = (\<lambda>p. (rgn_addr (objects fz ! p), p)) ` set (refs fz)"
      using assms by (simp add: freezer_inv_def)
    then have "set (regions_by_addr fz) = {} \<longleftrightarrow> set (refs fz) = {}" by simp
    then show ?thesis by (simp add: frozen_regions_refs)
  qed
  finally show ?thesis
    using by_addr.lookup_length [OF assms, of a]
    by (simp add: unfreeze_all_def frozen_regions_def unfreeze_addr_def Let_def)
qed

end
