(* ===== verification/FreezerWrite.thy ===== *)
theory FreezerWrite
  imports FreezerProps
begin

text \<open>
  What the write thread achieves: which slot of an array region it chooses, that a chosen slot
  is settled by one write, and that a round over plain regions leaves the target's memory
  holding the frozen data and touches nothing else.
\<close>

section \<open>Masked comparison\<close>

definition masked_equal :: "byte list \<Rightarrow> byte list \<Rightarrow> byte list \<Rightarrow> bool" where
  "masked_equal a b m \<longleftrightarrow> (\<forall>i < length b. a ! i \<noteq> b ! i \<longrightarrow> m ! i = 0)"

lemma memcmp_mask_loop_spec:
  "n \<le> length a \<Longrightarrow> n \<le> length b \<Longrightarrow> n \<le> length m \<Longrightarrow>
   memcmp_mask_loop d a b m n =
     Inr (if \<exists>i < n. a ! i \<noteq> b ! i \<and> m ! i \<noteq> 0 then - 1
          else if \<exists>i < n. a ! i \<noteq> b ! i then 1 else d)"
proof (induction n arbitrary: d a b m)
  case (Suc n)
  obtain x as where a: "a = x # as" using Suc.prems(1) by (cases a) auto
  obtain y bs where b: "b = y # bs" using Suc.prems(2) by (cases b) auto
  obtain z ms where m: "m = z # ms" using Suc.prems(3) by (cases m) auto
  have ex: "(\<exists>i < Suc n. P i) \<longleftrightarrow> P 0 \<or> (\<exists>i < n. P (Suc i))" for P
    using less_Suc_eq_0_disj by auto
  have "memcmp_mask_loop d' as bs ms n =
     Inr (if \<exists>i < n. as ! i \<noteq> bs ! i \<and> ms ! i \<noteq> 0 then - 1
          else if \<exists>i < n. as ! i \<noteq> bs ! i then 1 else d')" for d'
    using Suc a b m by simp
  then show ?case unfolding a b m ex by auto
qed simp

lemma memcmp_mask_spec:
  assumes "length x = length d" and "length m = length d"
  shows "memcmp_mask (x @ xs) (at_offset d 0) (Some (at_offset m 0)) (length d) =
    Inr (if x = d then 0 else if masked_equal x d m then 1 else - 1)"
proof -
  have eq: "(\<exists>i < length d. x ! i \<noteq> d ! i) \<longleftrightarrow> x \<noteq> d"
    using assms(1) by (auto simp: list_eq_iff_nth_eq)
  show ?thesis
    using assms eq
    by (simp add: memcmp_mask_def memcmp_mask_loop_spec at_offset_def nth_append masked_equal_def
        cong: conj_cong)
qed

lemma all_zero_spec:
  "n \<le> length xs \<Longrightarrow> all_zero xs n = Inr (\<forall>b \<in> set (take n xs). b = 0)"
proof (induction n arbitrary: xs)
  case (Suc n)
  then show ?case by (cases xs) auto
qed simp

section \<open>The choice of a slot\<close>

definition array_wf :: "frozen \<Rightarrow> array_fields \<Rightarrow> bool" where
  "array_wf r ar \<longleftrightarrow>
     length (data_mask ar) = length (rgn_data r) \<and>
     (null_data ar \<noteq> [] \<longrightarrow> length (null_data ar) = length (rgn_data r) \<and>
        length (null_data_mask ar) = length (rgn_data r)) \<and>
     unat (num_items ar) * length (rgn_data r) < 2 ^ 64"

definition slot_bytes :: "frozen \<Rightarrow> byte list \<Rightarrow> nat \<Rightarrow> byte list" where
  "slot_bytes r contents x = take (length (rgn_data r)) (drop (x * length (rgn_data r)) contents)"

definition is_null_slot :: "array_fields \<Rightarrow> byte list \<Rightarrow> bool" where
  "is_null_slot ar item \<longleftrightarrow>
     (if null_data ar = [] then \<forall>b \<in> set item. b = 0
      else masked_equal item (null_data ar) (null_data_mask ar))"

definition slot_kind :: "frozen \<Rightarrow> array_fields \<Rightarrow> byte list \<Rightarrow> nat \<Rightarrow> slot option" where
  "slot_kind r ar contents x =
     (let item = slot_bytes r contents x
      in if item = rgn_data r then Some Already
         else if masked_equal item (rgn_data r) (data_mask ar) then Some (Masked_match (slot_offset r x))
         else if is_null_slot ar item then Some (Null_slot (slot_offset r x))
         else None)"

lemma masked_equal_refl: "masked_equal d d m"
  by (simp add: masked_equal_def)

lemma slot_in:
  fixes x n items :: nat
  shows "x < items \<Longrightarrow> x * n + n \<le> items * n"
  by (metis Suc_leI add.commute mult_Suc mult_le_mono1)

lemma unat_slot_offset:
  assumes "array_wf r ar" and "x < unat (num_items ar)"
  shows "unat (slot_offset r x) = x * length (rgn_data r)"
proof -
  have "x * length (rgn_data r) + length (rgn_data r) \<le> unat (num_items ar) * length (rgn_data r)"
    by (rule slot_in [OF assms(2)])
  then have "x * length (rgn_data r) < 2 ^ 64" using assms(1) by (simp add: array_wf_def)
  then show ?thesis
    unfolding slot_offset_def of_nat_mult [symmetric] by (simp add: unat_of_nat del: of_nat_mult)
qed

lemma classify_item:
  assumes "item_at contents (slot_offset r x) = it @ xs" and "slot_bytes r contents x = it"
    and "length it = length (rgn_data r)" and "array_wf r ar"
  shows "classify_slot r ar contents x = Inr (slot_kind r ar contents x)"
proof -
  let ?n = "length (rgn_data r)"
  have data: "memcmp_mask (it @ xs) (at_offset (rgn_data r) 0) (Some (at_offset (data_mask ar) 0)) ?n =
      Inr (if it = rgn_data r then 0 else if masked_equal it (rgn_data r) (data_mask ar) then 1 else - 1)"
    using memcmp_mask_spec [of it "rgn_data r" "data_mask ar" xs] assms(3,4) by (simp add: array_wf_def)
  have null: "memcmp_mask (it @ xs) (at_offset (null_data ar) 0) (Some (at_offset (null_data_mask ar) 0)) ?n =
      Inr (if it = null_data ar then 0 else if masked_equal it (null_data ar) (null_data_mask ar) then 1 else - 1)"
    if "null_data ar \<noteq> []"
    using memcmp_mask_spec [of it "null_data ar" "null_data_mask ar" xs] assms(3,4) that
    by (simp add: array_wf_def)
  have zero: "all_zero (it @ xs) ?n = Inr (\<forall>b \<in> set it. b = 0)"
    using all_zero_spec [of ?n "it @ xs"] assms(3) by simp
  show ?thesis
    unfolding classify_slot_def Let_def assms(1) data res_bind.simps slot_kind_def assms(2)
      is_null_slot_def
    by (cases "null_data ar = []") (simp_all add: zero null masked_equal_refl)
qed

lemma classify_slot_spec:
  assumes wf: "array_wf r ar" and x: "x < unat (num_items ar)"
    and len: "length contents = unat (num_items ar) * length (rgn_data r)"
  shows "classify_slot r ar contents x = Inr (slot_kind r ar contents x)"
proof -
  let ?n = "length (rgn_data r)" and ?item = "slot_bytes r contents x"
  have fit: "x * ?n + ?n \<le> length contents" using slot_in [OF x] len by simp
  have "item_at contents (slot_offset r x) = ?item @ drop ?n (drop (x * ?n) contents) @ [0]"
    unfolding item_at_def at_offset_def slot_bytes_def unat_slot_offset [OF wf x] append_assoc [symmetric]
      append_take_drop_id
    using fit by simp
  moreover have "length ?item = ?n" using fit by (simp add: slot_bytes_def)
  ultimately show ?thesis using classify_item [OF _ refl _ wf] by blast
qed

lemma scan_slots_find:
  assumes "array_wf r ar" and "length contents = unat (num_items ar) * length (rgn_data r)"
  shows "scan_slots r ar contents x =
    Inr (case find (\<lambda>y. slot_kind r ar contents y \<noteq> None) [x..<unat (num_items ar)] of
           None \<Rightarrow> No_space | Some y \<Rightarrow> the (slot_kind r ar contents y))"
proof (induction "unat (num_items ar) - x" arbitrary: x rule: less_induct)
  case less
  show ?case
  proof (cases "x < unat (num_items ar)")
    case False
    then show ?thesis by (simp add: scan_slots.simps [of r ar contents x])
  next
    case True
    have "scan_slots r ar contents (Suc x) =
      Inr (case find (\<lambda>y. slot_kind r ar contents y \<noteq> None) [Suc x..<unat (num_items ar)] of
           None \<Rightarrow> No_space | Some y \<Rightarrow> the (slot_kind r ar contents y))"
      using True by (intro less) simp
    then show ?thesis
      using True classify_slot_spec [OF assms(1) True assms(2)]
      by (simp add: scan_slots.simps [of r ar contents x] upt_conv_Cons split: option.split)
  qed
qed

text \<open>
  C26. For an array whose masks have the length of its data and whose size fits 64 bits, the
  scan of the contents read from the target never leaves a buffer and decides by the first
  slot that holds the data, holds it up to masked bytes, or is null; without such a slot
  there is no space.
\<close>

theorem array_scan_first_slot:
  assumes "array_wf r ar" and "length contents = unat (num_items ar) * length (rgn_data r)"
  shows "scan_slots r ar contents 0 =
    Inr (case find (\<lambda>y. slot_kind r ar contents y \<noteq> None) [0..<unat (num_items ar)] of
           None \<Rightarrow> No_space | Some y \<Rightarrow> the (slot_kind r ar contents y))"
  by (rule scan_slots_find [OF assms])

definition overwrite :: "byte list \<Rightarrow> nat \<Rightarrow> byte list \<Rightarrow> byte list" where
  "overwrite contents off bs = take off contents @ bs @ drop (off + length bs) contents"

lemma take_drop_before:
  assumes "b + n \<le> a" and "a + n \<le> length c"
  shows "take n (drop b (take a c @ zs)) = take n (drop b c)"
  using assms by (auto simp: drop_take min_def)

lemma slot_bytes_overwrite:
  assumes "x * length (rgn_data r) + length (rgn_data r) \<le> length contents"
  shows "slot_bytes r (overwrite contents (x * length (rgn_data r)) (rgn_data r)) x = rgn_data r"
    and "y < x \<Longrightarrow> slot_bytes r (overwrite contents (x * length (rgn_data r)) (rgn_data r)) y =
      slot_bytes r contents y"
proof -
  let ?n = "length (rgn_data r)"
  show "slot_bytes r (overwrite contents (x * ?n) (rgn_data r)) x = rgn_data r"
    using assms by (simp add: slot_bytes_def overwrite_def)
  show "slot_bytes r (overwrite contents (x * ?n) (rgn_data r)) y = slot_bytes r contents y" if "y < x"
  proof -
    have "y * ?n + ?n \<le> x * ?n" using slot_in [OF that] .
    then show ?thesis
      unfolding slot_bytes_def overwrite_def using assms by (rule take_drop_before)
  qed
qed

text \<open>
  C25. Writing the data into the slot that was chosen settles the array: the next scan finds
  the data present and writes nothing.
\<close>

theorem array_write_settles:
  assumes "array_wf r ar" and "length contents = unat (num_items ar) * length (rgn_data r)"
    and "scan_slots r ar contents 0 = Inr (Null_slot off) \<or>
      scan_slots r ar contents 0 = Inr (Masked_match off)"
  shows "scan_slots r ar (overwrite contents (unat off) (rgn_data r)) 0 = Inr Already"
proof -
  let ?n = "length (rgn_data r)" and ?items = "unat (num_items ar)"
  obtain x where x: "find (\<lambda>y. slot_kind r ar contents y \<noteq> None) [0..<?items] = Some x"
      "slot_kind r ar contents x = Some (Null_slot off) \<or> slot_kind r ar contents x = Some (Masked_match off)"
    using assms(3) scan_slots_find [OF assms(1,2), of 0]
    by (auto split: option.splits) (auto simp: find_Some_iff)
  then have xi: "x < ?items" "\<forall>y < x. slot_kind r ar contents y = None"
    by (auto simp: find_Some_iff)
  have off: "unat off = x * ?n"
    using x(2) unat_slot_offset [OF assms(1) xi(1)]
    by (auto simp: slot_kind_def Let_def split: if_splits)
  let ?c = "overwrite contents (unat off) (rgn_data r)"
  have fit: "x * ?n + ?n \<le> length contents" using slot_in [OF xi(1)] assms(2) by simp
  have len: "length ?c = ?items * ?n" using fit assms(2) by (simp add: overwrite_def off)
  have "slot_kind r ar ?c x = Some Already"
    using slot_bytes_overwrite(1) [OF fit] by (simp add: slot_kind_def off)
  moreover have "\<forall>y < x. slot_kind r ar ?c y = None"
    using slot_bytes_overwrite(2) [OF fit] xi(2) by (simp add: slot_kind_def off)
  ultimately have "find (\<lambda>y. slot_kind r ar ?c y \<noteq> None) [0..<?items] = Some x"
    using xi(1) by (auto simp: find_Some_iff intro!: exI [of _ x])
  then show ?thesis
    using scan_slots_find [OF assms(1) len, of 0] \<open>slot_kind r ar ?c x = Some Already\<close> by simp
qed

text \<open>
  The scan stops at the first null slot, so data that is present behind one is written a
  second time: with a zeroed first slot and the data in the second, slot 0 is chosen.
\<close>

theorem array_write_duplicates:
  assumes "array_wf r ar" and "null_data ar = []" and "2 \<le> unat (num_items ar)"
    and "length contents = unat (num_items ar) * length (rgn_data r)"
    and "slot_bytes r contents 0 = replicate (length (rgn_data r)) 0"
    and "slot_bytes r contents 1 = rgn_data r"
    and "\<not> masked_equal (slot_bytes r contents 0) (rgn_data r) (data_mask ar)"
  shows "scan_slots r ar contents 0 = Inr (Null_slot 0)"
proof -
  have "slot_bytes r contents 0 \<noteq> rgn_data r" using assms(7) masked_equal_refl by metis
  then have "slot_kind r ar contents 0 = Some (Null_slot 0)"
    using assms(2,5,7) by (simp add: slot_kind_def is_null_slot_def slot_offset_def)
  then show ?thesis
    using scan_slots_find [OF assms(1,4), of 0] assms(3) by (simp add: upt_conv_Cons)
qed

section \<open>A round of the write thread\<close>

text \<open>
  The documented behaviour of \<open>mach_vm_write\<close> on a memory \<open>mem\<close>: a successful call stores the
  bytes, and no call changes memory outside the range it is given.
\<close>

definition footprint :: "u64 \<Rightarrow> nat \<Rightarrow> u64 set" where
  "footprint a n = {a + of_nat j |j. j < n}"

definition write_stores :: "'k mach \<Rightarrow> port \<Rightarrow> ('k \<Rightarrow> u64 \<Rightarrow> byte) \<Rightarrow> bool" where
  "write_stores M t mem \<longleftrightarrow>
     (\<forall>k a bs ret k'. mach_vm_write M k t a bs = (ret, k') \<longrightarrow>
        (\<forall>x. x \<notin> footprint a (length bs) \<longrightarrow> mem k' x = mem k x) \<and>
        (ret = KERN_SUCCESS \<longrightarrow> (\<forall>j < length bs. mem k' (a + of_nat j) = bs ! j)))"

definition cells_held :: "('k \<Rightarrow> u64 \<Rightarrow> byte) \<Rightarrow> 'k \<Rightarrow> frozen \<Rightarrow> bool" where
  "cells_held mem k r \<longleftrightarrow> (\<forall>j < length (rgn_data r). mem k (rgn_addr r + of_nat j) = rgn_data r ! j)"

definition region_cells :: "frozen \<Rightarrow> u64 set" where
  "region_cells r = (if rgn_enable r then footprint (rgn_addr r) (length (rgn_data r)) else {})"

definition write_failure :: string where
  "write_failure = ''can't write to process %d at %016llX:%016zX (%d)''"

lemma write_plain_stores:
  assumes "write_stores M (task ad) mem" and "\<And>args. string_printf ph write_failure args \<noteq> []"
  shows "\<exists>e k'. write_plain M ph ad r k = (Inr (r\<lparr>rgn_error := e\<rparr>), k') \<and>
    (\<forall>x. x \<notin> footprint (rgn_addr r) (length (rgn_data r)) \<longrightarrow> mem k' x = mem k x) \<and>
    (e = [] \<longrightarrow> cells_held mem k' r)"
proof -
  obtain ret k' where w: "mach_vm_write M k (task ad) (rgn_addr r) (rgn_data r) = (ret, k')"
    by (cases "mach_vm_write M k (task ad) (rgn_addr r) (rgn_data r)")
  have law: "\<forall>x. x \<notin> footprint (rgn_addr r) (length (rgn_data r)) \<longrightarrow> mem k' x = mem k x"
    "ret = KERN_SUCCESS \<longrightarrow> cells_held mem k' r"
    using assms(1) w unfolding write_stores_def cells_held_def by blast+
  let ?e = "if ret = KERN_SUCCESS then []
    else string_printf ph write_failure
      [PInt (pid ad), PInt (uint (rgn_addr r)), PInt (int (length (rgn_data r))), PInt ret]"
  have "write_plain M ph ad r k = (Inr (r\<lparr>rgn_error := ?e\<rparr>), k')"
    using w by (simp add: write_plain_def write_bytes_def caught_def write_failure_def)
  moreover have "?e = [] \<longrightarrow> cells_held mem k' r" using law(2) assms(2) by simp
  ultimately show ?thesis using law(1) by blast
qed

lemma cells_held_error [simp]: "cells_held mem k (r\<lparr>rgn_error := e\<rparr>) = cells_held mem k r"
  by (simp add: cells_held_def)

lemma region_cells_error [simp]: "region_cells (r\<lparr>rgn_error := e\<rparr>) = region_cells r"
  by (simp add: region_cells_def)

lemma cells_held_elsewhere:
  assumes "cells_held mem k r" and "rgn_enable r" and "\<forall>x \<in> region_cells r. mem k' x = mem k x"
  shows "cells_held mem k' r"
  using assms by (auto simp: cells_held_def region_cells_def footprint_def)

text \<open>What a round over the objects at \<open>ps\<close> must establish.\<close>

definition round_done ::
  "('k \<Rightarrow> u64 \<Rightarrow> byte) \<Rightarrow> nat list \<Rightarrow> frozen list \<Rightarrow> 'k \<Rightarrow> frozen list \<Rightarrow> 'k \<Rightarrow> bool" where
  "round_done mem ps objs k objs' k' \<longleftrightarrow>
     length objs' = length objs \<and> (\<forall>q. q \<notin> set ps \<longrightarrow> objs' ! q = objs ! q) \<and>
     (\<forall>q. \<exists>e. objs' ! q = (objs ! q)\<lparr>rgn_error := e\<rparr>) \<and>
     (\<forall>x. (\<forall>p \<in> set ps. x \<notin> region_cells (objs ! p)) \<longrightarrow> mem k' x = mem k x) \<and>
     (\<forall>p \<in> set ps. rgn_enable (objs ! p) \<and> rgn_error (objs' ! p) = [] \<longrightarrow> cells_held mem k' (objs ! p))"

definition no_overlap :: "nat list \<Rightarrow> frozen list \<Rightarrow> bool" where
  "no_overlap ps objs \<longleftrightarrow>
     (\<forall>p \<in> set ps. \<forall>q \<in> set ps. p \<noteq> q \<longrightarrow> region_cells (objs ! p) \<inter> region_cells (objs ! q) = {})"

lemma round_done_step:
  assumes "p < length objs" and "p \<notin> set ps" and "rgn_enable (objs ! p)"
    and "no_overlap (p # ps) objs"
    and frame: "\<forall>x. x \<notin> region_cells (objs ! p) \<longrightarrow> mem k1 x = mem k x"
    and held: "e = [] \<longrightarrow> cells_held mem k1 (objs ! p)"
    and rest: "round_done mem ps (objs[p := (objs ! p)\<lparr>rgn_error := e\<rparr>]) k1 objs' k'"
  shows "round_done mem (p # ps) objs k objs' k'"
proof -
  let ?objs = "objs[p := (objs ! p)\<lparr>rgn_error := e\<rparr>]"
  have other: "?objs ! q = objs ! q" if "q \<noteq> p" for q using that by simp
  have in_ps: "?objs ! q = objs ! q" if "q \<in> set ps" for q using that assms(2) by (intro other) auto
  have p': "objs' ! p = (objs ! p)\<lparr>rgn_error := e\<rparr>"
    using rest assms(1,2) by (simp add: round_done_def)
  have mem': "mem k' x = mem k1 x" if "\<forall>q \<in> set ps. x \<notin> region_cells (objs ! q)" for x
    using rest that in_ps by (simp add: round_done_def)
  have "\<forall>x \<in> region_cells (objs ! p). mem k' x = mem k1 x"
    using assms(2,4) by (intro ballI mem') (auto simp: no_overlap_def)
  then have "rgn_error (objs' ! p) = [] \<longrightarrow> cells_held mem k' (objs ! p)"
    using held assms(3) cells_held_elsewhere p' by auto
  moreover have "\<exists>e. objs' ! q = (objs ! q)\<lparr>rgn_error := e\<rparr>" for q
  proof (cases "q = p")
    case True
    then show ?thesis using p' by blast
  next
    case False
    then show ?thesis using rest other [OF False] unfolding round_done_def by metis
  qed
  moreover have "\<forall>q. q \<notin> set (p # ps) \<longrightarrow> objs' ! q = objs ! q"
    using rest by (simp add: round_done_def)
  moreover have "\<forall>q \<in> set ps. rgn_enable (objs ! q) \<and> rgn_error (objs' ! q) = [] \<longrightarrow>
      cells_held mem k' (objs ! q)"
    using rest in_ps by (simp add: round_done_def)
  moreover have "\<forall>x. (\<forall>q \<in> set (p # ps). x \<notin> region_cells (objs ! q)) \<longrightarrow> mem k' x = mem k x"
    using mem' frame by simp
  moreover have "length objs' = length objs" using rest by (simp add: round_done_def)
  ultimately show ?thesis by (simp add: round_done_def)
qed

lemma round_done_skip:
  "round_done mem ps objs k objs' k' \<Longrightarrow> \<not> rgn_enable (objs ! p) \<Longrightarrow>
     round_done mem (p # ps) objs k objs' k'"
  by (simp add: round_done_def region_cells_def)

lemma write_each_holds:
  assumes "write_stores M (task ad) mem" and "\<And>args. string_printf ph write_failure args \<noteq> []"
    and "distinct ps" and "\<forall>p \<in> set ps. p < length objs"
    and "\<forall>p \<in> set ps. rgn_enable (objs ! p) \<longrightarrow> rgn_array (objs ! p) = None"
    and "no_overlap ps objs"
  shows "\<exists>objs' k'. write_each M ph ad ps objs k = (Inr (), objs', k') \<and> round_done mem ps objs k objs' k'"
  using assms(3-6)
proof (induction ps arbitrary: objs k)
  case Nil
  have "\<exists>e. r = r\<lparr>rgn_error := e\<rparr>" for r :: frozen
    by (rule exI [of _ "rgn_error r"]) simp
  then show ?case by (simp add: round_done_def)
next
  case (Cons p ps)
  show ?case
  proof (cases "rgn_enable (objs ! p)")
    case False
    have "no_overlap ps objs" using Cons.prems(4) by (simp add: no_overlap_def)
    then obtain objs' k' where "write_each M ph ad ps objs k = (Inr (), objs', k')"
        "round_done mem ps objs k objs' k'"
      using Cons.IH [of objs k] Cons.prems(1-3) by auto
    then show ?thesis using False round_done_skip by (intro exI [of _ objs'] exI [of _ k']) simp
  next
    case True
    obtain e k1 where w: "write_region M ph ad (objs ! p) k = (Inr ((objs ! p)\<lparr>rgn_error := e\<rparr>), k1)"
      and frame: "\<forall>x. x \<notin> region_cells (objs ! p) \<longrightarrow> mem k1 x = mem k x"
      and held: "e = [] \<longrightarrow> cells_held mem k1 (objs ! p)"
      using write_plain_stores [OF assms(1,2), of "objs ! p" k] True Cons.prems(3)
      by (auto simp: write_region_def region_cells_def)
    let ?objs = "objs[p := (objs ! p)\<lparr>rgn_error := e\<rparr>]"
    have in_ps: "?objs ! q = objs ! q" if "q \<in> set ps" for q
      using that Cons.prems(1) by (cases "q = p") auto
    have "no_overlap ps ?objs" using Cons.prems(4) in_ps by (simp add: no_overlap_def)
    moreover have "\<forall>q \<in> set ps. rgn_enable (?objs ! q) \<longrightarrow> rgn_array (?objs ! q) = None"
      using Cons.prems(3) in_ps by simp
    ultimately obtain objs' k' where r: "write_each M ph ad ps ?objs k1 = (Inr (), objs', k')"
        "round_done mem ps ?objs k1 objs' k'"
      using Cons.IH [of ?objs k1] Cons.prems(1,2) by auto
    have "round_done mem (p # ps) objs k objs' k'"
      using Cons.prems(1,2) by (intro round_done_step [OF _ _ True Cons.prems(4) frame held r(2)]) simp_all
    then show ?thesis using True w r(1) by (intro exI [of _ objs'] exI [of _ k']) simp
  qed
qed

text \<open>
  C8. One round of the write thread over plain regions whose enabled members do not overlap:
  the round completes, the registry keeps its regions and its agreement, every byte of memory
  outside the enabled regions is untouched, and every enabled region that shows no error
  afterwards is in memory byte for byte.
\<close>

theorem write_pass_holds_regions:
  assumes "write_stores M (task ad) mem" and "\<And>args. string_printf ph write_failure args \<noteq> []"
    and "freezer_inv fz" and "\<forall>r \<in> set (frozen_regions fz). rgn_enable r \<longrightarrow> rgn_array r = None"
    and "no_overlap (refs fz) (objects fz)"
  shows "\<exists>fz' k'. write_pass M ph ad fz k = (Inr (), fz', k') \<and> freezer_inv fz' \<and>
    list_all2 (\<lambda>r r'. \<exists>e. r' = r\<lparr>rgn_error := e\<rparr>) (frozen_regions fz) (frozen_regions fz') \<and>
    (\<forall>x. (\<forall>r \<in> set (frozen_regions fz). x \<notin> region_cells r) \<longrightarrow> mem k' x = mem k x) \<and>
    (\<forall>r \<in> set (frozen_regions fz'). rgn_enable r \<and> rgn_error r = [] \<longrightarrow> cells_held mem k' r)"
proof -
  note D = freezer_invD [OF assms(3)]
  obtain objs' k' where w: "write_each M ph ad (refs fz) (objects fz) k = (Inr (), objs', k')"
    and rd: "round_done mem (refs fz) (objects fz) k objs' k'"
    using write_each_holds [OF assms(1,2) D(2) _ _ assms(5), of k] D(1) assms(4)
    unfolding frozen_regions_refs set_map by blast
  have len: "length objs' = length (objects fz)"
    and same: "\<forall>q. \<exists>e. objs' ! q = (objects fz ! q)\<lparr>rgn_error := e\<rparr>"
    and frame: "\<forall>x. (\<forall>p \<in> set (refs fz). x \<notin> region_cells (objects fz ! p)) \<longrightarrow> mem k' x = mem k x"
    and held: "\<forall>p \<in> set (refs fz). rgn_enable (objects fz ! p) \<and> rgn_error (objs' ! p) = [] \<longrightarrow>
      cells_held mem k' (objects fz ! p)"
    using rd by (simp_all add: round_done_def)
  let ?fz = "fz\<lparr>objects := objs'\<rparr>"
  have run: "write_pass M ph ad fz k = (Inr (), ?fz, k')"
    using w by (simp add: write_pass_def refs_def)
  have inv: "freezer_inv ?fz"
  proof (rule inv_modify_objects [OF assms(3) len])
    fix p
    obtain e where "objs' ! p = (objects fz ! p)\<lparr>rgn_error := e\<rparr>" using same by blast
    then show "rgn_name (objs' ! p) = rgn_name (objects fz ! p) \<and>
       rgn_addr (objs' ! p) = rgn_addr (objects fz ! p) \<and> rgn_index (objs' ! p) = rgn_index (objects fz ! p)"
      by simp
  qed
  have fr: "frozen_regions ?fz = map ((!) objs') (refs fz)"
    by (simp add: frozen_regions_refs) (simp add: refs_def)
  have "list_all2 (\<lambda>r r'. \<exists>e. r' = r\<lparr>rgn_error := e\<rparr>) (frozen_regions fz) (frozen_regions ?fz)"
    unfolding fr frozen_regions_refs [of fz] using same by (simp add: list_all2_conv_all_nth)
  moreover have "\<forall>x. (\<forall>r \<in> set (frozen_regions fz). x \<notin> region_cells r) \<longrightarrow> mem k' x = mem k x"
    using frame by (simp add: frozen_regions_refs)
  moreover have "cells_held mem k' (objs' ! p)"
    if "p \<in> set (refs fz)" "rgn_enable (objs' ! p)" "rgn_error (objs' ! p) = []" for p
  proof -
    obtain e where "objs' ! p = (objects fz ! p)\<lparr>rgn_error := e\<rparr>" using same by blast
    then show ?thesis using held that by auto
  qed
  then have "\<forall>r \<in> set (frozen_regions ?fz). rgn_enable r \<and> rgn_error r = [] \<longrightarrow> cells_held mem k' r"
    unfolding fr by auto
  ultimately show ?thesis using run inv by blast
qed

end
