(* ===== verification/FreezerWitness.thy ===== *)
theory FreezerWitness
  imports FreezerWrite RefKernel
begin

text \<open>
  Concrete registries: each property of the freezer is applied to inputs on which its
  hypotheses hold. The kernel parameter is a flat memory that every write succeeds on.
\<close>

definition one_frozen :: freezer where
  "one_frozen = freeze ''hp'' 4096 [1, 2] True new_freezer"

lemma one_frozen_ok: "freezer_inv one_frozen \<and> next_index one_frozen = 1 \<and>
    frozen_regions one_frozen = [new_region ''hp'' 0 4096 [1, 2] True]"
  unfolding one_frozen_def freeze_def
  using add_region_spec [OF new_freezer_inv, of "new_region ''hp'' 0 4096 [1, 2] True"]
  by (simp add: new_freezer_def new_region_def frozen_regions_def add_region_def Let_def)

theorem freeze_appends_witness:
  "map rgn_index (frozen_regions (freeze ''mp'' 8192 [3] True one_frozen)) = [0, 1]"
  using freeze_appends [of one_frozen "''mp''" 8192 "[3]" True 0 "[]" None None] one_frozen_ok
  by (simp add: new_region_def)

theorem unfreeze_removes_witness:
  "frozen_regions (snd (unfreeze_name ''hp'' one_frozen)) = [] \<and>
   fst (unfreeze_addr 4096 one_frozen) = 1 \<and> \<not> fst (unfreeze_index 7 one_frozen)"
  using unfreeze_removes [of one_frozen "''hp''" 4096 7] one_frozen_ok
  by (simp add: new_region_def)

theorem enable_sets_flag_witness:
  "map rgn_enable (frozen_regions (snd (enable_name ''hp'' False one_frozen))) = [False] \<and>
   fst (enable_all True one_frozen) = 0"
  using enable_sets_flag [of one_frozen "''hp''" False 4096] enable_sets_flag [of one_frozen "[]" True 0]
    one_frozen_ok
  by (simp add: new_region_def)

theorem unfreeze_all_leaves_addresses_witness:
  "fst (unfreeze_all one_frozen) = 1 \<and> fst (unfreeze_addr 4096 (snd (unfreeze_all one_frozen))) = 1"
  using unfreeze_all_leaves_addresses [of one_frozen 4096] one_frozen_ok
  by (simp add: new_region_def)

section \<open>Arrays\<close>

text \<open>Three slots of two bytes; the data is \<open>05 06\<close>, nothing is masked, zero is null.\<close>

definition three_fields :: array_fields where
  "three_fields = \<lparr>num_items = 3, data_mask = [255, 255], null_data = [], null_data_mask = []\<rparr>"

definition three_slots :: frozen where
  "three_slots = (new_region ''inv'' 0 4096 [5, 6] True)\<lparr>rgn_array := Some three_fields\<rparr>"

lemma three_slots_wf: "array_wf three_slots three_fields"
  by (simp add: array_wf_def three_slots_def three_fields_def new_region_def)

lemma three_simps [simp]:
  "rgn_data three_slots = [5, 6]" "num_items three_fields = 3" "data_mask three_fields = [255, 255]"
  "null_data three_fields = []"
  by (simp_all add: three_slots_def three_fields_def new_region_def)

lemma below_three: "[0..<3] = [0, 1, 2 :: nat]"
  by (simp add: upt_rec)

lemma masked_equal_two:
  "masked_equal [a, b] [c, d] [m, n] \<longleftrightarrow> (a \<noteq> c \<longrightarrow> m = 0) \<and> (b \<noteq> d \<longrightarrow> n = 0)"
  by (auto simp: masked_equal_def less_Suc_eq)

lemmas slot_eval = slot_kind_def slot_bytes_def is_null_slot_def masked_equal_two slot_offset_def
  below_three

theorem array_scan_first_slot_witness:
  "scan_slots three_slots three_fields [1, 1, 0, 0, 5, 6] 0 = Inr (Null_slot 2)"
  using array_scan_first_slot [OF three_slots_wf, of "[1, 1, 0, 0, 5, 6]"]
  by (simp add: slot_eval)

theorem array_write_settles_witness:
  "scan_slots three_slots three_fields [1, 1, 5, 6, 0, 0] 0 = Inr Already"
proof -
  have "scan_slots three_slots three_fields [1, 1, 0, 0, 0, 0] 0 = Inr (Null_slot 2)"
    using scan_slots_find [OF three_slots_wf, of "[1, 1, 0, 0, 0, 0]" 0] by (simp add: slot_eval)
  then show ?thesis
    using array_write_settles [OF three_slots_wf, of "[1, 1, 0, 0, 0, 0]" 2]
    by (simp add: overwrite_def)
qed

theorem array_write_duplicates_witness:
  "scan_slots three_slots three_fields [0, 0, 5, 6, 1, 1] 0 = Inr (Null_slot 0)"
  using array_write_duplicates [OF three_slots_wf, of "[0, 0, 5, 6, 1, 1]"]
  by (simp add: slot_bytes_def masked_equal_two)

section \<open>A round of writes\<close>

definition flat_mach :: "(u64 \<Rightarrow> byte) mach" where
  "flat_mach = \<lparr>
     task_for_pid = (\<lambda>k p. (KERN_SUCCESS, 7)),
     mach_vm_region = (\<lambda>k t x. (1, x, 0, rw_info)),
     mach_vm_read_overwrite = (\<lambda>k t x n. (1, [])),
     mach_vm_write = (\<lambda>k t a bs. if length bs < 2 ^ 64
       then (KERN_SUCCESS, \<lambda>x. if unat (x - a) < length bs then bs ! unat (x - a) else k x)
       else (1, k)),
     mach_vm_protect = (\<lambda>k t x n p. (1, k)),
     vm_allocate = (\<lambda>k t x n b. (1, x, k)),
     vm_deallocate = (\<lambda>k t x n. (1, k)),
     task_suspend = (\<lambda>k t. (KERN_SUCCESS, k)),
     task_resume = (\<lambda>k t. (KERN_SUCCESS, k)),
     task_terminate = (\<lambda>k t. (1, k)),
     task_threads = (\<lambda>k t. (1, [])),
     thread_terminate = (\<lambda>k t. (1, k))\<rparr>"

lemma footprint_iff:
  assumes "n < 2 ^ 64"
  shows "x \<in> footprint a n \<longleftrightarrow> unat (x - a) < n"
proof
  assume "x \<in> footprint a n"
  then show "unat (x - a) < n" using assms by (auto simp: footprint_def unat_of_nat)
next
  assume "unat (x - a) < n"
  moreover have "x = a + of_nat (unat (x - a))" by simp
  ultimately show "x \<in> footprint a n" unfolding footprint_def by blast
qed

lemma flat_write_stores: "write_stores flat_mach t (\<lambda>k. k)"
  by (auto simp: write_stores_def flat_mach_def footprint_iff unat_of_nat KERN_SUCCESS_def split: if_splits)

theorem write_pass_holds_regions_witness:
  "\<exists>fz' k'. write_pass flat_mach ref_phosg ref_adapter one_frozen (\<lambda>x. 0) = (Inr (), fz', k') \<and>
     k' 4100 = 0 \<and> length (frozen_regions fz') = 1"
proof -
  have obj: "refs one_frozen = [0]"
    by (simp add: one_frozen_def freeze_def add_region_def new_freezer_def refs_def new_region_def)
  have "no_overlap (refs one_frozen) (objects one_frozen)" by (simp add: no_overlap_def obj)
  moreover have "\<And>args. string_printf ref_phosg write_failure args \<noteq> []"
    by (simp add: ref_phosg_def write_failure_def)
  ultimately obtain fz' k' where
    "write_pass flat_mach ref_phosg ref_adapter one_frozen (\<lambda>x. 0) = (Inr (), fz', k')"
    "list_all2 (\<lambda>r r'. \<exists>e. r' = r\<lparr>rgn_error := e\<rparr>) (frozen_regions one_frozen) (frozen_regions fz')"
    "\<forall>x. (\<forall>r \<in> set (frozen_regions one_frozen). x \<notin> region_cells r) \<longrightarrow> k' x = 0"
    using write_pass_holds_regions [OF flat_write_stores, of ref_phosg one_frozen ref_adapter "\<lambda>x. 0"]
      one_frozen_ok
    by (auto simp: new_region_def)
  moreover have "4100 \<notin> footprint 4096 2"
    by (simp add: footprint_iff)
  ultimately show ?thesis
    using one_frozen_ok by (auto simp: new_region_def region_cells_def numeral_2_eq_2 dest: list_all2_lengthD)
qed

end
