(* ===== verification/ShellState.thy ===== *)
theory ShellState
  imports MemorySearch RegionFreezer "HOL-Library.List_Lexorder" "HOL-Library.Char_ord"
begin

text \<open>
  The state of MemwatchShell, the world it runs in, and the functions all command handlers
  share: argument splitting, typed values, address arguments and the lookup of searches.
\<close>

section \<open>The world\<close>

text \<open>
  Everything outside the repository that the shell calls: the kernel, phosg, floating-point
  parsing of the C library, process names, files, the clock and signals. \<open>signals\<close> counts the
  SIGINTs delivered so far, \<open>sleep\<close> is \<open>usleep\<close>; \<open>find_poll\<close> tells at which region and
  offset a thread of \<open>find\<close> sees a signal; \<open>past_end\<close> is what a read through the end iterator
  gives (\<open>None\<close> when it is caught); \<open>new_string\<close> is the allocation of a string of a size that
  the user gave (it can throw \<open>length_error\<close> or \<open>bad_alloc\<close>).
\<close>

record 'k env =
  env_mach :: "'k mach"
  env_phosg :: phosg
  env_encoding :: encoding
  stof :: "string \<Rightarrow> (32 word) res"
  stod :: "string \<Rightarrow> (64 word) res"
  pid_for_name :: "'k \<Rightarrow> string \<Rightarrow> int res"
  name_for_pid :: "'k \<Rightarrow> int \<Rightarrow> string res"
  kill_process :: "'k \<Rightarrow> int \<Rightarrow> int \<Rightarrow> int \<times> 'k"
  save_file :: "'k \<Rightarrow> string \<Rightarrow> byte list \<Rightarrow> unit res \<times> 'k"
  fopen_unique :: "'k \<Rightarrow> string \<Rightarrow> string \<Rightarrow> unit res \<times> 'k"
  format_now :: "'k \<Rightarrow> string"
  sleep :: "'k \<Rightarrow> nat \<Rightarrow> 'k"
  signals :: "'k \<Rightarrow> nat"
  find_poll :: "'k \<Rightarrow> nat \<Rightarrow> u64 \<Rightarrow> bool"
  past_end :: "u64 option"
  new_string :: "u64 \<Rightarrow> unit res"

text \<open>
  Output: a \<open>printf\<close> with its format and arguments, or text composed by other components;
  and a text file that is written.
\<close>

datatype out =
    Printf string "parg list"
  | Text string
  | File string "out list"

section \<open>State\<close>

record 'k shell =
  sh_adapter :: adapter
  sh_freezer :: freezer
  sh_pid :: int
  process_name :: string
  pause_target :: bool
  watch :: bool
  interactive :: bool
  run :: bool
  use_color :: bool
  num_commands_run :: u64
  max_results :: u64
  max_search_iterations :: u64
  name_to_searches :: "(string \<times> memory_search list) list"
  current_search_name :: string
  find_results :: "u64 list"
  kernel :: 'k
  printed :: "out list"

text \<open>The constructor; it throws what attaching to the process throws.\<close>

definition new_shell ::
  "'k env \<Rightarrow> int \<Rightarrow> u64 \<Rightarrow> u64 \<Rightarrow> bool \<Rightarrow> bool \<Rightarrow> bool \<Rightarrow> 'k \<Rightarrow> 'k shell res" where
  "new_shell env p max_res max_iter pause_t is_inter color k =
     (case attach (env_mach env) (env_phosg env) p k of
        (Inl f, _) \<Rightarrow> Inl f
      | (Inr _, ad) \<Rightarrow>
          res_bind (name_for_pid env k p) (\<lambda>name.
            Inr \<lparr>sh_adapter = ad, sh_freezer = new_freezer, sh_pid = p, process_name = name,
              pause_target = pause_t, watch = False, interactive = is_inter, run = True,
              use_color = color, num_commands_run = 0, max_results = max_res,
              max_search_iterations = max_iter, name_to_searches = [],
              current_search_name = [], find_results = [], kernel = k, printed = []\<rparr>))"

section \<open>Command effects\<close>

type_synonym ('k, 'a) sh = "'k shell \<Rightarrow> ('a res \<times> 'k shell) option"

definition sret :: "'a \<Rightarrow> ('k, 'a) sh" where
  "sret x s = Some (Inr x, s)"

definition sfail :: "failure \<Rightarrow> ('k, 'a) sh" where
  "sfail f s = Some (Inl f, s)"

definition sbind :: "('k, 'a) sh \<Rightarrow> ('a \<Rightarrow> ('k, 'b) sh) \<Rightarrow> ('k, 'b) sh" where
  "sbind m k s =
     (case m s of
        None \<Rightarrow> None
      | Some (Inl f, s') \<Rightarrow> Some (Inl f, s')
      | Some (Inr x, s') \<Rightarrow> k x s')"

definition scatch :: "(failure \<Rightarrow> bool) \<Rightarrow> ('k, 'a) sh \<Rightarrow> (failure \<Rightarrow> ('k, 'a) sh) \<Rightarrow> ('k, 'a) sh" where
  "scatch p m h s =
     (case m s of
        None \<Rightarrow> None
      | Some (Inl f, s') \<Rightarrow> if p f then h f s' else Some (Inl f, s')
      | Some (Inr x, s') \<Rightarrow> Some (Inr x, s'))"

definition sthen :: "('k, unit) sh \<Rightarrow> ('k, 'b) sh \<Rightarrow> ('k, 'b) sh" where
  "sthen m m' = sbind m (\<lambda>_. m')"

definition slift :: "'a res \<Rightarrow> ('k, 'a) sh" where
  "slift r s = Some (r, s)"

definition sread :: "('k shell \<Rightarrow> 'a res) \<Rightarrow> ('k, 'a) sh" where
  "sread f s = Some (f s, s)"

definition sget :: "('k shell \<Rightarrow> 'a) \<Rightarrow> ('k, 'a) sh" where
  "sget f s = Some (Inr (f s), s)"

definition smod :: "('k shell \<Rightarrow> 'k shell) \<Rightarrow> ('k, unit) sh" where
  "smod f s = Some (Inr (), f s)"

definition emit :: "out \<Rightarrow> ('k, unit) sh" where
  "emit e = smod (\<lambda>s. s\<lparr>printed := printed s @ [e]\<rparr>)"

definition emit_all :: "out list \<Rightarrow> ('k, unit) sh" where
  "emit_all es = smod (\<lambda>s. s\<lparr>printed := printed s @ es\<rparr>)"

definition invalid :: "string \<Rightarrow> ('k, 'a) sh" where
  "invalid msg = sfail (Throw (Invalid_argument msg))"

text \<open>An effect on the kernel, and one in the scope of the usual pause guard.\<close>

definition on_kernel :: "(adapter \<Rightarrow> ('k, 'a) effect) \<Rightarrow> ('k, 'a) sh" where
  "on_kernel m s = (case m (sh_adapter s) (kernel s) of (r, k') \<Rightarrow> Some (r, s\<lparr>kernel := k'\<rparr>))"

definition guarded :: "'k env \<Rightarrow> (adapter \<Rightarrow> ('k, 'a) partial_effect) \<Rightarrow> ('k, 'a) sh" where
  "guarded env m s =
     (case with_pause_guard (env_mach env) (env_phosg env)
             (if pause_target s then Some (sh_adapter s) else None) (m (sh_adapter s)) (kernel s)
      of None \<Rightarrow> None
       | Some (r, k') \<Rightarrow> Some (r, s\<lparr>kernel := k'\<rparr>))"

definition total :: "('k, 'a) effect \<Rightarrow> ('k, 'a) partial_effect" where
  "total m k = Some (m k)"

lemmas sh_defs = sret_def sfail_def sbind_def scatch_def sthen_def slift_def sread_def sget_def
  smod_def emit_def emit_all_def invalid_def on_kernel_def total_def

lemma sh_simps [simp]:
  "sret x s = Some (Inr x, s)" "sfail f s = Some (Inl f, s)" "slift r s = Some (r, s)"
  "sread g s = Some (g s, s)" "sget h s = Some (Inr (h s), s)" "smod u s = Some (Inr (), u s)"
  "emit e s = Some (Inr (), s\<lparr>printed := printed s @ [e]\<rparr>)"
  "emit_all es s = Some (Inr (), s\<lparr>printed := printed s @ es\<rparr>)"
  "invalid msg s = Some (Inl (Throw (Invalid_argument msg)), s)"
  by (simp_all add: sh_defs)

lemma sbind_simps [simp]:
  "m s = None \<Longrightarrow> sbind m k s = None"
  "m s = Some (Inl f, s') \<Longrightarrow> sbind m k s = Some (Inl f, s')"
  "m s = Some (Inr x, s') \<Longrightarrow> sbind m k s = k x s'"
  by (simp_all add: sbind_def)

lemma scatch_simps [simp]:
  "m s = None \<Longrightarrow> scatch p m h s = None"
  "m s = Some (Inl f, s') \<Longrightarrow> scatch p m h s = (if p f then h f s' else Some (Inl f, s'))"
  "m s = Some (Inr x, s') \<Longrightarrow> scatch p m h s = Some (Inr x, s')"
  by (simp_all add: scatch_def)

lemma sthen_simps [simp]:
  "m s = None \<Longrightarrow> sthen m m' s = None"
  "m s = Some (Inl f, s') \<Longrightarrow> sthen m m' s = Some (Inl f, s')"
  "m s = Some (Inr (), s') \<Longrightarrow> sthen m m' s = m' s'"
  by (simp_all add: sthen_def)

section \<open>Strings\<close>

text \<open>\<open>s[i]\<close> for \<open>i \<le> s.size()\<close>: the terminating NUL at the end.\<close>

definition char_at :: "string \<Rightarrow> nat \<Rightarrow> char" where
  "char_at s i = (if i < length s then s ! i else CHR 0x00)"

definition substr :: "string \<Rightarrow> nat \<Rightarrow> string res" where
  "substr s pos =
     (if pos \<le> length s then Inr (drop pos s) else Inl (Throw (Out_of_range ''basic_string'')))"

definition find_char :: "char \<Rightarrow> string \<Rightarrow> nat option" where
  "find_char c s =
     (let n = length (takeWhile (\<lambda>x. x \<noteq> c) s) in if n < length s then Some n else None)"

section \<open>Arguments\<close>

text \<open>Too many arguments are reported with the same text as too few.\<close>

definition split_args :: "phosg \<Rightarrow> string \<Rightarrow> nat \<Rightarrow> nat \<Rightarrow> string list res" where
  "split_args ph args_str min_args max_args =
     (let args = split_string ph args_str (CHR '' '')
      in if length args < min_args then Inl (Throw (Invalid_argument ''not enough arguments''))
         else if max_args \<noteq> 0 \<and> max_args < length args
         then Inl (Throw (Invalid_argument ''not enough arguments''))
         else Inr args)"

text \<open>
  \<open>read_typed_value\<close>: the union of eight bytes is filled from the parsed value, swapped in
  place for the reverse-endian types and cut to the size of the type.
\<close>

definition swap_union :: "encoding \<Rightarrow> nat \<Rightarrow> byte list \<Rightarrow> byte list" where
  "swap_union enc sz buf =
     (if sz = 2 then to_le 2 (unat (bswap16 enc (of_nat (le_nat (take 2 buf))))) @ drop 2 buf
      else if sz = 4 then to_le 4 (unat (bswap32 enc (of_nat (le_nat (take 4 buf))))) @ drop 4 buf
      else if sz = 8 then to_le 8 (unat (bswap64 enc (of_nat (le_nat (take 8 buf))))) @ drop 8 buf
      else buf)"

definition read_typed_value :: "'k env \<Rightarrow> search_type \<Rightarrow> string \<Rightarrow> byte list res" where
  "read_typed_value env t s =
     res_bind
       (if is_integer_search_type t
        then res_bind (stoull s 0) (\<lambda>(v, _). Inr (to_le 8 (unat v)))
        else if t = FLOAT \<or> t = FLOAT_RE
        then res_bind (stof env s) (\<lambda>v. Inr (to_le 4 (unat v) @ [0, 0, 0, 0]))
        else if t = DOUBLE \<or> t = DOUBLE_RE
        then res_bind (stod env s) (\<lambda>v. Inr (to_le 8 (unat v)))
        else res_bind (parse_data_string (env_phosg env) s) (\<lambda>(d, _). Inr d))
       (\<lambda>buf.
          let sz = value_size_for_search_type t;
              buf' = (if is_reverse_endian_search_type t then swap_union (env_encoding env) sz buf
                      else buf)
          in Inr (if t \<noteq> DATA then take sz buf' else buf'))"

section \<open>Searches by name\<close>

definition search_key :: "'k shell \<Rightarrow> string option \<Rightarrow> string" where
  "search_key s name = (case name of None \<Rightarrow> current_search_name s | Some n \<Rightarrow> n)"

definition get_searches :: "string option \<Rightarrow> 'k shell \<Rightarrow> memory_search list res" where
  "get_searches name s =
     (case map_of (name_to_searches s) (search_key s name) of
        Some searches \<Rightarrow> Inr searches
      | None \<Rightarrow> Inl (Throw (Invalid_argument ''search not found, or no search is open'')))"

definition get_latest_search :: "string option \<Rightarrow> 'k shell \<Rightarrow> memory_search res" where
  "get_latest_search name s =
     res_bind (get_searches name s)
       (\<lambda>searches. if searches = []
          then Inl (Throw (Invalid_argument ''search does not contain any iterations''))
          else Inr (last searches))"

text \<open>An empty name argument stands for the current search.\<close>

definition opt_name :: "string \<Rightarrow> string option" where
  "opt_name args = (if args = [] then None else Some args)"

section \<open>Address arguments\<close>

definition result_at :: "u64 list \<Rightarrow> u64 \<Rightarrow> string \<Rightarrow> u64 res" where
  "result_at rs index msg =
     (if length rs \<le> unat index then Inl (Throw (Invalid_argument msg)) else Inr (rs ! unat index))"

definition get_addr_from_command :: "string \<Rightarrow> 'k shell \<Rightarrow> u64 res" where
  "get_addr_from_command args s =
     (if char_at args 0 = CHR ''x'' \<or> char_at args 0 = CHR ''s'' then
        res_bind (res_bind (substr args 1) (\<lambda>rest. stoull rest 0)) (\<lambda>(index, num_end_pos).
          res_bind
            (if num_end_pos + 1 < length args
             then (if char_at args (num_end_pos + 1) = CHR ''@'' then substr args (num_end_pos + 2)
                   else if char_at args (num_end_pos + 1) \<noteq> CHR '' ''
                   then Inl (Throw (Invalid_argument ''extra characters after result id''))
                   else Inr [])
             else Inr [])
            (\<lambda>search_name.
               res_bind (get_latest_search (opt_name search_name) s) (\<lambda>srch.
                 result_at (results srch) index ''search does not have enough results'')))
      else if char_at args 0 = CHR ''t'' then
        res_bind (res_bind (substr args 1) (\<lambda>rest. stoull rest 0)) (\<lambda>(index, num_end_pos).
          if num_end_pos + 1 < length args \<and> char_at args (num_end_pos + 1) \<noteq> CHR '' ''
          then Inl (Throw (Invalid_argument ''extra characters after result id''))
          else result_at (find_results s) index ''find does not have enough results'')
      else res_bind (stoull args 16) (\<lambda>(a, _). Inr a))"

end
