(* ===== verification/ShellSearch.thy ===== *)
theory ShellSearch
  imports ShellState
begin

text \<open>
  The command handlers of MemwatchShell that work on searches: \<open>open\<close>, \<open>fork\<close>, \<open>search\<close>,
  \<open>results\<close>, \<open>delete\<close>, \<open>iterations\<close>, \<open>truncate\<close>, \<open>undo\<close>, \<open>set\<close> and \<open>close\<close>.
\<close>

definition nl :: string where
  "nl = [CHR 0x0A]"

definition interactive_only :: "('k, 'a) sh \<Rightarrow> ('k, 'a) sh" where
  "interactive_only m s =
     (if interactive s then m s
      else sfail (Throw (Invalid_argument ''this command can only be used in interactive mode'')) s)"

text \<open>Assignments through the references that \<open>get_searches\<close> and \<open>get_latest_search\<close> return.\<close>

definition set_searches :: "string \<Rightarrow> memory_search list \<Rightarrow> ('k, unit) sh" where
  "set_searches key searches =
     smod (\<lambda>s. s\<lparr>name_to_searches := omap_modify key (\<lambda>_. searches) (name_to_searches s)\<rparr>)"

definition set_latest :: "string \<Rightarrow> memory_search \<Rightarrow> ('k, unit) sh" where
  "set_latest key srch =
     smod (\<lambda>s. s\<lparr>name_to_searches :=
       omap_modify key (\<lambda>searches. butlast searches @ [srch]) (name_to_searches s)\<rparr>)"

definition slift_prog :: "'a prog \<Rightarrow> ('k, 'a) sh" where
  "slift_prog p s = (case p of None \<Rightarrow> None | Some r \<Rightarrow> Some (r, s))"

section \<open>Printing results\<close>

text \<open>The value of a result by type; the reverse-endian cases swap in place and fall through.\<close>

definition value_format :: "encoding \<Rightarrow> search_type \<Rightarrow> byte list \<Rightarrow> string \<times> parg list" where
  "value_format enc t data =
     (let sz = value_size_for_search_type t;
          bytes = (if is_reverse_endian_search_type t then swap_union enc sz data else data);
          v = int (le_nat bytes);
          sv = signed_take_bit (8 * sz - 1) v;
          w = le_nat bytes
      in case t of
           UINT8 \<Rightarrow> (''%hhu (0x%02hhX)'' @ nl, [PInt v, PInt v])
         | UINT16 \<Rightarrow> (''%hu (0x%04hX)'' @ nl, [PInt v, PInt v])
         | UINT16_RE \<Rightarrow> (''%hu (0x%04hX)'' @ nl, [PInt v, PInt v])
         | UINT32 \<Rightarrow> (''%u (0x%08X)'' @ nl, [PInt v, PInt v])
         | UINT32_RE \<Rightarrow> (''%u (0x%08X)'' @ nl, [PInt v, PInt v])
         | UINT64 \<Rightarrow> (''%llu (0x%016llX)'' @ nl, [PInt v, PInt v])
         | UINT64_RE \<Rightarrow> (''%llu (0x%016llX)'' @ nl, [PInt v, PInt v])
         | INT8 \<Rightarrow> (''%hhd (0x%02hhX)'' @ nl, [PInt sv, PInt sv])
         | INT16 \<Rightarrow> (''%hd (0x%04hX)'' @ nl, [PInt sv, PInt sv])
         | INT16_RE \<Rightarrow> (''%hd (0x%04hX)'' @ nl, [PInt sv, PInt sv])
         | INT32 \<Rightarrow> (''%d (0x%08X)'' @ nl, [PInt sv, PInt sv])
         | INT32_RE \<Rightarrow> (''%d (0x%08X)'' @ nl, [PInt sv, PInt sv])
         | INT64 \<Rightarrow> (''%lld (0x%016llX)'' @ nl, [PInt sv, PInt sv])
         | INT64_RE \<Rightarrow> (''%lld (0x%016llX)'' @ nl, [PInt sv, PInt sv])
         | FLOAT \<Rightarrow> (''%f (0x%08X)'' @ nl, [PFloat 32 w, PInt v])
         | FLOAT_RE \<Rightarrow> (''%f (0x%08X)'' @ nl, [PFloat 32 w, PInt v])
         | DOUBLE \<Rightarrow> (''%lf (0x%016llX)'' @ nl, [PFloat 64 w, PInt v])
         | DOUBLE_RE \<Rightarrow> (''%lf (0x%016llX)'' @ nl, [PFloat 64 w, PInt v])
         | DATA \<Rightarrow> ([], []))"

text \<open>One result of a fixed-size search: exceptions of the read are printed.\<close>

definition print_value :: "'k env \<Rightarrow> search_type \<Rightarrow> u64 \<Rightarrow> ('k, unit) sh" where
  "print_value env t a =
     (let sz = value_size_for_search_type t
      in scatch is_exception
           (sbind (on_kernel (\<lambda>ad. read_bytes (env_mach env) (env_phosg env) ad a (of_nat sz))) (\<lambda>data.
            sbind (slift (load sz (at_offset data 0))) (\<lambda>bytes.
              (case value_format (env_encoding env) t bytes of (fmt, args) \<Rightarrow> emit (Printf fmt args)))))
           (\<lambda>f. emit (Printf (''<< memory not readable, %s >>'' @ nl) [PStr (what f)])))"

fun print_results_from :: "'k env \<Rightarrow> search_type \<Rightarrow> nat \<Rightarrow> u64 list \<Rightarrow> ('k, unit) sh" where
  "print_results_from env t x [] = sret ()"
| "print_results_from env t x (a # as) =
     sthen
       (if t = DATA then emit (Printf (''(%llu) %016llX'' @ nl) [PInt (int x), PInt (uint a)])
        else sthen (emit (Printf ''(%llu) %016llX '' [PInt (int x), PInt (uint a)])) (print_value env t a))
       (print_results_from env t (Suc x) as)"

definition print_search_results :: "'k env \<Rightarrow> memory_search \<Rightarrow> ('k, unit) sh" where
  "print_search_results env srch = print_results_from env (search_type srch) 0 (results srch)"

text \<open>
  \<open>command_results\<close>: with \<open>watch\<close> set the results are printed every second until a signal that
  arrives after the loop's Signalable was constructed.
\<close>

partial_function (option) results_loop ::
  "'k env \<Rightarrow> memory_search \<Rightarrow> nat \<Rightarrow> 'k shell \<Rightarrow> (unit res \<times> 'k shell) option" where
  "results_loop env srch seen s =
     (case print_search_results env srch s of
        None \<Rightarrow> None
      | Some (Inl f, s1) \<Rightarrow> Some (Inl f, s1)
      | Some (Inr _, s1) \<Rightarrow>
          if \<not> watch s1 then Some (Inr (), s1)
          else (let s2 = s1\<lparr>kernel := sleep env (kernel s1) 1000000\<rparr>
                in if seen < signals env (kernel s2) then Some (Inr (), s2)
                   else results_loop env srch seen s2))"

definition command_results :: "'k env \<Rightarrow> string \<Rightarrow> ('k, unit) sh" where
  "command_results env args =
     interactive_only
       (sbind (sread (get_latest_search (opt_name args))) (\<lambda>srch.
          if \<not> has_memory_snapshot srch
          then invalid ''search not found, or no search currently open''
          else sbind (sget kernel) (\<lambda>k. results_loop env srch (signals env k))))"

section \<open>Searching\<close>

text \<open>
  The arguments of \<open>search\<close>: name, predicate, value and annotation. A first argument that is
  not a predicate is taken as the name of a search.
\<close>

definition parse_search_args ::
  "string \<Rightarrow> string list \<Rightarrow> (string \<times> predicate \<times> string \<times> string) res" where
  "parse_search_args current args =
     (let a = (\<lambda>i. args ! i)
      in case search_predicate_for_name (c_str (a 0)) of
           Inr p \<Rightarrow>
             Inr (if 1 < length args
                  then (current, p, a 1, a 0 @ '' '' @ a 1 @ '' at '')
                  else (current, p, [], a 0 @ '' previous at ''))
         | Inl f \<Rightarrow>
             if \<not> is_out_of_range f then Inl f
             else if length args < 2 then Inl (Throw (Invalid_argument ''not enough arguments''))
             else res_bind (search_predicate_for_name (c_str (a 1))) (\<lambda>p.
               Inr (if 2 < length args
                    then (a 0, p, a 2, a 1 @ '' '' @ a 2 @ '' at '')
                    else (a 0, p, [], a 1 @ '' previous at ''))))"

text \<open>
  The oldest iterations are erased when there are more than \<open>max_search_iterations\<close>; the
  difference of the 64-bit numbers is read as signed. Erasing more than there are is undefined.
\<close>

definition trim_iterations :: "u64 \<Rightarrow> memory_search list \<Rightarrow> memory_search list res" where
  "trim_iterations max_iter searches =
     (let num_to_delete = of_nat (length searches) - max_iter :: u64
      in if 0 < sint num_to_delete
         then (if length searches < unat num_to_delete then Inl (Undefined Bad_erase)
               else Inr (drop (unat num_to_delete) searches))
         else Inr searches)"

definition snapshot_for :: "'k env \<Rightarrow> memory_search \<Rightarrow> ('k, region list) sh" where
  "snapshot_for env latest =
     guarded env (\<lambda>ad.
       if has_valid_results latest
       then get_target_regions (env_mach env) (env_phosg env) ad (past_end env) (results latest) True
       else get_all_regions (env_mach env) (env_phosg env) ad True)"

definition run_search ::
  "'k env \<Rightarrow> string \<Rightarrow> predicate \<Rightarrow> string \<Rightarrow> string \<Rightarrow> ('k, unit) sh" where
  "run_search env name p value annot =
     sbind (sread (get_searches (Some name))) (\<lambda>searches.
       if searches = [] then sfail (Throw (Runtime_error ''search has no iterations''))
       else
         sbind (slift (if value \<noteq> [] then read_typed_value env (search_type (last searches)) value
                       else Inr [])) (\<lambda>data.
         sbind (slift (check_can_update (last searches) p data)) (\<lambda>_.
         sbind (snapshot_for env (last searches)) (\<lambda>regions.
         sbind (sget max_results) (\<lambda>max_res.
         sbind (slift_prog (update (env_encoding env) (set_annotation annot (last searches)) regions p
                  data (unat max_res))) (\<lambda>new_search.
         sthen (if length (results new_search) \<le> 20 then print_search_results env new_search
                else sret ())
         (sbind (sget max_search_iterations) (\<lambda>max_iter.
          sbind (slift (trim_iterations max_iter (searches @ [new_search]))) (set_searches name)))))))))"

definition command_search :: "'k env \<Rightarrow> string \<Rightarrow> ('k, unit) sh" where
  "command_search env args_str =
     interactive_only
       (sbind (slift (split_args (env_phosg env) args_str 1 3)) (\<lambda>args.
        sbind (sget current_search_name) (\<lambda>current.
        sbind (slift (parse_search_args current args)) (\<lambda>(name, p, value, annot).
        sbind (sget kernel) (\<lambda>k. run_search env name p value (annot @ format_now env k))))))"

section \<open>Opening, forking and closing\<close>

definition details_for_iteration :: "phosg \<Rightarrow> memory_search \<Rightarrow> string" where
  "details_for_iteration ph srch =
     (if annotation srch \<noteq> [] then annotation srch @ ''; '' else []) @
     (if \<not> has_memory_snapshot srch then ''initial''
      else string_printf ph ''%zu results'' [PInt (int (length (results srch)))]) @
     (if all_memory srch then ''; all memory'' else [])"

definition describe_search :: "phosg \<Rightarrow> string \<times> memory_search list \<Rightarrow> string" where
  "describe_search ph entry =
     (case entry of (name, searches) \<Rightarrow>
        if searches = [] then string_printf ph (''(unknown type) %s'' @ nl) [PStr name]
        else string_printf ph ''%s %s with iterations [''
               [PStr (name_for_search_type (search_type (hd searches))), PStr name] @
             concat (map (\<lambda>x. (if 0 < x then '', ('' else ''('') @
                details_for_iteration ph (searches ! x) @ '')'') [0..<length searches]) @ '']'')"

definition list_searches :: "'k env \<Rightarrow> ('k, unit) sh" where
  "list_searches env =
     sbind (sget name_to_searches) (\<lambda>m.
       emit_all (map (\<lambda>e. Printf (''  %s'' @ nl) [PStr (describe_search (env_phosg env) e)]) m @
         [Printf (''total searches: %zu'' @ nl) [PInt (int (length m))]]))"

text \<open>\<open>if (!current.empty()) if (name_to_searches.erase("")) printf(...)\<close>.\<close>

definition close_unnamed :: "('k, unit) sh" where
  "close_unnamed s =
     (if current_search_name s \<noteq> [] \<and> map_of (name_to_searches s) [] \<noteq> None
      then Some (Inr (), s\<lparr>name_to_searches := omap_erase [] (name_to_searches s),
             printed := printed s @ [Printf (''closed unnamed search'' @ nl) []]\<rparr>)
      else Some (Inr (), s))"

definition switch_to :: "string \<Rightarrow> ('k, unit) sh" where
  "switch_to name =
     sthen (smod (\<lambda>s. s\<lparr>current_search_name := name\<rparr>))
       (sthen close_unnamed (emit (Printf (''switched to search %s'' @ nl) [PStr name])))"

definition open_type :: "string \<Rightarrow> search_type res" where
  "open_type arg =
     (case search_type_for_name (c_str arg) of
        Inr t \<Rightarrow> Inr t
      | Inl f \<Rightarrow> if is_invalid_argument f
                 then Inl (Throw (Invalid_argument (''no search named '' @ arg))) else Inl f)"

definition replace_search :: "string \<Rightarrow> memory_search list \<Rightarrow> ('k, unit) sh" where
  "replace_search name searches =
     smod (\<lambda>s. s\<lparr>name_to_searches := omap_emplace name searches (omap_erase name (name_to_searches s))\<rparr>)"

definition open_new :: "'k env \<Rightarrow> string list \<Rightarrow> ('k, unit) sh" where
  "open_new env args =
     sbind (slift (open_type (args ! 0))) (\<lambda>t.
       let name = (if 2 \<le> length args then args ! 1 else []);
           all_mem = (find_char (CHR ''!'') (args ! 0) \<noteq> None)
       in sthen (replace_search name [new_memory_search t all_mem])
         (sthen (smod (\<lambda>s. s\<lparr>current_search_name := name\<rparr>))
         (sthen close_unnamed
         (sthen (emit (if name = []
                       then Printf (''opened new %s search (unnamed)'' @ nl) [PStr (name_for_search_type t)]
                       else Printf (''opened new %s search named %s'' @ nl)
                              [PStr (name_for_search_type t), PStr name]))
           (if length args \<le> 2 then sret ()
            else if length args = 3 then command_search env (args ! 2)
            else command_search env (args ! 2 @ '' '' @ args ! 3))))))"

definition command_open :: "'k env \<Rightarrow> string \<Rightarrow> ('k, unit) sh" where
  "command_open env args_str =
     interactive_only
       (sbind (slift (split_args (env_phosg env) args_str 0 4)) (\<lambda>args.
          if args = [] then list_searches env
          else sbind (sget name_to_searches) (\<lambda>m.
            if map_of m (args ! 0) \<noteq> None \<and> length args = 1 then switch_to (args ! 0)
            else open_new env args)))"

text \<open>
  \<open>fork\<close>: with two names the target is erased before the source is looked up.
\<close>

definition fork_current :: "string \<Rightarrow> ('k, unit) sh" where
  "fork_current name =
     sbind (sget current_search_name) (\<lambda>current.
       if name = current then invalid ''can't fork a search into itself''
       else sbind (sread (get_searches None)) (\<lambda>searches.
         sthen (replace_search name searches)
         (sthen (emit (Printf (''forked search %s into %s'' @ nl) [PStr current, PStr name]))
           (smod (\<lambda>s. s\<lparr>current_search_name := name\<rparr>)))))"

definition fork_named :: "string \<Rightarrow> string \<Rightarrow> ('k, unit) sh" where
  "fork_named src dst =
     sthen (smod (\<lambda>s. s\<lparr>name_to_searches := omap_erase dst (name_to_searches s)\<rparr>))
       (sbind (sget name_to_searches) (\<lambda>m.
          case map_of m src of
            None \<Rightarrow> sfail (Throw (Out_of_range (''no search named '' @ src)))
          | Some searches \<Rightarrow>
              sthen (smod (\<lambda>s. s\<lparr>name_to_searches := omap_emplace dst searches (name_to_searches s)\<rparr>))
                (emit (Printf (''forked search %s into %s'' @ nl) [PStr src, PStr dst]))))"

definition command_fork :: "'k env \<Rightarrow> string \<Rightarrow> ('k, unit) sh" where
  "command_fork env args_str =
     interactive_only
       (sbind (slift (split_args (env_phosg env) args_str 1 2)) (\<lambda>args.
          if length args = 1 then fork_current (args ! 0) else fork_named (args ! 0) (args ! 1)))"

definition command_close :: "string \<Rightarrow> ('k, unit) sh" where
  "command_close args =
     interactive_only
       (sbind (sget current_search_name) (\<lambda>current.
        sbind (sget name_to_searches) (\<lambda>m.
          if args = []
          then (if map_of m current = None then invalid ''no search currently open''
                else smod (\<lambda>s. s\<lparr>name_to_searches := omap_erase current m, current_search_name := []\<rparr>))
          else (if map_of m args = None then invalid (''no open search named '' @ args)
                else smod (\<lambda>s. s\<lparr>name_to_searches := omap_erase args m,
                       current_search_name := (if current = args then [] else current)\<rparr>)))))"

section \<open>Iterations\<close>

definition command_iterations :: "'k env \<Rightarrow> string \<Rightarrow> ('k, unit) sh" where
  "command_iterations env args_str =
     interactive_only
       (sbind (sread (get_searches (opt_name args_str))) (\<lambda>searches.
          emit_all (map (\<lambda>it. Printf (''  %s'' @ nl)
            [PStr (details_for_iteration (env_phosg env) it)]) searches)))"

definition command_truncate :: "'k env \<Rightarrow> string \<Rightarrow> ('k, unit) sh" where
  "command_truncate env args_str =
     interactive_only
       (sbind (slift (split_args (env_phosg env) args_str 1 2)) (\<lambda>args.
        let name = (if length args = 2 then Some (args ! 0) else None)
        in sbind (sread (get_searches name)) (\<lambda>searches.
           sbind (slift (stoll (if length args = 2 then args ! 1 else args ! 0) 10)) (\<lambda>count.
             if count \<le> 0 then invalid ''retained iteration count must be positive''
             else
               (let num_to_delete = int (length searches) - count
                in if 0 < num_to_delete
                   then sbind (sget (\<lambda>s. search_key s name)) (\<lambda>key.
                     sthen (set_searches key (drop (nat num_to_delete) searches))
                       (emit (Printf (''deleted %zd iterations'' @ nl) [PInt num_to_delete])))
                   else emit (Printf (''deleted 0 iterations'' @ nl) []))))))"

definition command_undo :: "string \<Rightarrow> ('k, unit) sh" where
  "command_undo args_str =
     interactive_only
       (sbind (sread (get_searches (opt_name args_str))) (\<lambda>searches.
          if length searches \<le> 1 then invalid ''cannot undo initial search''
          else sbind (sget (\<lambda>s. search_key s (opt_name args_str))) (\<lambda>key.
            set_searches key (butlast searches))))"

section \<open>Deleting and setting results\<close>

text \<open>One range of \<open>delete\<close>: two addresses around a dash, or one.\<close>

definition parse_range :: "string \<Rightarrow> 'k shell \<Rightarrow> (u64 \<times> u64) res" where
  "parse_range arg s =
     res_bind
       (case find_char (CHR ''-'') arg of
          Some dash \<Rightarrow>
            res_bind (get_addr_from_command (take dash arg) s) (\<lambda>addr1.
            res_bind (res_bind (substr arg (dash + 1)) (\<lambda>rest. get_addr_from_command rest s)) (\<lambda>addr2.
              Inr (addr1, addr2)))
        | None \<Rightarrow> res_bind (get_addr_from_command arg s) (\<lambda>a. Inr (a, a)))
       (\<lambda>(addr1, addr2).
          if addr2 < addr1 then Inl (Throw (Invalid_argument ''range is specified in decreasing order''))
          else Inr (addr1, addr2))"

fun parse_ranges :: "string list \<Rightarrow> 'k shell \<Rightarrow> (u64 \<times> u64) list res" where
  "parse_ranges [] s = Inr []"
| "parse_ranges (arg # args) s =
     res_bind (parse_range arg s) (\<lambda>r. res_bind (parse_ranges args s) (\<lambda>rs. Inr (r # rs)))"

fun delete_ranges :: "memory_search \<Rightarrow> (u64 \<times> u64) list \<Rightarrow> memory_search res" where
  "delete_ranges srch [] = Inr srch"
| "delete_ranges srch ((a, b) # rs) = res_bind (delete_results srch a b) (\<lambda>srch'. delete_ranges srch' rs)"

definition command_delete :: "'k env \<Rightarrow> string \<Rightarrow> ('k, unit) sh" where
  "command_delete env args_str =
     interactive_only
       (sbind (sread (get_latest_search None)) (\<lambda>srch.
        sbind (slift (split_args (env_phosg env) args_str 1 0)) (\<lambda>args.
        sbind (sread (parse_ranges args)) (\<lambda>ranges.
        sbind (slift (delete_ranges srch ranges)) (\<lambda>srch'.
        sbind (sget current_search_name) (\<lambda>key.
        sthen (set_latest key srch')
          (if length (results srch') \<le> 20 then print_search_results env srch' else sret ())))))))"

text \<open>
  The writes of \<open>set\<close>, in the scope of the pause guard: each one's exception is printed.
\<close>

definition write_result :: "'k env \<Rightarrow> adapter \<Rightarrow> byte list \<Rightarrow> u64 \<Rightarrow> ('k, out) effect" where
  "write_result env ad data a k =
     (case write_bytes (env_mach env) (env_phosg env) ad a data k of
        (Inr _, k') \<Rightarrow>
          (Inr (Printf (''%016llX: wrote %zu (0x%zX) bytes'' @ nl)
             [PInt (uint a), PInt (int (length data)), PInt (int (length data))]), k')
      | (Inl f, k') \<Rightarrow>
          if is_exception f
          then (Inr (Printf (''%016llX: failed to write data (%s)'' @ nl) [PInt (uint a), PStr (what f)]), k')
          else (Inl f, k'))"

fun write_results :: "'k env \<Rightarrow> adapter \<Rightarrow> byte list \<Rightarrow> u64 list \<Rightarrow> ('k, out list) effect" where
  "write_results env ad data [] k = (Inr [], k)"
| "write_results env ad data (a # as) k =
     (case write_result env ad data a k of
        (Inl f, k') \<Rightarrow> (Inl f, k')
      | (Inr e, k') \<Rightarrow>
          (case write_results env ad data as k' of
             (Inl f, k'') \<Rightarrow> (Inl f, k'') | (Inr es, k'') \<Rightarrow> (Inr (e # es), k'')))"

text \<open>\<open>set s<index> <value>\<close> or \<open>set <value>\<close>: the index, -1 for all results, and the value.\<close>

definition parse_set_args :: "string \<Rightarrow> (int \<times> string) res" where
  "parse_set_args args =
     (if char_at args 0 = CHR ''s''
      then (case find_char (CHR '' '') args of
              None \<Rightarrow> Inl (Throw (Invalid_argument ''no data was specified''))
            | Some space_pos \<Rightarrow>
                res_bind (stoll (take (space_pos - 1) (drop 1 args)) 0) (\<lambda>index.
                  Inr (index, drop (space_pos + 1) args)))
      else Inr (- 1, args))"

definition set_targets :: "memory_search \<Rightarrow> int \<Rightarrow> u64 list res" where
  "set_targets srch index =
     (if index < 0 then Inr (results srch)
      else if nat index < length (results srch) then Inr [results srch ! nat index]
      else Inl (Throw (Out_of_range ''vector'')))"

definition command_set :: "'k env \<Rightarrow> string \<Rightarrow> ('k, unit) sh" where
  "command_set env args =
     interactive_only
       (sbind (slift (parse_set_args args)) (\<lambda>(index, value_arg).
        sbind (sread (get_latest_search None)) (\<lambda>srch.
          if \<not> has_memory_snapshot srch then invalid ''no initial search performed''
          else sbind (slift (read_typed_value env (search_type srch) value_arg)) (\<lambda>data.
            if data = [] then invalid ''no data was specified''
            else sbind (guarded env (\<lambda>ad. total (\<lambda>k.
                   case set_targets srch index of
                     Inl f \<Rightarrow> (Inl f, k)
                   | Inr targets \<Rightarrow> write_results env ad data targets k))) emit_all))))"

end
