(* ===== verification/ShellFreeze.thy ===== *)
theory ShellFreeze
  imports ShellSearch
begin

text \<open>
  The command handlers of MemwatchShell that work on frozen regions: \<open>freeze\<close>, \<open>unfreeze\<close>,
  \<open>enable\<close>, \<open>disable\<close> and \<open>frozen\<close>.
\<close>

section \<open>Arguments of freeze\<close>

text \<open>The local variables that the argument loop of \<open>freeze\<close> fills.\<close>

record freeze_args =
  fa_name :: string
  fa_addr_arg :: string
  fa_addr :: u64
  fa_max_entries :: u64
  fa_read_size :: u64
  fa_data :: string
  fa_null_data :: string
  fa_reading_null :: bool
  fa_enable :: bool

definition no_freeze_args :: freeze_args where
  "no_freeze_args = \<lparr>fa_name = [], fa_addr_arg = [], fa_addr = 0, fa_max_entries = 0,
     fa_read_size = 0, fa_data = [], fa_null_data = [], fa_reading_null = False, fa_enable = True\<rparr>"

text \<open>One argument. An address of zero is not remembered as seen.\<close>

definition freeze_arg :: "'k shell \<Rightarrow> string \<Rightarrow> freeze_args \<Rightarrow> freeze_args res" where
  "freeze_arg s arg fa =
     (if char_at arg 0 = CHR ''+'' then
        (if char_at arg 1 = CHR ''n'' then Inr (fa\<lparr>fa_name := drop 2 arg\<rparr>)
         else if char_at arg 1 = CHR ''s'' then
           res_bind (stoull (drop 2 arg) 16) (\<lambda>(v, _). Inr (fa\<lparr>fa_read_size := v\<rparr>))
         else if char_at arg 1 = CHR ''m'' then
           res_bind (stoull (drop 2 arg) 10) (\<lambda>(v, _). Inr (fa\<lparr>fa_max_entries := v\<rparr>))
         else if char_at arg 1 = CHR ''d'' then Inr (fa\<lparr>fa_enable := False\<rparr>)
         else if char_at arg 1 = CHR ''N'' then
           Inr (fa\<lparr>fa_reading_null := True, fa_null_data := fa_null_data fa @ drop 2 arg\<rparr>)
         else Inl (Throw (Invalid_argument (''unknown option: '' @ arg))))
      else if fa_addr fa \<noteq> 0 then
        (if fa_reading_null fa then Inr (fa\<lparr>fa_null_data := fa_null_data fa @ arg\<rparr>)
         else Inr (fa\<lparr>fa_data := fa_data fa @ arg\<rparr>))
      else
        res_bind (get_addr_from_command arg s) (\<lambda>a.
          Inr (fa\<lparr>fa_addr_arg := arg, fa_addr := a\<rparr>)))"

fun parse_freeze_args :: "'k shell \<Rightarrow> string list \<Rightarrow> freeze_args \<Rightarrow> freeze_args res" where
  "parse_freeze_args s [] fa = Inr fa"
| "parse_freeze_args s (arg # args) fa =
     res_bind (freeze_arg s arg fa) (parse_freeze_args s args)"

text \<open>The name when none was given: the search named in the address argument, or the current one.\<close>

definition freeze_name :: "'k shell \<Rightarrow> freeze_args \<Rightarrow> string res" where
  "freeze_name s fa =
     (if fa_name fa \<noteq> [] then Inr (fa_name fa)
      else case get_latest_search None s of
             Inr _ \<Rightarrow>
               (case find_char (CHR ''@'') (fa_addr_arg fa) of
                  Some at_pos \<Rightarrow> Inr (drop (at_pos + 1) (fa_addr_arg fa))
                | None \<Rightarrow> Inr (current_search_name s))
           | Inl f \<Rightarrow> if is_out_of_range f \<or> is_invalid_argument f then Inr [] else Inl f)"

text \<open>The data, its mask, the null data and its mask: read from the target or parsed.\<close>

definition freeze_data ::
  "'k env \<Rightarrow> freeze_args \<Rightarrow> ('k, byte list \<times> byte list \<times> byte list \<times> byte list) sh" where
  "freeze_data env fa =
     (if fa_read_size fa \<noteq> 0
      then sbind (slift (new_string env (fa_read_size fa))) (\<lambda>_.
           sbind (guarded env (\<lambda>ad. total
                   (read_bytes (env_mach env) (env_phosg env) ad (fa_addr fa) (fa_read_size fa))))
             (\<lambda>d. sret (d, replicate (unat (fa_read_size fa)) 255, [], [])))
      else sbind (slift (parse_data_string (env_phosg env) (fa_data fa))) (\<lambda>(d, m).
           sbind (slift (parse_data_string (env_phosg env) (fa_null_data fa))) (\<lambda>(nd, nm).
             sret (d, m, nd, nm))))"

definition check_freeze :: "freeze_args \<Rightarrow> byte list \<Rightarrow> byte list \<Rightarrow> unit res" where
  "check_freeze fa d nd =
     (if d = [] then Inl (Throw (Invalid_argument ''no data was given''))
      else if nd \<noteq> [] \<and> fa_max_entries fa = 0
      then Inl (Throw (Invalid_argument ''+m must be used if null data is given''))
      else if nd \<noteq> [] \<and> length nd \<noteq> length d
      then Inl (Throw (Invalid_argument ''data and null data must have the same size''))
      else Inr ())"

definition add_frozen ::
  "freeze_args \<Rightarrow> string \<Rightarrow> byte list \<Rightarrow> byte list \<Rightarrow> byte list \<Rightarrow> byte list \<Rightarrow> freezer \<Rightarrow> freezer" where
  "add_frozen fa name d m nd nm =
     (if fa_max_entries fa \<noteq> 0
      then (if nd = [] then freeze_array name (fa_addr fa) (fa_max_entries fa) d m None None (fa_enable fa)
            else freeze_array name (fa_addr fa) (fa_max_entries fa) d m (Some nd) (Some nm) (fa_enable fa))
      else freeze name (fa_addr fa) d (fa_enable fa))"

definition on_freezer :: "(freezer \<Rightarrow> 'a \<times> freezer) \<Rightarrow> ('k, 'a) sh" where
  "on_freezer f s = (case f (sh_freezer s) of (x, fz) \<Rightarrow> Some (Inr x, s\<lparr>sh_freezer := fz\<rparr>))"

definition command_freeze :: "'k env \<Rightarrow> string \<Rightarrow> ('k, unit) sh" where
  "command_freeze env args_str =
     interactive_only
       (sbind (slift (split_args (env_phosg env) args_str 2 0)) (\<lambda>args.
        sbind (sread (\<lambda>s. parse_freeze_args s args no_freeze_args)) (\<lambda>fa.
        sbind (sread (\<lambda>s. freeze_name s fa)) (\<lambda>name.
        sbind (freeze_data env fa) (\<lambda>(d, m, nd, nm).
        sbind (slift (check_freeze fa d nd)) (\<lambda>_.
          on_freezer (\<lambda>fz. ((), add_frozen fa name d m nd nm fz))))))))"

section \<open>Unfreezing, enabling and disabling\<close>

definition print_frozen :: "'k env \<Rightarrow> bool \<Rightarrow> ('k, unit) sh" where
  "print_frozen env with_data =
     sbind (sget sh_freezer) (\<lambda>fz. emit (Text (print_freezer_regions (env_phosg env) with_data fz)))"

definition regions_done :: "nat \<Rightarrow> string \<Rightarrow> ('k, unit) sh" where
  "regions_done n verb =
     emit (if n = 1 then Printf (''region '' @ verb @ nl) []
           else Printf (''%zu regions '' @ verb @ nl) [PInt (int n)])"

text \<open>A name, then an address, then an index.\<close>

definition command_unfreeze :: "'k env \<Rightarrow> string \<Rightarrow> ('k, unit) sh" where
  "command_unfreeze env args =
     interactive_only
       (if args = ''*'' then
          sbind (on_freezer unfreeze_all) (\<lambda>n.
            emit (Printf (''%zu regions unfrozen'' @ nl) [PInt (int n)]))
        else if args \<noteq> [] then
          sbind (on_freezer (unfreeze_name args)) (\<lambda>n.
            if 0 < n then regions_done n ''unfrozen''
            else sbind (sread (get_addr_from_command args)) (\<lambda>a.
              sbind (on_freezer (unfreeze_addr a)) (\<lambda>n'.
                if n' \<noteq> 0 then emit (Printf (''region unfrozen'' @ nl) [])
                else sbind (slift (stoull args 10)) (\<lambda>(index, offset).
                  if offset = 0 then invalid ''bad argument to unfreeze''
                  else sbind (on_freezer (unfreeze_index index)) (\<lambda>found.
                    if found then emit (Printf (''region unfrozen'' @ nl) [])
                    else sfail (Throw (Out_of_range ''no regions matched'')))))))
        else print_frozen env False)"

definition command_enable_disable :: "'k env \<Rightarrow> string \<Rightarrow> bool \<Rightarrow> ('k, unit) sh" where
  "command_enable_disable env args en =
     (let verb = (if en then ''enabled'' else ''disabled'')
      in interactive_only
       (if args = ''*'' then
          sbind (on_freezer (enable_all en)) (\<lambda>n.
            emit (Printf (''%zu regions '' @ verb @ nl) [PInt (int n)]))
        else if args \<noteq> [] then
          sbind (on_freezer (enable_name args en)) (\<lambda>n.
            if 0 < n then regions_done n verb
            else sbind (sread (get_addr_from_command args)) (\<lambda>a.
              sbind (on_freezer (enable_addr a en)) (\<lambda>n'.
                if n' \<noteq> 0 then emit (Printf (''region '' @ verb @ nl) [])
                else sbind (slift (stoull args 10)) (\<lambda>(index, offset).
                  if offset = 0 then invalid ''bad argument to enable/disable''
                  else sbind (on_freezer (enable_index index en)) (\<lambda>found.
                    if found then emit (Printf (''region '' @ verb @ nl) [])
                    else sfail (Throw (Out_of_range ''no regions matched'')))))))
        else print_frozen env False))"

definition command_enable :: "'k env \<Rightarrow> string \<Rightarrow> ('k, unit) sh" where
  "command_enable env args = command_enable_disable env args True"

definition command_disable :: "'k env \<Rightarrow> string \<Rightarrow> ('k, unit) sh" where
  "command_disable env args = command_enable_disable env args False"

definition command_frozen :: "'k env \<Rightarrow> string \<Rightarrow> ('k, unit) sh" where
  "command_frozen env args =
     interactive_only
       (if args = ''data'' then print_frozen env True
        else if args = ''cmds'' \<or> args = ''commands''
        then sbind (sget sh_freezer) (\<lambda>fz. emit (Text (print_regions_commands (env_phosg env) fz)))
        else print_frozen env False)"

end
