(* ===== verification/ShellMemory.thy ===== *)
theory ShellMemory
  imports ShellFreeze "HOL-Library.Product_Lexorder"
begin

unbundle bit_operations_syntax

text \<open>
  The command handlers of MemwatchShell that read and write the target's memory, and those
  for the process and the shell itself: \<open>list\<close>, \<open>dump\<close>, \<open>find\<close>, \<open>access\<close>, \<open>read\<close>, \<open>write\<close>,
  \<open>data\<close>, \<open>pause\<close>, \<open>resume\<close>, \<open>signal\<close>, \<open>attach\<close>, \<open>state\<close> and \<open>quit\<close>.
\<close>

section \<open>Listing regions\<close>

definition access_char :: "byte \<Rightarrow> byte \<Rightarrow> string \<Rightarrow> parg" where
  "access_char prot flag c = PStr (if prot AND flag \<noteq> 0 then c else ''-'')"

text \<open>The columns for the maximum protection all test \<open>READABLE\<close>.\<close>

definition region_line :: "region \<Rightarrow> out" where
  "region_line r =
     Printf (''%016llX %016zX %c%c%c/%c%c%c%s'' @ nl)
       [PInt (uint (region_addr r)), PInt (uint (region_size r)),
        access_char (protection r) READABLE ''r'', access_char (protection r) WRITABLE ''w'',
        access_char (protection r) EXECUTABLE ''x'',
        access_char (max_protection r) READABLE ''r'', access_char (max_protection r) READABLE ''w'',
        access_char (max_protection r) READABLE ''x'',
        PStr (if region_data r = [] then '' [data not read]'' else [])]"

text \<open>One counter: how many regions there are of a kind and how many bytes they span.\<close>

definition total_size :: "region list \<Rightarrow> u64" where
  "total_size rs = foldl (\<lambda>n r. n + region_size r) 0 rs"

definition summary_line :: "phosg \<Rightarrow> string \<Rightarrow> region list \<Rightarrow> out" where
  "summary_line ph label rs =
     Printf (''# %5zu regions, %s '' @ label @ nl)
       [PInt (int (length rs)), PStr (format_size ph (unat (total_size rs)))]"

definition print_regions :: "phosg \<Rightarrow> region list \<Rightarrow> out list" where
  "print_regions ph rs =
     (let has = (\<lambda>flag. filter (\<lambda>r. protection r AND flag \<noteq> 0) rs)
      in [Printf (''# addr size access/max_access'' @ nl) []] @ map region_line rs @
         [summary_line ph ''in total'' rs,
          summary_line ph ''unread by memwatch'' (filter (\<lambda>r. region_data r = []) rs),
          summary_line ph ''accessible'' (has ALL_ACCESS),
          summary_line ph ''readable'' (has READABLE),
          summary_line ph ''writable'' (has WRITABLE),
          summary_line ph ''executable'' (has EXECUTABLE),
          summary_line ph ''inaccessible'' (filter (\<lambda>r. protection r AND ALL_ACCESS = 0) rs)])"

definition all_regions :: "'k env \<Rightarrow> bool \<Rightarrow> ('k, region list) sh" where
  "all_regions env read_data =
     guarded env (\<lambda>ad. get_all_regions (env_mach env) (env_phosg env) ad read_data)"

definition command_list :: "'k env \<Rightarrow> string \<Rightarrow> ('k, unit) sh" where
  "command_list env args =
     sbind (all_regions env False) (\<lambda>rs. emit_all (print_regions (env_phosg env) rs))"

definition save_data :: "'k env \<Rightarrow> string \<Rightarrow> byte list \<Rightarrow> ('k, unit) sh" where
  "save_data env filename d s =
     (case save_file env (kernel s) filename d of (r, k') \<Rightarrow> Some (r, s\<lparr>kernel := k'\<rparr>))"

definition write_index :: "'k env \<Rightarrow> string \<Rightarrow> out list \<Rightarrow> ('k, unit) sh" where
  "write_index env filename lines s =
     (case fopen_unique env (kernel s) filename ''wt'' of
        (Inl f, k') \<Rightarrow> Some (Inl f, s\<lparr>kernel := k'\<rparr>)
      | (Inr _, k') \<Rightarrow> Some (Inr (), s\<lparr>kernel := k', printed := printed s @ [File filename lines]\<rparr>))"

fun dump_regions :: "'k env \<Rightarrow> string \<Rightarrow> region list \<Rightarrow> ('k, unit) sh" where
  "dump_regions env prefix [] = sret ()"
| "dump_regions env prefix (r # rs) =
     sthen (if region_data r \<noteq> []
            then save_data env (string_printf (env_phosg env) ''%s.%016llX.%016llX.bin''
                   [PStr prefix, PInt (uint (region_addr r)), PInt (uint (end_addr r))]) (region_data r)
            else sret ())
       (dump_regions env prefix rs)"

definition command_dump :: "'k env \<Rightarrow> string \<Rightarrow> ('k, unit) sh" where
  "command_dump env args =
     sbind (all_regions env True) (\<lambda>rs.
       if args \<noteq> []
       then sthen (write_index env (string_printf (env_phosg env) ''%s.index.txt'' [PStr args])
                     (print_regions (env_phosg env) rs))
              (dump_regions env args rs)
       else emit_all (print_regions (env_phosg env) rs))"

section \<open>Find\<close>

text \<open>
  The byte loop: bytes are compared only where the mask is not 0. The two pointers read from a
  string's buffer, so the mask and the region come with their terminating NUL.
\<close>

fun match_bytes :: "byte list \<Rightarrow> byte list \<Rightarrow> byte list \<Rightarrow> bool res" where
  "match_bytes [] m p = Inr True"
| "match_bytes (x # d) [] p = Inl (Undefined Past_buffer)"
| "match_bytes (x # d) (k # m) p =
     (if k \<noteq> 0
      then (case p of
              [] \<Rightarrow> Inl (Undefined Past_buffer)
            | b # p' \<Rightarrow> if b \<noteq> x then Inr False else match_bytes d m p')
      else match_bytes d m (tl p))"

text \<open>
  One region, from offset \<open>y\<close> on. At every page the signal is polled and the progress counter
  advanced; a signal ends the loop before that.
\<close>

partial_function (option) find_region ::
  "(u64 \<Rightarrow> bool) \<Rightarrow> byte list \<Rightarrow> byte list \<Rightarrow> region \<Rightarrow> u64 \<Rightarrow> u64 list \<Rightarrow> u64 \<Rightarrow> (u64 list \<times> u64) prog" where
  "find_region poll d m r y found searched =
     (if y \<le> region_size r - of_nat (length d)
      then (if y AND 0xFFF = 0 \<and> poll y then Some (Inr (found, searched))
            else (case match_bytes d (at_offset m 0) (at_offset (region_data r) (unat y)) of
                    Inl f \<Rightarrow> Some (Inl f)
                  | Inr b \<Rightarrow>
                      find_region poll d m r (y + 1) (if b then found @ [region_addr r + y] else found)
                        (if y AND 0xFFF = 0 then searched + 0x1000 else searched)))
      else Some (Inr (found, searched)))"

text \<open>
  All regions. Each is claimed by one thread; the results of all threads are sorted at the
  end, so the assignment of regions to threads does not show.
\<close>

fun find_in_regions ::
  "(nat \<Rightarrow> u64 \<Rightarrow> bool) \<Rightarrow> byte list \<Rightarrow> byte list \<Rightarrow> nat \<Rightarrow> region list \<Rightarrow> ((u64 \<times> byte) list \<times> u64) prog" where
  "find_in_regions poll d m x [] = Some (Inr ([], 0))"
| "find_in_regions poll d m x (r # rs) =
     (if region_data r = [] then find_in_regions poll d m (Suc x) rs
      else prog_bind (find_region (poll x) d m r 0 [] 0) (\<lambda>(found, searched).
           prog_bind (find_in_regions poll d m (Suc x) rs) (\<lambda>(found', searched').
             Some (Inr (map (\<lambda>a. (a, protection r)) found @ found', searched + searched')))))"

definition data_size :: "region list \<Rightarrow> u64" where
  "data_size rs = foldl (\<lambda>n r. n + of_nat (length (region_data r))) 0 rs"

text \<open>
  The main thread waits until the progress counter has reached the total; the counter stands
  still when all threads are done, so it waits forever when the final count is too low.
\<close>

definition find_results_in ::
  "(nat \<Rightarrow> u64 \<Rightarrow> bool) \<Rightarrow> byte list \<Rightarrow> byte list \<Rightarrow> region list \<Rightarrow> (u64 \<times> byte) list prog" where
  "find_results_in poll d m regions =
     (let rs = sort_key (\<lambda>r. - int (length (region_data r))) regions
      in prog_bind (find_in_regions poll d m 0 rs) (\<lambda>(found, searched).
           if searched < data_size rs then None
           else Some (Inr (sort found))))"

definition find_line :: "nat \<Rightarrow> u64 \<times> byte \<Rightarrow> out" where
  "find_line n hit =
     (case hit of (a, prot) \<Rightarrow>
        Printf (''(%zu) %016llX (%c%c%c)'' @ nl)
          [PInt (int n), PInt (uint a), access_char prot READABLE ''r'',
           access_char prot WRITABLE ''w'', access_char prot EXECUTABLE ''x''])"

definition command_find :: "'k env \<Rightarrow> string \<Rightarrow> ('k, unit) sh" where
  "command_find env args =
     sbind (slift (parse_data_string (env_phosg env) args)) (\<lambda>(d, m).
       if d = [] then invalid ''no data was specified''
       else sbind (all_regions env True) (\<lambda>regions.
         sthen (smod (\<lambda>s. s\<lparr>find_results := []\<rparr>))
         (sbind (sget kernel) (\<lambda>k.
          sbind (slift_prog (find_results_in (find_poll env k) d m regions)) (\<lambda>hits.
            sthen (emit_all (map (\<lambda>n. find_line n (hits ! n)) [0..<length hits]))
              (smod (\<lambda>s. s\<lparr>find_results := map fst hits\<rparr>)))))))"

section \<open>Access, read, write and data\<close>

definition parse_access :: "string \<Rightarrow> byte" where
  "parse_access mode =
     (let has = (\<lambda>c. c \<in> set (c_str mode))
      in (if has (CHR ''r'') then READABLE else 0) OR (if has (CHR ''w'') then WRITABLE else 0) OR
         (if has (CHR ''x'') then EXECUTABLE else 0))"

definition command_access :: "'k env \<Rightarrow> string \<Rightarrow> ('k, unit) sh" where
  "command_access env args_str =
     sbind (slift (split_args (env_phosg env) args_str 1 2)) (\<lambda>args.
     sbind (sread (get_addr_from_command (args ! 0))) (\<lambda>a.
       let prot = (if 1 < length args then parse_access (args ! 1) else ALL_ACCESS)
       in on_kernel (\<lambda>ad. set_protection (env_mach env) (env_phosg env) ad a 0 prot ALL_ACCESS)))"

text \<open>The options of \<open>read\<close>: the last \<open>+format\<close> counts, the last other argument is the file name.\<close>

definition read_flag :: "char \<Rightarrow> print_flag list \<Rightarrow> print_flag list" where
  "read_flag ch flags =
     (if ch = CHR ''a'' then List.insert PRINT_ASCII flags
      else if ch = CHR ''f'' then List.insert PRINT_FLOAT flags
      else if ch = CHR ''d'' then List.insert PRINT_DOUBLE flags
      else if ch = CHR ''r'' then List.insert REVERSE_ENDIAN flags
      else flags)"

fun read_options :: "string list \<Rightarrow> print_flag list \<times> string option \<Rightarrow> print_flag list \<times> string option" where
  "read_options [] opts = opts"
| "read_options (arg # args) (flags, filename) =
     read_options args
       (if arg = [] then (flags, filename)
        else if char_at arg 0 = CHR ''+'' then (fold read_flag arg [], filename)
        else (flags, Some arg))"

definition read_header :: "'k shell \<Rightarrow> u64 \<Rightarrow> u64 \<Rightarrow> string \<Rightarrow> parg list" where
  "read_header s a sz time_str = [PStr (process_name s), PInt (uint a), PInt (uint sz), PStr time_str]"

text \<open>What a successful read shows, or saves.\<close>

definition show_read ::
  "'k env \<Rightarrow> u64 \<Rightarrow> u64 \<Rightarrow> print_flag list \<Rightarrow> string option \<Rightarrow> byte list option \<Rightarrow> string \<Rightarrow> byte list
     \<Rightarrow> ('k, unit) sh" where
  "show_read env a sz flags filename prev time_str d =
     (case filename of
        Some fn \<Rightarrow>
          sthen (save_data env fn d)
            (sbind (sget (\<lambda>s. read_header s a sz time_str)) (\<lambda>h.
              emit (Printf (''%s @ %016llX:%016llX // %s > %s'' @ nl) (h @ [PStr fn]))))
      | None \<Rightarrow>
          sbind (sget (\<lambda>s. read_header s a sz time_str)) (\<lambda>h.
            emit_all [Printf (''%s @ %016llX:%016llX // %s'' @ nl) h,
              Text (print_data (env_phosg env) d (Some a) prev (Some flags)), Printf nl []]))"

definition read_failed :: "u64 \<Rightarrow> u64 \<Rightarrow> string \<Rightarrow> failure \<Rightarrow> ('k, unit) sh" where
  "read_failed a sz time_str f =
     sbind (sget (\<lambda>s. read_header s a sz time_str)) (\<lambda>h.
       emit (Printf (''%s @ %016llX:%016llX // %s // failed [%s]'' @ nl) (h @ [PStr (what f)])))"

text \<open>One round: the data afterwards is what was read, also when showing it throws.\<close>

definition read_round ::
  "'k env \<Rightarrow> u64 \<Rightarrow> u64 \<Rightarrow> print_flag list \<Rightarrow> string option \<Rightarrow> byte list option \<Rightarrow> byte list
     \<Rightarrow> ('k, byte list) sh" where
  "read_round env a sz flags filename prev d s =
     (let time_str = format_now env (kernel s)
      in case guarded env (\<lambda>ad. total (read_bytes (env_mach env) (env_phosg env) ad a sz)) s of
           None \<Rightarrow> None
         | Some (Inl f, s1) \<Rightarrow>
             if is_exception f then sthen (read_failed a sz time_str f) (sret d) s1
             else Some (Inl f, s1)
         | Some (Inr d', s1) \<Rightarrow>
             sthen (scatch is_exception (show_read env a sz flags filename prev time_str d')
                      (read_failed a sz time_str)) (sret d') s1)"

text \<open>
  The loop; \<open>prev\<close> is the buffer for the previous data, which exists when watching and is
  swapped with the current one after every round.
\<close>

partial_function (option) read_loop ::
  "'k env \<Rightarrow> u64 \<Rightarrow> u64 \<Rightarrow> print_flag list \<Rightarrow> string option \<Rightarrow> nat \<Rightarrow> bool \<Rightarrow> byte list \<Rightarrow> byte list \<Rightarrow> 'k shell
     \<Rightarrow> (unit res \<times> 'k shell) option" where
  "read_loop env a sz flags filename seen first_read prev d s =
     (case read_round env a sz flags filename (if first_read then None else Some prev) d s of
        None \<Rightarrow> None
      | Some (Inl f, s1) \<Rightarrow> Some (Inl f, s1)
      | Some (Inr d', s1) \<Rightarrow>
          if \<not> watch s1 then Some (Inr (), s1)
          else (let s2 = s1\<lparr>kernel := sleep env (kernel s1) 1000000\<rparr>
                in if seen < signals env (kernel s2) then Some (Inr (), s2)
                   else read_loop env a sz flags filename seen False d' prev s2))"

definition command_read :: "'k env \<Rightarrow> string \<Rightarrow> ('k, unit) sh" where
  "command_read env args_str =
     sbind (slift (split_args (env_phosg env) args_str 2 4)) (\<lambda>args.
     sbind (sread (get_addr_from_command (args ! 0))) (\<lambda>a.
     sbind (slift (stoull (args ! 1) 16)) (\<lambda>(sz, _).
     case read_options (drop 2 args) ([PRINT_ASCII, USE_COLOR], None) of (flags, filename) \<Rightarrow>
     sbind (slift (new_string env sz)) (\<lambda>_.
     sbind (sget kernel) (\<lambda>k.
       let zeros = replicate (unat sz) 0
       in read_loop env a sz flags filename (signals env k) True zeros zeros)))))"

definition command_write :: "'k env \<Rightarrow> string \<Rightarrow> ('k, unit) sh" where
  "command_write env args =
     (let ph = env_phosg env
      in sbind (sread (get_addr_from_command args)) (\<lambda>a.
         sbind (slift (substr args (skip_whitespace ph args (skip_non_whitespace ph args 0)))) (\<lambda>rest.
         sbind (slift (parse_data_string ph rest)) (\<lambda>(d, _).
           if d = [] then invalid ''no data was specified''
           else scatch is_exception
             (sthen (guarded env (\<lambda>ad. total (write_bytes (env_mach env) ph ad a d)))
               (emit (Printf (''wrote %zu (0x%zX) bytes'' @ nl) [PInt (int (length d)), PInt (int (length d))])))
             (\<lambda>f. emit (Printf (''failed to write data to process (%s)'' @ nl) [PStr (what f)]))))))"

definition command_data :: "'k env \<Rightarrow> string \<Rightarrow> ('k, unit) sh" where
  "command_data env args =
     sbind (slift (parse_data_string (env_phosg env) args)) (\<lambda>(d, m).
       if d = [] then invalid ''no data was specified''
       else emit_all
         [Printf (''read %zu (0x%zX) data bytes:'' @ nl) [PInt (int (length d)), PInt (int (length d))],
          Text (print_data (env_phosg env) d None None None),
          Printf (''read %zu (0x%zX) mask bytes:'' @ nl) [PInt (int (length m)), PInt (int (length m))],
          Text (print_data (env_phosg env) m None None None)])"

section \<open>The process and the shell\<close>

definition command_pause :: "'k env \<Rightarrow> string \<Rightarrow> ('k, unit) sh" where
  "command_pause env args = on_kernel (\<lambda>ad. pause (env_mach env) (env_phosg env) ad)"

definition command_resume :: "'k env \<Rightarrow> string \<Rightarrow> ('k, unit) sh" where
  "command_resume env args = on_kernel (\<lambda>ad. resume (env_mach env) (env_phosg env) ad)"

definition command_signal :: "'k env \<Rightarrow> string \<Rightarrow> ('k, unit) sh" where
  "command_signal env args_str =
     sbind (slift (stoi (c_str args_str))) (\<lambda>signum s.
       case kill_process env (kernel s) (sh_pid s) signum of
         (ret, k') \<Rightarrow>
           (if ret \<noteq> 0
            then Some (Inl (Throw (Runtime_error (string_printf (env_phosg env)
                   ''failed to send signal %d to process'' [PInt signum]))), s\<lparr>kernel := k'\<rparr>)
            else Some (Inr (), s\<lparr>kernel := k'\<rparr>)))"

text \<open>The pid that \<open>attach\<close> is asked for: a number other than 0, or a process name.\<close>

definition attach_pid :: "'k env \<Rightarrow> string \<Rightarrow> 'k shell \<Rightarrow> int res" where
  "attach_pid env name s =
     (let new_pid = (case stoi name of Inr p \<Rightarrow> p | Inl _ \<Rightarrow> 0)
      in if new_pid \<noteq> 0 then Inr new_pid else pid_for_name env (kernel s) name)"

definition command_attach :: "'k env \<Rightarrow> string \<Rightarrow> ('k, unit) sh" where
  "command_attach env args_str =
     sbind (sget (\<lambda>s. if args_str = [] then process_name s else args_str)) (\<lambda>name.
     sbind (sread (attach_pid env name)) (\<lambda>new_pid.
     sbind (sread (\<lambda>s. name_for_pid env (kernel s) new_pid)) (\<lambda>new_name.
     sthen (smod (\<lambda>s. s\<lparr>sh_pid := new_pid, process_name := new_name\<rparr>))
       (\<lambda>s. case attach (env_mach env) (env_phosg env) new_pid (kernel s) of
              (r, ad) \<Rightarrow> Some (r, s\<lparr>sh_adapter := ad\<rparr>)))))"

definition bool_arg :: "bool \<Rightarrow> parg" where
  "bool_arg b = PInt (if b then 1 else 0)"

definition state_lines :: "'k shell \<Rightarrow> out list" where
  "state_lines s =
     [Printf (''use_color = %d'' @ nl) [bool_arg (use_color s)],
      Printf (''pid = %d'' @ nl) [PInt (sh_pid s)],
      Printf (''process_name = '' @ [CHR 0x22] @ ''%s'' @ [CHR 0x22] @ nl) [PStr (process_name s)],
      Printf (''pause_target = %d'' @ nl) [bool_arg (pause_target s)],
      Printf (''max_results = %llu'' @ nl) [PInt (uint (max_results s))],
      Printf (''max_search_iterations = %llu'' @ nl) [PInt (uint (max_search_iterations s))],
      Printf (''interactive = %d'' @ nl) [bool_arg (interactive s)],
      Printf (''run = %d'' @ nl) [bool_arg (run s)],
      Printf (''num_commands_run = %llu'' @ nl) [PInt (uint (num_commands_run s))],
      Printf (''num_find_results = %zu'' @ nl) [PInt (int (length (find_results s)))]]"

definition set_field :: "string \<Rightarrow> string \<Rightarrow> ('k, unit) sh" where
  "set_field field v =
     (if field = ''use_color'' then sbind (slift (stoi v)) (\<lambda>i. smod (\<lambda>s. s\<lparr>use_color := (i \<noteq> 0)\<rparr>))
      else if field = ''process_name'' then smod (\<lambda>s. s\<lparr>process_name := v\<rparr>)
      else if field = ''pause_target'' then
        sbind (slift (stoi v)) (\<lambda>i. smod (\<lambda>s. s\<lparr>pause_target := (i \<noteq> 0)\<rparr>))
      else if field = ''max_results'' then
        sbind (slift (stoull v 10)) (\<lambda>(n, _). smod (\<lambda>s. s\<lparr>max_results := n\<rparr>))
      else if field = ''max_search_iterations'' then
        sbind (slift (stoull v 10)) (\<lambda>(n, _). smod (\<lambda>s. s\<lparr>max_search_iterations := n\<rparr>))
      else if field = ''run'' then sbind (slift (stoi v)) (\<lambda>i. smod (\<lambda>s. s\<lparr>run := (i \<noteq> 0)\<rparr>))
      else invalid ''unknown or read-only field'')"

definition command_state :: "'k env \<Rightarrow> string \<Rightarrow> ('k, unit) sh" where
  "command_state env args_str =
     (if args_str = [] then sbind (sget state_lines) emit_all
      else sbind (slift (split_args (env_phosg env) args_str 2 2)) (\<lambda>args. set_field (args ! 0) (args ! 1)))"

definition command_quit :: "string \<Rightarrow> ('k, unit) sh" where
  "command_quit args = smod (\<lambda>s. s\<lparr>run := False\<rparr>)"

end
