(* ===== verification/ShellMain.thy ===== *)
theory ShellMain
  imports ShellMemory
begin

text \<open>
  The command table of MemwatchShell, the dispatch of one command line, \<open>watch\<close>, and the
  interactive loop with its prompt; and the session, in which the freezer's write thread runs
  between the commands.
\<close>

section \<open>The command table\<close>

text \<open>The member functions the table points to.\<close>

datatype handler =
    Access | Attach | Close | Undo | Data_cmd | Delete | Disable | Dump | Enable | Quit | Find
  | Fork | Frozen | Freeze | Iterations | List_cmd | Open_cmd | Pause | Read | Results | Resume
  | Search | Set_cmd | Signal | State | Truncate | Unfreeze | Watch | Write

definition command_handlers :: "(string \<times> handler) list" where
  "command_handlers =
     [(''access'', Access), (''acc'', Access), (''a'', Access), (''attach'', Attach),
      (''att'', Attach), (''at'', Attach), (''close'', Close), (''cls'', Close), (''c'', Close),
      (''cz'', Undo), (''data'', Data_cmd), (''delete'', Delete), (''del'', Delete),
      (''disable'', Disable), (''dis'', Disable), (''di'', Disable), (''dt'', Data_cmd),
      (''d'', Disable), (''dump'', Dump), (''dmp'', Dump), (''enable'', Enable),
      (''ena'', Enable), (''en'', Enable), (''exit'', Quit), (''e'', Enable), (''find'', Find),
      (''fi'', Find), (''fork'', Fork), (''fk'', Fork), (''fo'', Fork), (''frozen'', Frozen),
      (''fzn'', Frozen), (''freeze'', Freeze), (''fr'', Freeze), (''f'', Freeze),
      (''iterations'', Iterations), (''iters'', Iterations), (''its'', Iterations),
      (''it'', Iterations), (''i'', Iterations), (''list'', List_cmd), (''ls'', List_cmd),
      (''l'', List_cmd), (''open'', Open_cmd), (''o'', Open_cmd), (''pause'', Pause),
      (''quit'', Quit), (''q'', Quit), (''read'', Read), (''rd'', Read), (''results'', Results),
      (''resume'', Resume), (''res'', Results), (''r'', Read), (''search'', Search),
      (''s'', Search), (''set'', Set_cmd), (''signal'', Signal), (''sig'', Signal),
      (''state'', State), (''st'', State), (''truncate'', Truncate), (''trunc'', Truncate),
      (''tr'', Truncate), (''t'', Find), (''undo'', Undo), (''unfreeze'', Unfreeze),
      (''unpause'', Resume), (''u'', Unfreeze), (''watch'', Watch), (''wa'', Watch),
      (''!'', Watch), (''write'', Write), (''wr'', Write), (''w'', Write), (''x'', Results),
      (''-'', Disable), (''+'', Enable)]"

text \<open>Every handler but \<open>command_watch\<close>, which runs a command itself.\<close>

definition run_handler :: "'k env \<Rightarrow> handler \<Rightarrow> string \<Rightarrow> ('k, unit) sh" where
  "run_handler env h args =
     (case h of
        Access \<Rightarrow> command_access env args
      | Attach \<Rightarrow> command_attach env args
      | Close \<Rightarrow> command_close args
      | Undo \<Rightarrow> command_undo args
      | Data_cmd \<Rightarrow> command_data env args
      | Delete \<Rightarrow> command_delete env args
      | Disable \<Rightarrow> command_disable env args
      | Dump \<Rightarrow> command_dump env args
      | Enable \<Rightarrow> command_enable env args
      | Quit \<Rightarrow> command_quit args
      | Find \<Rightarrow> command_find env args
      | Fork \<Rightarrow> command_fork env args
      | Frozen \<Rightarrow> command_frozen env args
      | Freeze \<Rightarrow> command_freeze env args
      | Iterations \<Rightarrow> command_iterations env args
      | List_cmd \<Rightarrow> command_list env args
      | Open_cmd \<Rightarrow> command_open env args
      | Pause \<Rightarrow> command_pause env args
      | Read \<Rightarrow> command_read env args
      | Results \<Rightarrow> command_results env args
      | Resume \<Rightarrow> command_resume env args
      | Search \<Rightarrow> command_search env args
      | Set_cmd \<Rightarrow> command_set env args
      | Signal \<Rightarrow> command_signal env args
      | State \<Rightarrow> command_state env args
      | Truncate \<Rightarrow> command_truncate env args
      | Unfreeze \<Rightarrow> command_unfreeze env args
      | Watch \<Rightarrow> sret ()
      | Write \<Rightarrow> command_write env args)"

section \<open>One command line\<close>

text \<open>The handler and the arguments; the name ends at the first white space.\<close>

definition find_handler :: "phosg \<Rightarrow> string \<Rightarrow> (handler \<times> string) res" where
  "find_handler ph args_str =
     (let command_end = skip_non_whitespace ph args_str 0;
          args_begin = skip_whitespace ph args_str command_end
      in case map_of command_handlers (take command_end args_str) of
           None \<Rightarrow> Inl (Throw (Out_of_range ''unknown command''))
         | Some h \<Rightarrow> res_bind (substr args_str args_begin) (\<lambda>args. Inr (h, args)))"

text \<open>What \<open>execute_command\<close> makes of the outcome of \<open>dispatch_command\<close>: it catches exceptions.\<close>

definition report :: "unit res \<times> 'k shell \<Rightarrow> int res \<times> 'k shell" where
  "report out =
     (case out of
        (Inr _, s) \<Rightarrow> (Inr 0, s)
      | (Inl f, s) \<Rightarrow>
          if is_exception f
          then (Inr 1, s\<lparr>printed := printed s @ [Printf (''error: %s'' @ nl) [PStr (what f)]]\<rparr>)
          else (Inl f, s))"

text \<open>\<open>this->watch = 0\<close> after the command that \<open>watch\<close> ran.\<close>

definition end_watch :: "int res \<times> 'k shell \<Rightarrow> unit res \<times> 'k shell" where
  "end_watch out =
     (case out of (Inr _, s) \<Rightarrow> (Inr (), s\<lparr>watch := False\<rparr>) | (Inl f, s) \<Rightarrow> (Inl f, s))"

text \<open>
  \<open>dispatch_command\<close>, with the body of \<open>command_watch\<close> in place: it calls \<open>execute_command\<close>,
  and so this function again, on its arguments.
\<close>

partial_function (option) dispatch_command ::
  "'k env \<Rightarrow> string \<Rightarrow> 'k shell \<Rightarrow> (unit res \<times> 'k shell) option" where
  "dispatch_command env args_str s =
     (if args_str = [] then Some (Inr (), s)
      else case find_handler (env_phosg env) args_str of
             Inl f \<Rightarrow> Some (Inl f, s)
           | Inr (h, args) \<Rightarrow>
               if h = Watch
               then Option.bind (dispatch_command env args (s\<lparr>watch := True\<rparr>))
                      (\<lambda>out. Some (end_watch (report out)))
               else run_handler env h args s)"

definition execute_command :: "'k env \<Rightarrow> string \<Rightarrow> 'k shell \<Rightarrow> (int res \<times> 'k shell) option" where
  "execute_command env args s = map_option report (dispatch_command env args s)"

definition command_watch :: "'k env \<Rightarrow> string \<Rightarrow> ('k, unit) sh" where
  "command_watch env args s =
     (case execute_command env args (s\<lparr>watch := True\<rparr>) of
        None \<Rightarrow> None
      | Some out \<Rightarrow> Some (end_watch out))"

text \<open>\<open>watch\<close> in the table is \<open>command_watch\<close>.\<close>

lemma dispatch_watch:
  "args_str \<noteq> [] \<Longrightarrow> find_handler (env_phosg env) args_str = Inr (Watch, args) \<Longrightarrow>
   dispatch_command env args_str s = command_watch env args s"
  by (subst dispatch_command.simps)
    (auto simp: command_watch_def execute_command_def split: option.splits)

lemma dispatch_run:
  "args_str \<noteq> [] \<Longrightarrow> find_handler (env_phosg env) args_str = Inr (h, args) \<Longrightarrow> h \<noteq> Watch \<Longrightarrow>
   dispatch_command env args_str s = run_handler env h args s"
  by (subst dispatch_command.simps) simp

lemma dispatch_unknown:
  "args_str \<noteq> [] \<Longrightarrow> find_handler (env_phosg env) args_str = Inl f \<Longrightarrow>
   dispatch_command env args_str s = Some (Inl f, s)"
  by (subst dispatch_command.simps) simp

lemma dispatch_empty: "dispatch_command env [] s = Some (Inr (), s)"
  by (subst dispatch_command.simps) simp

section \<open>The interactive loop\<close>

definition prompt_args :: "'k shell \<Rightarrow> parg list" where
  "prompt_args s =
     [PInt (sh_pid s), PStr (process_name s), PInt (int (length (name_to_searches s))),
      PInt (int (frozen_count (sh_freezer s)))]"

definition prompt :: "phosg \<Rightarrow> 'k shell \<Rightarrow> string res" where
  "prompt ph s =
     (case get_latest_search None s of
        Inl f \<Rightarrow>
          if is_invalid_argument f
          then Inr (string_printf ph ''memwatch:%u/%s %zus/%zuf # '' (prompt_args s)) else Inl f
      | Inr srch \<Rightarrow>
          (let search_name = (if current_search_name s = [] then ''(unnamed search)''
                              else c_str (current_search_name s));
               args = prompt_args s @
                 [PStr search_name, PStr (short_name_for_search_type (search_type srch))]
           in Inr (if \<not> has_memory_snapshot srch
                   then string_printf ph ''memwatch:%u/%s %zus/%zuf %s:%s # '' args
                   else if \<not> has_valid_results srch
                   then string_printf ph ''memwatch:%u/%s %zus/%zuf %s:%s(+) # '' args
                   else string_printf ph ''memwatch:%u/%s %zus/%zuf %s:%s(%zu) # ''
                          (args @ [PInt (int (length (results srch)))]))))"

text \<open>
  The loop over the lines that \<open>readline\<close> delivers; at their end it gives NULL. The result is
  the return value and the lines added to the history.
\<close>

fun execute_commands ::
  "'k env \<Rightarrow> string list \<Rightarrow> string list \<Rightarrow> 'k shell \<Rightarrow> ((int \<times> string list) res \<times> 'k shell) option" where
  "execute_commands env inputs history s =
     (if \<not> run s then Some (Inr (0, history), s)
      else case prompt (env_phosg env) s of
             Inl f \<Rightarrow> Some (Inl f, s)
           | Inr text \<Rightarrow>
               (case inputs of
                  [] \<Rightarrow> Some (Inr (0, history), s\<lparr>printed := printed s @ [Text text, Printf ('' -- exit'' @ nl) []]\<rparr>)
                | command # inputs' \<Rightarrow>
                    (let command_to_execute = drop (skip_whitespace (env_phosg env) command 0) command
                     in case execute_command env command_to_execute (s\<lparr>printed := printed s @ [Text text]\<rparr>) of
                          None \<Rightarrow> None
                        | Some (Inl f, s') \<Rightarrow> Some (Inl f, s')
                        | Some (Inr _, s') \<Rightarrow>
                            execute_commands env inputs'
                              (if command_to_execute \<noteq> [] then history @ [command] else history) s')))"

declare execute_commands.simps [simp del]

section \<open>The session\<close>

text \<open>
  The shell and the freezer's write thread: a command runs, or the thread makes a round over
  the frozen regions. The freezer's lock keeps a round and a change of the registry apart.
\<close>

definition freezer_round :: "'k env \<Rightarrow> 'k shell \<Rightarrow> unit res \<times> 'k shell" where
  "freezer_round env s =
     (case write_pass (env_mach env) (env_phosg env) (sh_adapter s) (sh_freezer s) (kernel s) of
        (r, fz, k') \<Rightarrow> (r, s\<lparr>sh_freezer := fz, kernel := k'\<rparr>))"

inductive session_step :: "'k env \<Rightarrow> 'k shell \<Rightarrow> 'k shell \<Rightarrow> bool" for env where
  command: "session_step env s s'" if "execute_command env line s = Some (Inr ret, s')"
| thread: "session_step env s s'" if "freezer_round env s = (Inr (), s')"
| target: "session_step env s (s\<lparr>kernel := k\<rparr>)"

inductive_cases session_stepE: "session_step env s s'"

inductive session :: "'k env \<Rightarrow> 'k shell \<Rightarrow> bool" for env where
  start: "session env s" if "new_shell env p max_res max_iter pause_t is_inter color k = Inr s"
| step: "session env s'" if "session env s" and "session_step env s s'"

end
