(* ===== verification/ShellFrame.thy ===== *)
theory ShellFrame
  imports ShellMain
begin

text \<open>
  What commands leave alone: a small calculus for "the command keeps the invariant", and
  three interfaces, each for the invariants that depend only on parts of the shell's state.
  Under each of them the handlers that touch none of these parts are shown to keep the
  invariant, once for all such invariants.
\<close>

section \<open>Keeping an invariant\<close>

definition keeps :: "('k shell \<Rightarrow> bool) \<Rightarrow> ('k, 'a) sh \<Rightarrow> bool" where
  "keeps I m \<longleftrightarrow> (\<forall>s r s'. I s \<longrightarrow> m s = Some (r, s') \<longrightarrow> I s')"

lemma keepsD: "keeps I m \<Longrightarrow> I s \<Longrightarrow> m s = Some (r, s') \<Longrightarrow> I s'"
  by (auto simp: keeps_def)

lemma keeps_pure [intro!, simp]:
  "keeps I (sret x)" "keeps I (sfail f)" "keeps I (slift r)" "keeps I (sread g)"
  "keeps I (sget h)" "keeps I (invalid msg)" "keeps I (slift_prog p)"
  by (auto simp: keeps_def slift_prog_def split: option.splits)

lemma keeps_smod: "(\<And>s. I s \<Longrightarrow> I (f s)) \<Longrightarrow> keeps I (smod f)"
  by (auto simp: keeps_def)

text \<open>The continuation runs on a value that the first command has returned in a state with \<open>I\<close>.\<close>

lemma keeps_sbind:
  assumes "keeps I m" and "\<And>s x s'. I s \<Longrightarrow> m s = Some (Inr x, s') \<Longrightarrow> keeps I (k x)"
  shows "keeps I (sbind m k)"
proof -
  have "I s'" if "I s" "sbind m k s = Some (r, s')" for s r s'
  proof (cases "m s")
    case (Some out)
    obtain r1 s1 where out: "out = (r1, s1)" by (cases out)
    then have "I s1" using keepsD [OF assms(1) that(1)] Some by simp
    then show ?thesis
      using that(2) Some out keepsD [OF assms(2) [OF that(1)], of _ s1 s1] by (cases r1) auto
  qed (use that in simp)
  then show ?thesis by (auto simp: keeps_def)
qed

lemma keeps_sthen: "keeps I m \<Longrightarrow> keeps I m' \<Longrightarrow> keeps I (sthen m m')"
  unfolding sthen_def by (rule keeps_sbind)

lemma keeps_scatch:
  assumes "keeps I m" and "\<And>f. keeps I (h f)"
  shows "keeps I (scatch p m h)"
proof -
  have "I s'" if "I s" "scatch p m h s = Some (r, s')" for s r s'
  proof (cases "m s")
    case (Some out)
    obtain r1 s1 where out: "out = (r1, s1)" by (cases out)
    then have "I s1" using keepsD [OF assms(1) that(1)] Some by simp
    then show ?thesis
      using that(2) Some out keepsD [OF assms(2)] by (cases r1) (auto split: if_splits)
  qed (use that in simp)
  then show ?thesis by (auto simp: keeps_def)
qed

lemma keeps_if: "(b \<Longrightarrow> keeps I m) \<Longrightarrow> (\<not> b \<Longrightarrow> keeps I m') \<Longrightarrow> keeps I (if b then m else m')"
  by simp

lemma keeps_option:
  "(x = None \<Longrightarrow> keeps I m) \<Longrightarrow> (\<And>y. x = Some y \<Longrightarrow> keeps I (k y)) \<Longrightarrow>
   keeps I (case x of None \<Rightarrow> m | Some y \<Rightarrow> k y)"
  by (cases x) auto

lemma keeps_prod: "(\<And>a b. x = (a, b) \<Longrightarrow> keeps I (k a b)) \<Longrightarrow> keeps I (case x of (a, b) \<Rightarrow> k a b)"
  by (cases x) auto

lemma keeps_let: "keeps I (k x) \<Longrightarrow> keeps I (let y = x in k y)"
  by simp

lemma keeps_interactive_only: "keeps I m \<Longrightarrow> keeps I (interactive_only m)"
  by (auto simp: keeps_def interactive_only_def split: if_splits)

lemmas keeps_intros = keeps_sbind keeps_sthen keeps_scatch keeps_if keeps_option keeps_prod
  keeps_let keeps_interactive_only

section \<open>Invariants of the parts no output or kernel effect touches\<close>

locale shell_frame =
  fixes view :: "'k shell \<Rightarrow> 'v"
  assumes view_kernel: "view (s\<lparr>kernel := k\<rparr>) = view s"
    and view_printed: "view (s\<lparr>printed := out\<rparr>) = view s"
    and view_adapter: "view (s\<lparr>sh_adapter := ad\<rparr>) = view s"
    and view_pid: "view (s\<lparr>sh_pid := p\<rparr>) = view s"
    and view_name: "view (s\<lparr>process_name := name\<rparr>) = view s"
    and view_pause: "view (s\<lparr>pause_target := b\<rparr>) = view s"
    and view_run: "view (s\<lparr>run := b\<rparr>) = view s"
    and view_color: "view (s\<lparr>use_color := b\<rparr>) = view s"
    and view_max_results: "view (s\<lparr>max_results := w\<rparr>) = view s"
    and view_max_iterations: "view (s\<lparr>max_search_iterations := w\<rparr>) = view s"
    and view_find_results: "view (s\<lparr>find_results := rs\<rparr>) = view s"
begin

lemmas view_simps = view_kernel view_printed view_adapter view_pid view_name view_pause
  view_run view_color view_max_results view_max_iterations view_find_results

lemma keeps_emit: "keeps (\<lambda>s. P (view s)) (emit e)" "keeps (\<lambda>s. P (view s)) (emit_all es)"
  by (simp_all add: emit_def emit_all_def keeps_smod view_simps)

lemma keeps_on_kernel: "keeps (\<lambda>s. P (view s)) (on_kernel m)"
  by (auto simp: keeps_def on_kernel_def view_simps split: prod.splits)

lemma keeps_guarded: "keeps (\<lambda>s. P (view s)) (guarded env m)"
  by (auto simp: keeps_def guarded_def view_simps split: option.splits)

lemma keeps_save: "keeps (\<lambda>s. P (view s)) (save_data env fn d)"
  "keeps (\<lambda>s. P (view s)) (write_index env fn lines)"
  by (auto simp: keeps_def save_data_def write_index_def view_simps split: prod.splits sum.splits)

lemmas frame_intros = keeps_intros keeps_emit keeps_on_kernel keeps_guarded keeps_save

lemma keeps_list: "keeps (\<lambda>s. P (view s)) (command_list env args)"
  unfolding command_list_def all_regions_def by (intro frame_intros)

lemma keeps_dump_regions: "keeps (\<lambda>s. P (view s)) (dump_regions env prefix rs)"
proof (induction rs)
  case Nil
  show ?case unfolding dump_regions.simps by (rule keeps_pure)
next
  case (Cons r rs)
  then show ?case unfolding dump_regions.simps by (intro frame_intros keeps_pure)
qed

lemma keeps_dump: "keeps (\<lambda>s. P (view s)) (command_dump env args)"
  unfolding command_dump_def all_regions_def by (intro frame_intros keeps_dump_regions)

lemma keeps_find: "keeps (\<lambda>s. P (view s)) (command_find env args)"
  unfolding command_find_def all_regions_def
  by (intro frame_intros keeps_pure keeps_smod) (simp_all add: view_simps)

lemma keeps_access: "keeps (\<lambda>s. P (view s)) (command_access env args)"
  unfolding command_access_def by (intro frame_intros keeps_pure)

lemma keeps_read_failed: "keeps (\<lambda>s. P (view s)) (read_failed a sz t f)"
  unfolding read_failed_def by (intro frame_intros keeps_pure)

lemma keeps_show_read: "keeps (\<lambda>s. P (view s)) (show_read env a sz flags fn prev t d)"
  unfolding show_read_def by (intro frame_intros keeps_pure)

lemma keeps_read_round: "keeps (\<lambda>s. P (view s)) (read_round env a sz flags fn prev d)"
proof -
  have "P (view s')" if s: "P (view s)" and m: "read_round env a sz flags fn prev d s = Some (r, s')" for s r s'
  proof -
    let ?t = "format_now env (kernel s)"
    obtain r1 s1 where g: "guarded env (\<lambda>ad. total (read_bytes (env_mach env) (env_phosg env) ad a sz)) s =
        Some (r1, s1)"
      using m by (cases "guarded env (\<lambda>ad. total (read_bytes (env_mach env) (env_phosg env) ad a sz)) s")
        (auto simp: read_round_def Let_def)
    have s1: "P (view s1)" by (rule keepsD [OF keeps_guarded [where P = P] s g])
    have more: "keeps (\<lambda>s. P (view s)) (sthen (read_failed a sz ?t f) (sret d))"
      "keeps (\<lambda>s. P (view s)) (sthen (scatch is_exception (show_read env a sz flags fn prev ?t d')
         (read_failed a sz ?t)) (sret d'))" for f d'
      by (intro keeps_intros keeps_pure keeps_read_failed keeps_show_read)+
    show ?thesis
      using m g s1 more [THEN keepsD, OF s1]
      by (auto simp: read_round_def Let_def split: sum.splits if_splits)
  qed
  then show ?thesis by (auto simp: keeps_def)
qed

lemma keeps_write: "keeps (\<lambda>s. P (view s)) (command_write env args)"
  unfolding command_write_def Let_def by (intro frame_intros keeps_pure)

lemma keeps_data: "keeps (\<lambda>s. P (view s)) (command_data env args)"
  unfolding command_data_def by (intro frame_intros keeps_pure)

lemma keeps_pause_resume: "keeps (\<lambda>s. P (view s)) (command_pause env args)"
  "keeps (\<lambda>s. P (view s)) (command_resume env args)"
  unfolding command_pause_def command_resume_def by (intro frame_intros)+

lemma keeps_signal: "keeps (\<lambda>s. P (view s)) (command_signal env args)"
  unfolding command_signal_def
  by (intro keeps_sbind keeps_pure)
    (auto simp: keeps_def view_simps split: prod.splits if_splits)

lemma keeps_attach: "keeps (\<lambda>s. P (view s)) (command_attach env args)"
proof -
  have "keeps (\<lambda>s. P (view s)) (\<lambda>s. case attach (env_mach env) (env_phosg env) p (kernel s) of
      (r, ad) \<Rightarrow> Some (r, s\<lparr>sh_adapter := ad\<rparr>))" for p
    by (auto simp: keeps_def view_simps split: prod.splits)
  then show ?thesis
    unfolding command_attach_def
    by (intro keeps_intros keeps_pure keeps_smod) (simp_all add: view_simps)
qed

lemma keeps_state: "keeps (\<lambda>s. P (view s)) (command_state env args)"
  unfolding command_state_def set_field_def
  by (intro frame_intros keeps_pure keeps_smod) (simp_all add: view_simps)

lemma keeps_quit: "keeps (\<lambda>s. P (view s)) (command_quit args)"
  unfolding command_quit_def by (intro keeps_smod) (simp add: view_simps)

lemma keeps_print_value: "keeps (\<lambda>s. P (view s)) (print_value env t a)"
  unfolding print_value_def Let_def by (intro frame_intros keeps_pure)

lemma keeps_print_results: "keeps (\<lambda>s. P (view s)) (print_search_results env srch)"
proof -
  have "keeps (\<lambda>s. P (view s)) (print_results_from env t x as)" for t x as
  proof (induction as arbitrary: x)
    case Nil
    show ?case unfolding print_results_from.simps by (rule keeps_pure)
  next
    case (Cons a as)
    then show ?case unfolding print_results_from.simps by (intro frame_intros keeps_pure keeps_print_value)
  qed
  then show ?thesis by (simp add: print_search_results_def)
qed

lemma keeps_iterations: "keeps (\<lambda>s. P (view s)) (command_iterations env args)"
  unfolding command_iterations_def by (intro frame_intros keeps_pure)

lemma keeps_set: "keeps (\<lambda>s. P (view s)) (command_set env args)"
  unfolding command_set_def by (intro frame_intros keeps_pure)

lemma keeps_print_frozen: "keeps (\<lambda>s. P (view s)) (print_frozen env b)"
  "keeps (\<lambda>s. P (view s)) (command_frozen env args)"
  unfolding command_frozen_def print_frozen_def by (intro frame_intros keeps_pure)+

lemma keeps_results_loop: "keeps (\<lambda>s. P (view s)) (results_loop env srch seen)"
proof -
  have "P (view s) \<longrightarrow> P (view (snd out))" if "results_loop env srch seen s = Some out" for s out
    using that
  proof (rule results_loop.raw_induct [where P = "\<lambda>env srch seen s out. P (view s) \<longrightarrow> P (view (snd out))", rotated])
    fix f env srch seen s out
    assume IH: "\<And>env srch seen s out. f env srch seen s = Some out \<Longrightarrow> P (view s) \<longrightarrow> P (view (snd out))"
      and body: "(case print_search_results env srch s of
        None \<Rightarrow> None
      | Some (Inl f, s1) \<Rightarrow> Some (Inl f, s1)
      | Some (Inr _, s1) \<Rightarrow>
          if \<not> watch s1 then Some (Inr (), s1)
          else (let s2 = s1\<lparr>kernel := sleep env (kernel s1) 1000000\<rparr>
                in if seen < signals env (kernel s2) then Some (Inr (), s2)
                   else f env srch seen s2)) = Some (out :: unit res \<times> 'k shell)"
    show "P (view s) \<longrightarrow> P (view (snd out))"
    proof
      assume s: "P (view s)"
      obtain r1 s1 where m: "print_search_results env srch s = Some (r1, s1)"
        using body by (cases "print_search_results env srch s") auto
      have "P (view s1)" by (rule keepsD [OF keeps_print_results [where P = P] s m])
      then show "P (view (snd out))"
        using body m IH by (auto simp: Let_def view_simps split: sum.splits if_splits)
    qed
  qed
  then show ?thesis by (fastforce simp: keeps_def)
qed

lemma keeps_results: "keeps (\<lambda>s. P (view s)) (command_results env args)"
  unfolding command_results_def by (intro frame_intros keeps_pure keeps_results_loop)

lemma keeps_read_loop: "keeps (\<lambda>s. P (view s)) (read_loop env a sz flags fn seen first prev d)"
proof -
  have "P (view s) \<longrightarrow> P (view (snd out))"
    if "read_loop env a sz flags fn seen first prev d s = Some out" for s out
    using that
  proof (rule read_loop.raw_induct [where P = "\<lambda>env a sz flags fn seen first prev d s out.
      P (view s) \<longrightarrow> P (view (snd out))", rotated])
    fix f env a sz flags fn seen first prev d s out
    assume IH: "\<And>env a sz flags fn seen first prev d s out.
        f env a sz flags fn seen first prev d s = Some out \<Longrightarrow> P (view s) \<longrightarrow> P (view (snd out))"
      and body: "(case read_round env a sz flags fn (if first then None else Some prev) d s of
        None \<Rightarrow> None
      | Some (Inl f, s1) \<Rightarrow> Some (Inl f, s1)
      | Some (Inr d', s1) \<Rightarrow>
          if \<not> watch s1 then Some (Inr (), s1)
          else (let s2 = s1\<lparr>kernel := sleep env (kernel s1) 1000000\<rparr>
                in if seen < signals env (kernel s2) then Some (Inr (), s2)
                   else f env a sz flags fn seen False d' prev s2)) = Some (out :: unit res \<times> 'k shell)"
    show "P (view s) \<longrightarrow> P (view (snd out))"
    proof
      assume s: "P (view s)"
      obtain r1 s1 where m: "read_round env a sz flags fn (if first then None else Some prev) d s = Some (r1, s1)"
        using body by (cases "read_round env a sz flags fn (if first then None else Some prev) d s") auto
      have "P (view s1)" by (rule keepsD [OF keeps_read_round [where P = P] s m])
      then show "P (view (snd out))"
        using body m IH by (auto simp: Let_def view_simps split: sum.splits if_splits)
    qed
  qed
  then show ?thesis by (fastforce simp: keeps_def)
qed

lemma keeps_read: "keeps (\<lambda>s. P (view s)) (command_read env args)"
  unfolding command_read_def Let_def by (intro frame_intros keeps_pure keeps_read_loop)

end

section \<open>Invariants that do not depend on the frozen regions\<close>

locale freezer_frame = shell_frame view for view :: "'k shell \<Rightarrow> 'v" +
  assumes view_freezer: "view (s\<lparr>sh_freezer := fz\<rparr>) = view s"
begin

lemma keeps_on_freezer: "keeps (\<lambda>s. P (view s)) (on_freezer f)"
  by (auto simp: keeps_def on_freezer_def view_freezer split: prod.splits)

lemma keeps_freeze: "keeps (\<lambda>s. P (view s)) (command_freeze env args)"
  unfolding command_freeze_def freeze_data_def
  by (intro frame_intros keeps_pure keeps_on_freezer)

lemma keeps_regions_done: "keeps (\<lambda>s. P (view s)) (regions_done n verb)"
  unfolding regions_done_def by (intro frame_intros)

lemma keeps_unfreeze: "keeps (\<lambda>s. P (view s)) (command_unfreeze env args)"
  unfolding command_unfreeze_def
  by (intro frame_intros keeps_pure keeps_on_freezer keeps_regions_done keeps_print_frozen)

lemma keeps_enable_disable: "keeps (\<lambda>s. P (view s)) (command_enable env args)"
  "keeps (\<lambda>s. P (view s)) (command_disable env args)"
  unfolding command_enable_def command_disable_def command_enable_disable_def Let_def
  by (intro frame_intros keeps_pure keeps_on_freezer keeps_regions_done keeps_print_frozen)+

end

section \<open>Invariants that do not depend on the searches\<close>

locale search_frame = shell_frame view for view :: "'k shell \<Rightarrow> 'v" +
  assumes view_searches: "view (s\<lparr>name_to_searches := m\<rparr>) = view s"
    and view_current: "view (s\<lparr>current_search_name := n\<rparr>) = view s"
begin

lemma keeps_set_searches: "keeps (\<lambda>s. P (view s)) (set_searches key ss)"
  "keeps (\<lambda>s. P (view s)) (set_latest key x)" "keeps (\<lambda>s. P (view s)) (replace_search key ss)"
  unfolding set_searches_def set_latest_def replace_search_def
  by (intro keeps_smod; simp add: view_searches)+

lemma keeps_close_unnamed: "keeps (\<lambda>s. P (view s)) close_unnamed"
  by (auto simp: keeps_def close_unnamed_def view_simps view_searches)

lemma keeps_smod_searches: "keeps (\<lambda>s. P (view s)) (smod (\<lambda>s. s\<lparr>name_to_searches := f s\<rparr>))"
  "keeps (\<lambda>s. P (view s)) (smod (\<lambda>s. s\<lparr>current_search_name := n\<rparr>))"
  "keeps (\<lambda>s. P (view s)) (smod (\<lambda>s. s\<lparr>name_to_searches := f s, current_search_name := n\<rparr>))"
  by (intro keeps_smod; simp add: view_searches view_current)+

lemmas search_intros = frame_intros keeps_set_searches keeps_close_unnamed keeps_smod_searches

lemma keeps_search: "keeps (\<lambda>s. P (view s)) (command_search env args)"
  unfolding command_search_def run_search_def snapshot_for_def
  by (intro search_intros keeps_pure keeps_print_results)

lemma keeps_open: "keeps (\<lambda>s. P (view s)) (command_open env args)"
  unfolding command_open_def list_searches_def switch_to_def open_new_def Let_def
  by (intro search_intros keeps_pure keeps_search)

lemma keeps_fork: "keeps (\<lambda>s. P (view s)) (command_fork env args)"
  unfolding command_fork_def fork_current_def fork_named_def
  by (intro search_intros keeps_pure)

lemma keeps_close: "keeps (\<lambda>s. P (view s)) (command_close args)"
  unfolding command_close_def by (intro search_intros keeps_pure)

lemma keeps_truncate: "keeps (\<lambda>s. P (view s)) (command_truncate env args)"
  unfolding command_truncate_def Let_def by (intro search_intros keeps_pure)

lemma keeps_undo: "keeps (\<lambda>s. P (view s)) (command_undo args)"
  unfolding command_undo_def by (intro search_intros keeps_pure)

lemma keeps_delete: "keeps (\<lambda>s. P (view s)) (command_delete env args)"
  unfolding command_delete_def by (intro search_intros keeps_pure keeps_print_results)

end

section \<open>Invariants that no command touches\<close>

locale command_frame = freezer_frame view + search_frame view for view :: "'k shell \<Rightarrow> 'v"
begin

lemma keeps_run_handler: "keeps (\<lambda>s. P (view s)) (run_handler env h args)"
  unfolding run_handler_def
  by (cases h)
    (simp_all only: handler.case keeps_list keeps_dump keeps_find keeps_access keeps_read
      keeps_write keeps_data keeps_pause_resume keeps_signal keeps_attach keeps_state keeps_quit
      keeps_iterations keeps_set keeps_print_frozen keeps_results keeps_freeze keeps_unfreeze
      keeps_enable_disable keeps_search keeps_open keeps_fork keeps_close keeps_truncate
      keeps_undo keeps_delete keeps_pure)

end

end
