(* ===== verification/ShellInvariant.thy ===== *)
theory ShellInvariant
  imports ShellFrame SearchReachable
begin

text \<open>
  Invariants of a whole session: which searches the shell can hold, and that \<open>watch\<close> is set
  only while a watched command runs. Both are instances of the interfaces of ShellFrame; the
  commands that work on searches are treated here.
\<close>

section \<open>A world that answers as documented\<close>

text \<open>
  At every moment a task has a table of regions, page-aligned, disjoint and below the end of
  the address space, which \<open>mach_vm_region\<close> reports and a change of protection leaves alone;
  and the read through the end iterator in \<open>get_target_regions\<close> delivers some value.
\<close>

definition tables_ok :: "'k mach \<Rightarrow> ('k \<Rightarrow> port \<Rightarrow> (u64 \<times> u64) list) \<Rightarrow> bool" where
  "tables_ok M table \<longleftrightarrow>
     (\<forall>k t. table_wf (table k t) \<and>
        (\<forall>(a, n) \<in> set (table k t). 0x1000 dvd unat a \<and> 0x1000 dvd unat n) \<and>
        table_kernel M t {k'. table k' t = table k t} (table k t))"

definition world_ok :: "'k env \<Rightarrow> ('k \<Rightarrow> port \<Rightarrow> (u64 \<times> u64) list) \<Rightarrow> bool" where
  "world_ok env table \<longleftrightarrow> tables_ok (env_mach env) table \<and> past_end env \<noteq> None"

lemma field_size_dvd_page: "field_size t dvd 0x1000"
  by (cases t) (auto simp: field_size_def search_type_configs_def)

lemma extents_aligned:
  assumes "set (map extent rs) \<subseteq> set tab" and "\<forall>(a, n) \<in> set tab. 0x1000 dvd unat a \<and> 0x1000 dvd unat n"
  shows "aligned (field_size t) rs"
proof -
  have "0x1000 dvd unat (region_addr r) \<and> 0x1000 dvd unat (region_size r)" if "r \<in> set rs" for r
    using assms that by (fastforce simp: extent_def)
  then show ?thesis
    using field_size_dvd_page [of t] by (auto simp: aligned_def intro: dvd_trans)
qed

lemma all_regions_snapshot:
  assumes "world_ok env table" and "get_all_regions (env_mach env) ph ad rd k = Some (Inr rs, k')"
  shows "snapshot_ok t rs"
proof -
  let ?tab = "table k (task ad)"
  have w: "table_kernel (env_mach env) (task ad) {k'. table k' (task ad) = ?tab} ?tab" "table_wf ?tab"
    "\<forall>(a, n) \<in> set ?tab. 0x1000 dvd unat a \<and> 0x1000 dvd unat n"
    using assms(1) by (auto simp: world_ok_def tables_ok_def)
  have "map extent rs = ?tab \<and> regions_wf rs"
    using all_regions_of_table [OF w(1,2), of k ph rd] assms(2) by auto
  then show ?thesis using extents_aligned [OF _ w(3), of rs t] by (simp add: snapshot_ok_def)
qed

lemma target_regions_snapshot:
  assumes "world_ok env table" and "sorted targets"
    and "get_target_regions (env_mach env) ph ad (past_end env) targets rd k = Some (Inr rs, k')"
  shows "snapshot_ok t rs"
proof -
  let ?tab = "table k (task ad)"
  have w: "table_kernel (env_mach env) (task ad) {k'. table k' (task ad) = ?tab} ?tab" "table_wf ?tab"
    "\<forall>(a, n) \<in> set ?tab. 0x1000 dvd unat a \<and> 0x1000 dvd unat n"
    using assms(1) by (auto simp: world_ok_def tables_ok_def)
  obtain g where "past_end env = Some g" using assms(1) by (auto simp: world_ok_def)
  then have "regions_wf rs \<and> set (map extent rs) \<subseteq> set ?tab"
    using target_regions_of_table [OF w(1,2) _ assms(2), of k ph g rd] assms(3) by auto
  then show ?thesis using extents_aligned [OF _ w(3), of rs t] by (simp add: snapshot_ok_def)
qed

section \<open>The searches of the shell\<close>

text \<open>
  Names are unique and in order, and every search satisfies the invariant of MemorySearch.
\<close>

definition searches_ok :: "(string \<times> memory_search list) list \<Rightarrow> bool" where
  "searches_ok m \<longleftrightarrow> omap_ok m \<and> (\<forall>(n, ss) \<in> set m. list_all search_inv ss)"

abbreviation searches_inv :: "'k shell \<Rightarrow> bool" where
  "searches_inv s \<equiv> searches_ok (name_to_searches s)"

interpretation names: freezer_frame name_to_searches
  by unfold_locales simp_all

lemma searches_ok_lookup: "searches_ok m \<Longrightarrow> map_of m k = Some ss \<Longrightarrow> list_all search_inv ss"
  by (auto simp: searches_ok_def dest: map_of_SomeD)

lemma set_emplace: "set (omap_emplace k v m) \<subseteq> insert (k, v) (set m)"
  by (induction k v m rule: omap_emplace.induct) auto

lemma searches_ok_update:
  assumes "searches_ok m"
  shows "searches_ok (omap_erase k m)"
    and "list_all search_inv ss \<Longrightarrow> searches_ok (omap_emplace k ss m)"
    and "(\<And>ss. list_all search_inv ss \<Longrightarrow> list_all search_inv (f ss)) \<Longrightarrow> searches_ok (omap_modify k f m)"
  using assms set_emplace [of k ss m]
  by (auto simp: searches_ok_def omap_erase_def [of k m] omap_modify_def [of k f m]
      om.ok_erase [unfolded omap_erase_def] intro: om.ok_emplace om.ok_modify [unfolded omap_modify_def])

lemma get_searches_ok: "searches_inv s \<Longrightarrow> get_searches name s = Inr ss \<Longrightarrow> list_all search_inv ss"
  by (auto simp: get_searches_def split: option.splits dest: searches_ok_lookup)

lemma get_latest_ok: "searches_inv s \<Longrightarrow> get_latest_search name s = Inr x \<Longrightarrow> search_inv x"
  by (auto simp: get_latest_search_def res_bind_Inr_iff list_all_iff split: if_splits dest!: get_searches_ok)

lemma new_search_ok: "search_inv (new_memory_search t b)"
  by (simp add: search_inv_def new_memory_search_def)

lemma annotation_ok: "search_inv (set_annotation msg x) \<longleftrightarrow> search_inv x"
  by (simp add: search_inv_def set_annotation_def split: option.splits)

lemma delete_ok: "search_inv x \<Longrightarrow> delete_ranges x rs = Inr x' \<Longrightarrow> search_inv x'"
proof (induction x rs rule: delete_ranges.induct)
  case (2 x a b rs)
  then obtain y where y: "delete_results x a b = Inr y" "delete_ranges y rs = Inr x'"
    by (auto simp: res_bind_Inr_iff)
  have "search_inv y" by (rule delete_results_inv [OF "2.prems"(1) y(1)])
  then show ?case using "2.IH" y by blast
qed simp

lemma trim_ok: "list_all search_inv ss \<Longrightarrow> trim_iterations n ss = Inr ss' \<Longrightarrow> list_all search_inv ss'"
  by (auto simp: trim_iterations_def Let_def list_all_iff split: if_splits dest: in_set_dropD)

text \<open>A successful update of the latest search, with what \<open>search\<close> read from the target.\<close>

lemma guarded_result:
  assumes "guarded env m s = Some (Inr x, s')"
  shows "\<exists>k1 k2. m (sh_adapter s) k1 = Some (Inr x, k2)"
  using assms
  by (auto simp: guarded_def with_pause_guard_def split: option.splits prod.splits sum.splits)

lemma snapshot_for_ok:
  assumes "world_ok env table" and "search_inv x" and "snapshot_for env x s = Some (Inr rs, s')"
  shows "snapshot_ok t rs"
proof -
  have "sorted (results x)" using assms(2) by (auto simp: search_inv_def strict_sorted_iff)
  then show ?thesis
    using guarded_result [OF assms(3) [unfolded snapshot_for_def]] all_regions_snapshot [OF assms(1)]
      target_regions_snapshot [OF assms(1)]
    by (auto split: if_splits)
qed

lemma update_ok:
  assumes "world_ok env table" and "search_inv x" and "snapshot_for env x s = Some (Inr rs, s')"
    and "update enc (set_annotation msg x) rs p d m = Some (Inr x')"
  shows "search_inv x'"
  using update_search_inv [OF _ _ assms(4)] snapshot_for_ok [OF assms(1-3)] annotation_ok [of msg x] assms(2)
  by simp

section \<open>The commands on searches\<close>

lemma inv_set_searches: "list_all search_inv ss \<Longrightarrow> keeps searches_inv (set_searches key ss)"
  unfolding set_searches_def by (intro keeps_smod) (simp add: searches_ok_update)

lemma inv_set_latest: "search_inv x \<Longrightarrow> keeps searches_inv (set_latest key x)"
  unfolding set_latest_def
proof (intro keeps_smod, simp, rule searches_ok_update(3))
  show "list_all search_inv ss \<Longrightarrow> list_all search_inv (butlast ss @ [x])" if "search_inv x" for ss
    using that by (auto simp: list_all_iff) (meson in_set_butlastD)
qed

lemma inv_replace: "list_all search_inv ss \<Longrightarrow> keeps searches_inv (replace_search key ss)"
  unfolding replace_search_def by (intro keeps_smod) (simp add: searches_ok_update)

lemma inv_close_unnamed: "keeps searches_inv close_unnamed"
  by (auto simp: keeps_def close_unnamed_def searches_ok_update)

lemmas searches_intros = names.frame_intros keeps_pure names.keeps_print_results

lemma inv_run_search:
  assumes "world_ok env table"
  shows "keeps searches_inv (run_search env name p value annot)"
proof -
  have kept: "list_all search_inv ss'"
    if "searches_inv s" "sread (get_searches n) s = Some (Inr ss, s')" "ss \<noteq> []"
      "snapshot_for env (last ss) s1 = Some (Inr rs, s2)"
      "slift_prog (update enc (set_annotation annot (last ss)) rs p d m) s3 = Some (Inr x, s4)"
      "slift (trim_iterations mi (ss @ [x])) s5 = Some (Inr ss', s6)"
    for s n ss s' s1 rs s2 enc d m s3 x s4 mi s5 ss' s6
  proof -
    have ss: "list_all search_inv ss" using get_searches_ok that(1,2) by auto
    then have "search_inv (last ss)" using that(3) by (simp add: list_all_iff)
    then have "search_inv x"
      using update_ok [OF assms _ that(4)] that(5) by (auto simp: slift_prog_def split: option.splits)
    with ss show ?thesis using trim_ok [of "ss @ [x]" mi ss'] that(6) by simp
  qed
  have snap: "keeps searches_inv (snapshot_for env x)" for x
    unfolding snapshot_for_def by (intro searches_intros)
  show ?thesis
    unfolding run_search_def
    by (intro searches_intros snap inv_set_searches) (rule kept; assumption)
qed

lemma inv_search:
  assumes "world_ok env table"
  shows "keeps searches_inv (command_search env args)"
  unfolding command_search_def by (intro searches_intros inv_run_search [OF assms])

lemma inv_open:
  assumes "world_ok env table"
  shows "keeps searches_inv (command_open env args)"
  unfolding command_open_def list_searches_def switch_to_def open_new_def Let_def
  by (intro searches_intros inv_search [OF assms] inv_replace inv_close_unnamed keeps_smod)
    (simp_all add: new_search_ok)

lemma inv_fork: "keeps searches_inv (command_fork env args)"
  unfolding command_fork_def fork_current_def fork_named_def
  by (intro searches_intros inv_replace keeps_smod)
    (auto intro!: searches_ok_update dest: get_searches_ok searches_ok_lookup)

lemma inv_close: "keeps searches_inv (command_close args)"
  unfolding command_close_def
  by (intro searches_intros keeps_smod) (auto intro!: searches_ok_update)

lemma inv_truncate: "keeps searches_inv (command_truncate env args)"
  unfolding command_truncate_def Let_def
  by (intro searches_intros inv_set_searches)
    (auto simp: list_all_iff dest!: get_searches_ok in_set_dropD)

lemma inv_undo: "keeps searches_inv (command_undo args)"
  unfolding command_undo_def
  by (intro searches_intros inv_set_searches)
    (auto simp: list_all_iff dest!: get_searches_ok in_set_butlastD)

lemma inv_delete: "keeps searches_inv (command_delete env args)"
  unfolding command_delete_def
  by (intro searches_intros inv_set_latest) (auto dest: get_latest_ok delete_ok)

section \<open>Every command\<close>

interpretation flags: command_frame "\<lambda>s. (watch s, interactive s, num_commands_run s)"
  by unfold_locales simp_all

lemma inv_run_handler:
  assumes "world_ok env table"
  shows "keeps searches_inv (run_handler env h args)"
  unfolding run_handler_def
  by (cases h)
    (simp_all only: handler.case names.keeps_list names.keeps_dump names.keeps_find
      names.keeps_access names.keeps_read names.keeps_write names.keeps_data
      names.keeps_pause_resume names.keeps_signal names.keeps_attach names.keeps_state
      names.keeps_quit names.keeps_iterations names.keeps_set names.keeps_print_frozen
      names.keeps_results names.keeps_freeze names.keeps_unfreeze names.keeps_enable_disable
      inv_search [OF assms] inv_open [OF assms] inv_fork inv_close inv_truncate
      inv_undo inv_delete keeps_pure)

text \<open>The state after an outcome that is no undefined behaviour.\<close>

definition returned :: "'a res \<Rightarrow> bool" where
  "returned r \<longleftrightarrow> (\<forall>f. r = Inl f \<longrightarrow> is_exception f)"

lemma report_state:
  assumes "report (r, s) = (r', s')"
  shows "watch s' = watch s" and "interactive s' = interactive s"
    and "num_commands_run s' = num_commands_run s" and "name_to_searches s' = name_to_searches s"
    and "sh_freezer s' = sh_freezer s" and "\<exists>ret. r' = Inr ret \<Longrightarrow> returned r"
  using assms by (auto simp: report_def returned_def split: sum.splits if_splits)

lemma watched_off:
  assumes "returned (fst (end_watch (report out)))"
  shows "\<not> watch (snd (end_watch (report out)))"
proof -
  obtain r s where out: "out = (r, s)" by (cases out)
  show ?thesis
  proof (cases r)
    case (Inl f)
    then show ?thesis
      using assms out by (cases "is_exception f") (simp_all add: report_def end_watch_def returned_def)
  next
    case (Inr u)
    then show ?thesis using out by (simp add: report_def end_watch_def)
  qed
qed

text \<open>Nested \<open>watch\<close> commands: an invariant that survives every handler survives a command line.\<close>

lemma dispatch_keeps:
  assumes handlers: "\<And>h args. keeps I (run_handler env h args)"
    and watch: "\<And>s b. I s \<Longrightarrow> I (s\<lparr>watch := b\<rparr>)"
    and printed: "\<And>s out. I s \<Longrightarrow> I (s\<lparr>printed := out\<rparr>)"
    and run: "dispatch_command env args s = Some out" and s: "I s"
  shows "I (snd out)"
proof -
  have finish: "I (snd (end_watch (report out)))" if "I (snd out)" for out
    using that watch printed
    by (cases out) (auto simp: report_def end_watch_def split: sum.splits)
  have "(\<forall>h args. keeps I (run_handler env h args)) \<longrightarrow> I s \<longrightarrow> I (snd out)"
    using run
  proof (rule dispatch_command.raw_induct [where
        P = "\<lambda>env args s out. (\<forall>h args. keeps I (run_handler env h args)) \<longrightarrow> I s \<longrightarrow> I (snd out)", rotated])
    fix f env args s out
    assume IH: "\<And>env args s out. f env args s = Some out \<Longrightarrow>
        (\<forall>h args. keeps I (run_handler env h args)) \<longrightarrow> I s \<longrightarrow> I (snd out)"
      and body: "(if args = [] then Some (Inr (), s)
      else case find_handler (env_phosg env) args of
             Inl f \<Rightarrow> Some (Inl f, s)
           | Inr (h, args) \<Rightarrow>
               if h = Watch
               then Option.bind (f env args (s\<lparr>watch := True\<rparr>))
                      (\<lambda>out. Some (end_watch (report out)))
               else run_handler env h args s) = Some out"
    show "(\<forall>h args. keeps I (run_handler env h args)) \<longrightarrow> I s \<longrightarrow> I (snd out)"
    proof (intro impI)
      assume H: "\<forall>h args. keeps I (run_handler env h args)" and s: "I s"
      consider (none) "snd out = s"
        | (nested) args' out' where "f env args' (s\<lparr>watch := True\<rparr>) = Some out'"
            "out = end_watch (report out')"
        | (handler) h args' where "run_handler env h args' s = Some out"
        using body by (auto split: if_splits sum.splits simp: bind_eq_Some_conv)
      then show "I (snd out)"
      proof cases
        case nested
        then show ?thesis using IH [OF nested(1)] H finish watch [OF s] by simp
      next
        case handler
        then show ?thesis using keepsD [OF H [rule_format] s, of h args' "fst out" "snd out"] by simp
      qed (use s in simp)
    qed
  qed
  with handlers s show ?thesis by blast
qed

text \<open>After a command line has returned, \<open>watch\<close> is set only if it was set before.\<close>

lemma dispatch_watch_reset:
  assumes "dispatch_command env args s = Some out" and "returned (fst out)" and "watch (snd out)"
  shows "watch s"
proof -
  have "returned (fst out) \<longrightarrow> watch (snd out) \<longrightarrow> watch s"
    using assms(1)
  proof (rule dispatch_command.raw_induct [where
        P = "\<lambda>env args s out. returned (fst out) \<longrightarrow> watch (snd out) \<longrightarrow> watch s", rotated])
    fix f env args s out
    assume IH: "\<And>env args s out. f env args s = Some out \<Longrightarrow>
        returned (fst out) \<longrightarrow> watch (snd out) \<longrightarrow> watch s"
      and body: "(if args = [] then Some (Inr (), s)
      else case find_handler (env_phosg env) args of
             Inl f \<Rightarrow> Some (Inl f, s)
           | Inr (h, args) \<Rightarrow>
               if h = Watch
               then Option.bind (f env args (s\<lparr>watch := True\<rparr>))
                      (\<lambda>out. Some (end_watch (report out)))
               else run_handler env h args s) = Some out"
    show "returned (fst out) \<longrightarrow> watch (snd out) \<longrightarrow> watch s"
    proof (intro impI)
      assume r: "returned (fst out)" and w: "watch (snd out)"
      consider (none) "snd out = s"
        | (nested) out' where "out = end_watch (report out')"
        | (handler) h args' where "run_handler env h args' s = Some out"
        using body by (auto split: if_splits sum.splits simp: bind_eq_Some_conv)
      then show "watch s"
      proof cases
        case nested
        then show ?thesis
          using r w watched_off by blast
      next
        case handler
        have "watch (snd out) = watch s"
          using keepsD [OF flags.keeps_run_handler [where P = "\<lambda>v. fst v = watch s"], of s env h args'
            "fst out" "snd out"] handler by simp
        with w show ?thesis by simp
      qed (use w in simp)
    qed
  qed
  with assms(2,3) show ?thesis by blast
qed

lemma session_step_keeps:
  assumes "world_ok env table" and "session_step env s s'"
    and "searches_inv s" and "\<not> watch s" and "num_commands_run s = 0"
  shows "searches_inv s' \<and> \<not> watch s' \<and> num_commands_run s' = 0 \<and> interactive s' = interactive s"
  using assms(2)
proof (rule session_stepE)
  fix line ret assume e: "execute_command env line s = Some (Inr ret, s')"
  then obtain r s1 where d: "dispatch_command env line s = Some (r, s1)" "report (r, s1) = (Inr ret, s')"
    by (auto simp: execute_command_def)
  have "searches_inv s1"
    using dispatch_keeps [of searches_inv env, OF inv_run_handler [OF assms(1)] _ _ d(1)] assms(3) by simp
  moreover have "num_commands_run s1 = 0 \<and> interactive s1 = interactive s"
  proof -
    have "keeps (\<lambda>s1. num_commands_run s1 = 0 \<and> interactive s1 = interactive s) (run_handler env h args)"
      for h args
      using flags.keeps_run_handler [where P = "\<lambda>v. snd (snd v) = 0 \<and> fst (snd v) = interactive s"] by simp
    from dispatch_keeps [OF this _ _ d(1)] assms(5) show ?thesis by simp
  qed
  moreover have "returned r" using report_state(6) [OF d(2)] by simp
  then have "\<not> watch s1" using dispatch_watch_reset [OF d(1)] assms(4) by auto
  ultimately show ?thesis using report_state(1-4) [OF d(2)] by simp
next
  assume "freezer_round env s = (Inr (), s')"
  then show ?thesis using assms(3-5) by (auto simp: freezer_round_def split: prod.splits)
next
  fix k assume "s' = s\<lparr>kernel := k\<rparr>"
  then show ?thesis using assms(3-5) by simp
qed

lemma session_inv:
  "session env s \<Longrightarrow> world_ok env table \<Longrightarrow> searches_inv s \<and> \<not> watch s \<and> num_commands_run s = 0"
proof (induction rule: session.induct)
  case (start p max_res max_iter pause_t is_inter color k s)
  then show ?case
    by (auto simp: new_shell_def searches_ok_def res_bind_Inr_iff split: prod.splits sum.splits)
next
  case (step s s')
  then show ?case using session_step_keeps by blast
qed

text \<open>
  C2. Whatever commands, freezer rounds and changes of the target follow one another in a
  session: the searches of the shell have unique, ordered names; in every search the results
  are ascending, distinct, aligned addresses of cells that its snapshot holds the bytes of (of
  a byte string, its first byte); and \<open>watch\<close> is off when no command is running.
\<close>

theorem session_searches_consistent:
  assumes "session env s" and "world_ok env table"
  shows "\<not> watch s \<and> sorted_wrt (<) (map fst (name_to_searches s)) \<and>
    (\<forall>(name, iterations) \<in> set (name_to_searches s). \<forall>srch \<in> set iterations.
       sorted_wrt (<) (results srch) \<and>
         (\<forall>a \<in> set (results srch). \<exists>snap r. memory srch = Some snap \<and> r \<in> set snap \<and> contains a r \<and>
            field_size (search_type srch) dvd unat a \<and>
            unat (a - region_addr r) + field_size (search_type srch) \<le> length (region_data r)))"
proof -
  have inv: "searches_inv s" "\<not> watch s" using session_inv [OF assms] by auto
  have cell: "\<exists>snap r. memory x = Some snap \<and> r \<in> set snap \<and> contains a r \<and>
      field_size (search_type x) dvd unat a \<and>
      unat (a - region_addr r) + field_size (search_type x) \<le> length (region_data r)"
    if x: "search_inv x" "a \<in> set (results x)" for x a
  proof -
    obtain snap where snap: "memory x = Some snap" "regions_wf snap"
        "cell_in (field_size (search_type x)) snap a"
      using x by (cases "memory x") (auto simp: search_inv_def snapshot_ok_def)
    then obtain r where "r \<in> set snap" "contains a r" "region_data r \<noteq> []"
      "unat (a - region_addr r) + field_size (search_type x) \<le> unat (region_size r)"
      "field_size (search_type x) dvd unat a"
      by (auto simp: cell_in_def)
    moreover have "region_wf r" using snap(2) \<open>r \<in> set snap\<close> by (auto simp: regions_wf_def)
    ultimately show ?thesis using snap(1) by (auto simp: region_wf_def)
  qed
  have "search_inv x" if "(n, ss) \<in> set (name_to_searches s)" "x \<in> set ss" for n ss x
    using inv(1) that by (auto simp: searches_ok_def list_all_iff)
  then show ?thesis
    using inv cell by (fastforce simp: searches_ok_def omap_ok_def search_inv_def)
qed

end
