(* ===== verification/ShellEnds.thy ===== *)
theory ShellEnds
  imports ShellInvariant SearchReturns
begin

text \<open>
  Which commands return, and with which outcomes. A calculus for "the command returns, and if
  it fails, then with a failure that is allowed" is developed for any set of allowed failures
  that contains the exceptions (locale \<open>ending\<close>), and used for two such sets: all failures,
  which gives termination, and the exceptions alone, which gives that the shell survives.
\<close>

section \<open>Allowed failures\<close>

definition fails_with :: "(failure \<Rightarrow> bool) \<Rightarrow> 'a res \<Rightarrow> bool" where
  "fails_with Q r \<longleftrightarrow> (\<forall>f. r = Inl f \<longrightarrow> Q f)"

lemma fails_with_simps [simp]:
  "fails_with Q (Inr x)" "fails_with Q (Inl f) \<longleftrightarrow> Q f" "fails_with (\<lambda>_. True) r"
  by (simp_all add: fails_with_def)

lemma fails_with_Inl: "fails_with Q r \<Longrightarrow> r = Inl f \<Longrightarrow> Q f"
  by (simp add: fails_with_def)

lemma fails_with_mono: "fails_with P r \<Longrightarrow> (\<And>f. P f \<Longrightarrow> Q f) \<Longrightarrow> fails_with Q r"
  by (simp add: fails_with_def)

lemma fails_with_bind:
  "fails_with Q r \<Longrightarrow> (\<And>x. r = Inr x \<Longrightarrow> fails_with Q (k x)) \<Longrightarrow> fails_with Q (res_bind r k)"
  by (cases r) auto

definition ends :: "(failure \<Rightarrow> bool) \<Rightarrow> ('k shell \<Rightarrow> bool) \<Rightarrow> ('k, 'a) sh \<Rightarrow> bool" where
  "ends Q I m \<longleftrightarrow> (\<forall>s. I s \<longrightarrow> (\<exists>r s'. m s = Some (r, s') \<and> fails_with Q r))"

abbreviation anywhere :: "'k shell \<Rightarrow> bool" where
  "anywhere s \<equiv> True"

lemma endsD: "ends Q I m \<Longrightarrow> I s \<Longrightarrow> \<exists>r s'. m s = Some (r, s') \<and> fails_with Q r"
  by (simp add: ends_def)

lemma ends_weaken: "ends Q anywhere m \<Longrightarrow> ends Q I m"
  by (simp add: ends_def)

lemma keeps_anywhere [simp, intro!]: "keeps anywhere m"
  by (simp add: keeps_def)

section \<open>Failures of the argument parsers\<close>

text \<open>Everything the shell parses with fails by throwing, if it fails.\<close>

named_theorems throwing

lemma throws_numbers [throwing]:
  "fails_with is_exception (stoull s b)" "fails_with is_exception (stoll s b)"
  "fails_with is_exception (stoi s)"
  by (auto simp: stoull_def stoll_def stoi_def split: option.splits)

lemma throws_strings [throwing]:
  "fails_with is_exception (substr s p)" "fails_with is_exception (split_args ph s lo hi)"
  by (simp_all add: substr_def split_args_def Let_def)

lemma throws_searches [throwing]:
  "fails_with is_exception (get_searches name s)" "fails_with is_exception (get_latest_search name s)"
  "fails_with is_exception (result_at rs i msg)"
  by (auto simp: get_searches_def get_latest_search_def result_at_def intro!: fails_with_bind
      split: option.splits)

lemma throws_addr [throwing]: "fails_with is_exception (get_addr_from_command args s)"
  unfolding get_addr_from_command_def
  by (auto intro!: fails_with_bind throwing split: if_splits)

lemma throws_names [throwing]:
  "fails_with is_exception (search_predicate_for_name n)" "fails_with is_exception (open_type n)"
  by (auto simp: search_predicate_for_name_def open_type_def search_type_for_name_def fails_with_def
      split: option.splits sum.splits if_splits)

lemma throws_search_args [throwing]:
  "fails_with is_exception (parse_search_args current args)"
  "fails_with is_exception (check_can_update x p d)"
  using throws_names(1) [of "c_str (args ! 0)"]
  unfolding parse_search_args_def check_can_update_def Let_def
  by (auto intro!: fails_with_bind throwing split: sum.splits)

lemma throws_freeze_args [throwing]:
  "fails_with is_exception (parse_freeze_args s args fa)"
  "fails_with is_exception (freeze_name s fa)" "fails_with is_exception (check_freeze fa d nd)"
proof -
  have "fails_with is_exception (freeze_arg s arg fa)" for arg and fa
    unfolding freeze_arg_def by (auto intro!: fails_with_bind throwing)
  then show "fails_with is_exception (parse_freeze_args s args fa)"
    by (induction s args fa rule: parse_freeze_args.induct) (auto intro!: fails_with_bind)
  show "fails_with is_exception (freeze_name s fa)"
    using throws_searches(2) [of None s] by (auto simp: freeze_name_def split: sum.splits option.splits)
  show "fails_with is_exception (check_freeze fa d nd)"
    by (simp add: check_freeze_def)
qed

lemma throws_set_args [throwing]:
  "fails_with is_exception (parse_set_args args)" "fails_with is_exception (set_targets srch i)"
  unfolding parse_set_args_def set_targets_def
  by (auto intro!: fails_with_bind throwing split: option.splits)

lemma throws_ranges [throwing]: "fails_with is_exception (parse_ranges args s)"
proof (induction args)
  case (Cons arg args)
  have "fails_with is_exception (parse_range arg s)"
    unfolding parse_range_def by (auto intro!: fails_with_bind throwing split: option.splits)
  with Cons show ?case by (auto intro!: fails_with_bind)
qed simp

section \<open>Failures of the adapter and of the library\<close>

lemma throws_adapter [throwing]:
  "fails_with is_exception (fst (read_bytes M ph ad a n k))"
  "fails_with is_exception (fst (write_bytes M ph ad a d k))"
  "fails_with is_exception (fst (set_protection M ph ad a n p q k))"
  "fails_with is_exception (fst (pause M ph ad k))" "fails_with is_exception (fst (resume M ph ad k))"
  "fails_with is_exception (fst (attach M ph new_pid k))"
  by (auto simp: read_bytes_def write_bytes_def set_protection_def pause_def resume_def attach_def
      Let_def split: prod.splits)

text \<open>
  The calls the shell makes of phosg, the C library, the allocator and the file system fail with
  allowed failures; and unless ending the program is allowed too, the kernel keeps a suspend
  count of every task as \<open>task_suspend\<close> and \<open>task_resume\<close> are documented: a resume fails when the
  count is 0, and reading, writing and protecting memory do not change it. That the resume in
  the destructor of a pause guard succeeds is then a consequence (\<open>resume_after_suspend\<close>), and
  the \<open>resume\<close> command can fail.
\<close>

definition library_ok :: "(failure \<Rightarrow> bool) \<Rightarrow> 'k env \<Rightarrow> bool" where
  "library_ok Q env \<longleftrightarrow>
     (\<forall>s. fails_with Q (parse_data_string (env_phosg env) s) \<and> fails_with Q (stof env s) \<and>
        fails_with Q (stod env s)) \<and>
     (\<forall>k name p. fails_with Q (pid_for_name env k name) \<and> fails_with Q (name_for_pid env k p)) \<and>
     (\<forall>k fn d mode. fails_with Q (fst (save_file env k fn d)) \<and>
        fails_with Q (fst (fopen_unique env k fn mode))) \<and>
     (\<forall>n. fails_with Q (new_string env n)) \<and>
     (Q Terminate \<or> (\<forall>t. \<exists>count. steady_count (env_mach env) t count))"

text \<open>A read delivers as many bytes as it was asked for, so the value of a result can be shown.\<close>

lemma loaded_value:
  assumes "world_ok env table"
    and "read_bytes (env_mach env) (env_phosg env) ad a (of_nat (value_size_for_search_type t)) k = (Inr d, k')"
  shows "load (value_size_for_search_type t) (at_offset d 0) = Inr d"
proof -
  let ?sz = "value_size_for_search_type t"
  have "table_kernel (env_mach env) (task ad) {k'. table k' (task ad) = table k (task ad)} (table k (task ad))"
    using assms(1) by (simp add: world_ok_def tables_ok_def)
  then have "length d = unat (of_nat ?sz :: u64)"
    using read_bytes_works [OF _ _ assms(2)] by blast
  moreover have "?sz < 2 ^ 64" by (cases t) (simp_all add: value_size_for_search_type_def)
  ultimately have "length d = ?sz" by (simp add: unat_of_nat)
  then show ?thesis by (simp add: load_at_offset)
qed

text \<open>The writes of \<open>set\<close> leave the suspend count alone.\<close>

lemma write_results_keeps_count:
  "keeps_count (env_mach env) (task ad) k (snd (write_results env ad d as k))"
proof (induction as arbitrary: k)
  case (Cons a as)
  have "snd (write_result env ad d a k) = snd (write_bytes (env_mach env) (env_phosg env) ad a d k)"
    by (simp add: write_result_def split: prod.splits sum.splits)
  then have "keeps_count (env_mach env) (task ad) k (snd (write_result env ad d a k))"
    using write_bytes_keeps_count by metis
  then show ?case
    using keeps_count_trans [OF _ Cons [of "snd (write_result env ad d a k)"]]
    by (auto split: prod.splits sum.splits)
qed simp

text \<open>A body that ends and leaves the suspend count alone: such a body ends under a pause guard.\<close>

definition body_ends :: "(failure \<Rightarrow> bool) \<Rightarrow> 'k env \<Rightarrow> (adapter \<Rightarrow> ('k, 'a) partial_effect) \<Rightarrow> bool" where
  "body_ends Q env m \<longleftrightarrow> (\<forall>ad k. \<exists>r k'. m ad k = Some (r, k') \<and> fails_with Q r \<and>
     keeps_count (env_mach env) (task ad) k k')"

section \<open>The calculus\<close>

lemma ends_pure:
  "ends Q I (sret x)" "ends Q I (sget g)" "ends Q I (smod u)" "ends Q I (emit e)" "ends Q I (emit_all es)"
  by (simp_all add: ends_def)

lemma ends_slift: "fails_with Q r \<Longrightarrow> ends Q I (slift r)"
  by (simp add: ends_def)

lemma ends_sread: "(\<And>s. fails_with Q (g s)) \<Longrightarrow> ends Q I (sread g)"
  by (simp add: ends_def)

lemma ends_sbind:
  assumes "ends Q I m" and "keeps I m" and "\<And>s x s'. I s \<Longrightarrow> m s = Some (Inr x, s') \<Longrightarrow> ends Q I (k x)"
  shows "ends Q I (sbind m k)"
proof -
  have "\<exists>r s'. sbind m k s = Some (r, s') \<and> fails_with Q r" if s: "I s" for s
  proof -
    obtain r1 s1 where m: "m s = Some (r1, s1)" "fails_with Q r1" using endsD [OF assms(1) s] by blast
    then have "I s1" using keepsD [OF assms(2) s] by blast
    then show ?thesis
      using m assms(3) [OF s, of _ s1, THEN endsD, of _ s1] by (cases r1) auto
  qed
  then show ?thesis by (simp add: ends_def)
qed

lemma ends_sthen: "ends Q I m \<Longrightarrow> keeps I m \<Longrightarrow> ends Q I m' \<Longrightarrow> ends Q I (sthen m m')"
  unfolding sthen_def by (rule ends_sbind)

lemma ends_scatch:
  assumes "ends Q I m" and "keeps I m" and "\<And>f. ends Q I (h f)"
  shows "ends Q I (scatch p m h)"
proof -
  have "\<exists>r s'. scatch p m h s = Some (r, s') \<and> fails_with Q r" if s: "I s" for s
  proof -
    obtain r1 s1 where m: "m s = Some (r1, s1)" "fails_with Q r1" using endsD [OF assms(1) s] by blast
    then have "I s1" using keepsD [OF assms(2) s] by blast
    then show ?thesis using m endsD [OF assms(3), of s1] by (cases r1) auto
  qed
  then show ?thesis by (simp add: ends_def)
qed

lemma ends_if: "(b \<Longrightarrow> ends Q I m) \<Longrightarrow> (\<not> b \<Longrightarrow> ends Q I m') \<Longrightarrow> ends Q I (if b then m else m')"
  by simp

lemma ends_option:
  "(x = None \<Longrightarrow> ends Q I m) \<Longrightarrow> (\<And>y. x = Some y \<Longrightarrow> ends Q I (k y)) \<Longrightarrow>
   ends Q I (case x of None \<Rightarrow> m | Some y \<Rightarrow> k y)"
  by (cases x) auto

lemma ends_prod: "(\<And>a b. x = (a, b) \<Longrightarrow> ends Q I (k a b)) \<Longrightarrow> ends Q I (case x of (a, b) \<Rightarrow> k a b)"
  by (cases x) auto

lemma ends_on_freezer: "ends Q I (on_freezer f)"
  by (auto simp: ends_def on_freezer_def split: prod.splits)

lemmas ends_intros = ends_sbind ends_sthen ends_scatch ends_if ends_option ends_prod
  ends_slift ends_sread ends_on_freezer keeps_anywhere

section \<open>The handlers\<close>

text \<open>What the handlers need: exceptions are allowed, and the world behaves as documented.\<close>

locale ending =
  fixes Q :: "failure \<Rightarrow> bool"
  assumes allowed: "is_exception f \<Longrightarrow> Q f"
begin

lemma thrown: "fails_with is_exception r \<Longrightarrow> fails_with Q r"
  by (erule fails_with_mono) (rule allowed)

lemmas throws = throwing [THEN thrown]

lemma allowed_throw [simp]: "Q (Throw e)"
  by (simp add: allowed)

lemma ends_fail: "ends Q I (sfail (Throw e))" "ends Q I (invalid msg)"
  by (simp_all add: ends_def)

lemma ends_interactive_only: "ends Q I m \<Longrightarrow> ends Q I (interactive_only m)"
  by (auto simp: ends_def interactive_only_def)

lemma ends_on_kernel:
  "(\<And>ad k. fails_with Q (fst (m ad k))) \<Longrightarrow> ends Q I (on_kernel m)"
  by (auto simp: ends_def on_kernel_def split: prod.splits) (metis fst_conv)

lemma resumed:
  assumes "library_ok Q env" and "pause (env_mach env) ph ad k = (Inr (), k1)"
    and "keeps_count (env_mach env) (task ad) k1 k2" and "resume (env_mach env) ph ad k2 = (r, k3)"
  shows "Q Terminate \<or> r = Inr ()"
proof -
  have "task_suspend (env_mach env) k (task ad) = (KERN_SUCCESS, k1)"
    using assms(2) by (auto simp: pause_def split: prod.splits if_splits)
  then have "Q Terminate \<or> fst (task_resume (env_mach env) k2 (task ad)) = KERN_SUCCESS"
    using assms(1,3) resume_after_suspend by (metis library_ok_def)
  then show ?thesis
    using assms(4) by (auto simp: resume_def split: prod.splits if_splits)
qed

lemma ends_guarded:
  assumes "body_ends Q env m" and "library_ok Q env"
  shows "ends Q I (guarded env m)"
proof -
  have "\<exists>r s'. guarded env m s = Some (r, s') \<and> fails_with Q r" for s
  proof (cases "pause_target s")
    case True
    let ?M = "env_mach env" and ?ph = "env_phosg env" and ?ad = "sh_adapter s"
    obtain r1 k1 where p: "pause ?M ?ph ?ad (kernel s) = (r1, k1)" by (cases "pause ?M ?ph ?ad (kernel s)")
    have r1: "fails_with Q r1" using thrown [OF throws_adapter(4), of ?M ?ph ?ad "kernel s"] p by simp
    obtain r2 k2 where b: "m ?ad k1 = Some (r2, k2)" "fails_with Q r2" "keeps_count ?M (task ?ad) k1 k2"
      using assms(1) unfolding body_ends_def by blast
    obtain r3 k3 where q: "resume ?M ?ph ?ad k2 = (r3, k3)" by (cases "resume ?M ?ph ?ad k2")
    have "r1 = Inr () \<Longrightarrow> Q Terminate \<or> r3 = Inr ()"
      using resumed [OF assms(2) _ b(3) q, of "kernel s"] p by simp
    then show ?thesis
      using True p r1 b q by (cases r1; cases r3) (auto simp: guarded_def with_pause_guard_def)
  next
    case False
    moreover obtain r k' where "m (sh_adapter s) (kernel s) = Some (r, k')" "fails_with Q r"
      using assms(1) unfolding body_ends_def by blast
    ultimately show ?thesis by (simp add: guarded_def with_pause_guard_def)
  qed
  then show ?thesis by (simp add: ends_def)
qed

lemma ends_guarded_total:
  "(\<And>ad k. fails_with Q (fst (m ad k))) \<Longrightarrow> (\<And>ad k. keeps_count (env_mach env) (task ad) k (snd (m ad k))) \<Longrightarrow>
   library_ok Q env \<Longrightarrow> ends Q I (guarded env (\<lambda>ad. total (m ad)))"
  by (rule ends_guarded) (simp_all add: total_def body_ends_def, metis prod.collapse)

lemma ends_library:
  assumes "library_ok Q env"
  shows "fails_with Q (parse_data_string (env_phosg env) str)"
    and "fails_with Q (read_typed_value env t str)" and "fails_with Q (attach_pid env str s)"
    and "fails_with Q (name_for_pid env k p)" and "fails_with Q (new_string env n)"
    and "ends Q I (save_data env fn d)" and "ends Q I (write_index env fn lines)"
proof -
  note lib = assms [unfolded library_ok_def]
  show "fails_with Q (parse_data_string (env_phosg env) str)" "fails_with Q (name_for_pid env k p)"
    "fails_with Q (new_string env n)"
    using lib by auto
  show "fails_with Q (read_typed_value env t str)"
    unfolding read_typed_value_def Let_def using conjunct1 [OF lib]
    by (auto intro!: fails_with_bind throws)
  show "fails_with Q (attach_pid env str s)"
    unfolding attach_pid_def Let_def using lib by auto
  have "fails_with Q r" if "save_file env k fn d = (r, k')" for r k k'
    using lib that by (metis fst_conv)
  then show "ends Q I (save_data env fn d)"
    by (auto simp: ends_def save_data_def split: prod.splits) 
  have "fails_with Q r" if "fopen_unique env k fn ''wt'' = (r, k')" for r k k'
    using lib that by (metis fst_conv)
  then show "ends Q I (write_index env fn lines)"
    by (auto simp: ends_def write_index_def split: prod.splits sum.splits) (metis fails_with_simps(2))
qed

text \<open>The enumerations of the regions are such bodies.\<close>

lemma all_regions_ends:
  assumes "world_ok env table"
  shows "body_ends Q env (\<lambda>ad. get_all_regions (env_mach env) (env_phosg env) ad rd)"
  unfolding body_ends_def
proof (intro allI)
  fix ad :: adapter and k
  let ?tab = "table k (task ad)"
  let ?K = "{k'. table k' (task ad) = ?tab}"
  have w: "table_kernel (env_mach env) (task ad) ?K ?tab" "table_wf ?tab"
    using assms by (auto simp: world_ok_def tables_ok_def)
  obtain rs k' where rs: "get_all_regions (env_mach env) (env_phosg env) ad rd k = Some (Inr rs, k')"
    using all_regions_of_table [OF w, where k = k and ph = "env_phosg env" and read_data = rd] by auto
  have "count k' = count k" if "steady_count (env_mach env) (task ad) count" for count
    using all_regions_of_table [OF table_kernel_counted [OF w(1) that, where c = "count k"] w(2), where k = k and ph = "env_phosg env" and read_data = rd] rs
    by auto
  then show "\<exists>r k'. get_all_regions (env_mach env) (env_phosg env) ad rd k = Some (r, k') \<and> fails_with Q r \<and>
      keeps_count (env_mach env) (task ad) k k'"
    using rs by (simp add: keeps_count_def)
qed

lemma target_regions_ends:
  assumes "world_ok env table" and "sorted targets"
  shows "body_ends Q env (\<lambda>ad. get_target_regions (env_mach env) (env_phosg env) ad (past_end env) targets rd)"
  unfolding body_ends_def
proof (intro allI)
  fix ad :: adapter and k
  let ?tab = "table k (task ad)"
  let ?K = "{k'. table k' (task ad) = ?tab}"
  let ?get = "get_target_regions (env_mach env) (env_phosg env) ad (past_end env) targets rd k"
  have w: "table_kernel (env_mach env) (task ad) ?K ?tab" "table_wf ?tab"
    using assms(1) by (auto simp: world_ok_def tables_ok_def)
  obtain g where g: "past_end env = Some g" using assms(1) by (auto simp: world_ok_def)
  obtain rs k' where rs: "?get = Some (Inr rs, k')"
    using target_regions_of_table [OF w _ assms(2), where k = k and ph = "env_phosg env" and read_data = rd and g = g] g by auto
  have "count k' = count k" if "steady_count (env_mach env) (task ad) count" for count
    using target_regions_of_table [OF table_kernel_counted [OF w(1) that, where c = "count k"] w(2) _ assms(2),
        where k = k and ph = "env_phosg env" and read_data = rd and g = g] rs g
    by auto
  then show "\<exists>r k'. ?get = Some (r, k') \<and> fails_with Q r \<and> keeps_count (env_mach env) (task ad) k k'"
    using rs by (simp add: keeps_count_def)
qed

lemma ends_all_regions:
  assumes "world_ok env table" and "library_ok Q env"
  shows "ends Q I (all_regions env rd)"
  unfolding all_regions_def by (rule ends_guarded [OF all_regions_ends assms(2)]) (rule assms(1))

lemma ends_list:
  assumes "world_ok env table" and "library_ok Q env"
  shows "ends Q anywhere (command_list env args)"
  unfolding command_list_def
  by (intro ends_intros ends_pure ends_all_regions [OF assms])

lemma ends_dump:
  assumes "world_ok env table" and "library_ok Q env"
  shows "ends Q anywhere (command_dump env args)"
proof -
  have "ends Q anywhere (dump_regions env prefix rs)" for prefix rs
  proof (induction rs)
    case Nil
    show ?case unfolding dump_regions.simps by (rule ends_pure)
  next
    case (Cons r rs)
    then show ?case
      unfolding dump_regions.simps by (intro ends_intros ends_pure ends_library [OF assms(2)])
  qed
  then show ?thesis
    unfolding command_dump_def
    by (intro ends_intros ends_pure ends_all_regions [OF assms] ends_library [OF assms(2)])
qed

lemma ends_access: "ends Q anywhere (command_access env args)"
  unfolding command_access_def Let_def
  by (intro ends_intros ends_pure ends_on_kernel throws)

lemma ends_write:
  assumes "library_ok Q env"
  shows "ends Q anywhere (command_write env args)"
  unfolding command_write_def Let_def
  by (intro ends_intros ends_pure ends_fail ends_guarded_total assms throws ends_library [OF assms]
      write_bytes_keeps_count)

lemma ends_data:
  assumes "library_ok Q env"
  shows "ends Q anywhere (command_data env args)"
  unfolding command_data_def
  by (intro ends_intros ends_pure ends_fail ends_library [OF assms])

lemma ends_pause_resume: "ends Q anywhere (command_pause env args)" "ends Q anywhere (command_resume env args)"
  unfolding command_pause_def command_resume_def by (intro ends_on_kernel throws)+

lemma ends_signal: "ends Q anywhere (command_signal env args)"
proof -
  have "ends Q anywhere (\<lambda>s. case kill_process env (kernel s) (sh_pid s) n of (ret, k') \<Rightarrow>
      if ret \<noteq> 0 then Some (Inl (Throw e), s\<lparr>kernel := k'\<rparr>) else Some (Inr (), s\<lparr>kernel := k'\<rparr>))" for n e
    by (auto simp: ends_def split: prod.splits)
  then show ?thesis unfolding command_signal_def by (intro ends_intros throws)
qed

lemma ends_attach:
  assumes "library_ok Q env"
  shows "ends Q anywhere (command_attach env args)"
proof -
  have "ends Q anywhere (\<lambda>s. case attach (env_mach env) (env_phosg env) p (kernel s) of
      (r, ad) \<Rightarrow> Some (r, s\<lparr>sh_adapter := ad\<rparr>))" for p
  proof -
    have "fails_with Q r" if "attach (env_mach env) (env_phosg env) p k = (r, ad)" for r ad k
      using that thrown [OF throws_adapter(6) [of "env_mach env" "env_phosg env" p k]] by simp
    then show ?thesis by (auto simp: ends_def split: prod.splits)
  qed
  then show ?thesis
    unfolding command_attach_def by (intro ends_intros ends_pure ends_library [OF assms])
qed

lemma ends_state: "ends Q anywhere (command_state env args)"
  unfolding command_state_def set_field_def
  by (intro ends_intros ends_pure ends_fail throws)

lemma ends_quit: "ends Q anywhere (command_quit args)"
  unfolding command_quit_def by (rule ends_pure)

lemma ends_freeze:
  assumes "library_ok Q env"
  shows "ends Q anywhere (command_freeze env args)"
  unfolding command_freeze_def freeze_data_def
  by (intro ends_interactive_only ends_intros ends_pure ends_guarded_total assms throws ends_library [OF assms]
      read_bytes_keeps_count)

lemma ends_frozen: "ends Q anywhere (command_frozen env args)" "ends Q anywhere (print_frozen env b)"
  unfolding command_frozen_def print_frozen_def
  by (intro ends_interactive_only ends_intros ends_pure)+

lemma ends_unfreeze: "ends Q anywhere (command_unfreeze env args)"
  unfolding command_unfreeze_def regions_done_def
  by (intro ends_interactive_only ends_intros ends_pure ends_fail ends_frozen throws)

lemma ends_enable_disable: "ends Q anywhere (command_enable env args)" "ends Q anywhere (command_disable env args)"
  unfolding command_enable_def command_disable_def command_enable_disable_def regions_done_def Let_def
  by (intro ends_interactive_only ends_intros ends_pure ends_fail ends_frozen throws)+

lemma ends_iterations: "ends Q anywhere (command_iterations env args)"
  unfolding command_iterations_def by (intro ends_interactive_only ends_intros ends_pure throws)

lemma ends_set:
  assumes "library_ok Q env"
  shows "ends Q anywhere (command_set env args)"
proof -
  have "fails_with Q (fst (write_results env ad d as k))" for ad d as k
  proof (induction as arbitrary: k)
    case (Cons a as)
    have "is_exception f" if "write_bytes (env_mach env) (env_phosg env) ad a d k = (Inl f, k')" for f k'
      using throws_adapter(2) that by (metis fails_with_simps(2) fst_conv)
    then show ?case using Cons [of "snd (write_result env ad d a k)"]
      by (auto simp: write_result_def split: prod.splits sum.splits if_splits)
  qed simp
  then have "fails_with Q (fst (case set_targets srch i of Inl f \<Rightarrow> (Inl f, k)
      | Inr targets \<Rightarrow> write_results env ad d targets k))" for srch i ad d k
    using thrown [OF throws_set_args(2), of srch i] by (auto split: sum.splits)
  moreover have "keeps_count (env_mach env) (task ad) k (snd (case set_targets srch i of Inl f \<Rightarrow> (Inl f, k)
      | Inr targets \<Rightarrow> write_results env ad d targets k))" for srch i ad d k
    by (simp add: write_results_keeps_count split: sum.split)
  ultimately show ?thesis
    unfolding command_set_def
    by (intro ends_interactive_only ends_intros ends_pure ends_fail ends_guarded_total assms throws
        ends_library [OF assms])
qed

lemma ends_close: "ends Q anywhere (command_close args)"
  unfolding command_close_def by (intro ends_interactive_only ends_intros ends_pure ends_fail)

lemma ends_fork: "ends Q anywhere (command_fork env args)"
  unfolding command_fork_def fork_current_def fork_named_def replace_search_def
  by (intro ends_interactive_only ends_intros ends_pure ends_fail throws)

lemma ends_truncate: "ends Q anywhere (command_truncate env args)"
  unfolding command_truncate_def set_searches_def Let_def
  by (intro ends_interactive_only ends_intros ends_pure ends_fail throws)

lemma ends_undo: "ends Q anywhere (command_undo args)"
  unfolding command_undo_def set_searches_def Let_def
  by (intro ends_interactive_only ends_intros ends_pure ends_fail throws)

lemma ends_print_value:
  assumes "world_ok env table"
  shows "ends Q anywhere (print_value env t a)"
proof -
  let ?sz = "value_size_for_search_type t"
  have loaded: "fails_with Q (load ?sz (at_offset d 0))"
    if read: "on_kernel (\<lambda>ad. read_bytes (env_mach env) (env_phosg env) ad a (of_nat ?sz)) s = Some (Inr d, s')" for s d s'
  proof -
    obtain k' where "read_bytes (env_mach env) (env_phosg env) (sh_adapter s) a (of_nat ?sz) (kernel s) = (Inr d, k')"
      using read
      by (cases "read_bytes (env_mach env) (env_phosg env) (sh_adapter s) a (of_nat ?sz) (kernel s)")
        (auto simp: on_kernel_def)
    then show ?thesis using loaded_value [OF assms] by fastforce
  qed
  show ?thesis
    unfolding print_value_def Let_def
    by (intro ends_intros ends_pure ends_on_kernel throws) (rule loaded, assumption)
qed

lemma ends_print_results:
  assumes "world_ok env table"
  shows "ends Q anywhere (print_search_results env srch)"
proof -
  have "ends Q anywhere (print_results_from env t x as)" for t x as
  proof (induction as arbitrary: x)
    case Nil
    show ?case unfolding print_results_from.simps by (rule ends_pure)
  next
    case (Cons a as)
    then show ?case
      unfolding print_results_from.simps by (intro ends_intros ends_pure ends_print_value [OF assms])
  qed
  then show ?thesis by (simp add: print_search_results_def)
qed

lemma ends_snapshot:
  assumes "world_ok env table" and "library_ok Q env" and "search_inv x"
  shows "ends Q I (snapshot_for env x)"
proof -
  have "sorted (results x)" using assms(3) by (auto simp: search_inv_def strict_sorted_iff)
  then have "body_ends Q env (\<lambda>ad. if has_valid_results x
      then get_target_regions (env_mach env) (env_phosg env) ad (past_end env) (results x) True
      else get_all_regions (env_mach env) (env_phosg env) ad True)"
    using all_regions_ends [OF assms(1), of True] target_regions_ends [OF assms(1), of "results x" True]
    by (cases "has_valid_results x") simp_all
  then show ?thesis unfolding snapshot_for_def by (rule ends_guarded [OF _ assms(2)])
qed

text \<open>The loops of \<open>results\<close> and \<open>read\<close> run once when \<open>watch\<close> is off.\<close>

lemma ends_results:
  assumes "world_ok env table"
  shows "ends Q (\<lambda>s. \<not> watch s) (command_results env args)"
proof -
  have "ends Q (\<lambda>s. \<not> watch s) (results_loop env srch seen)" for srch seen
  proof -
    have "\<exists>r s'. results_loop env srch seen s = Some (r, s') \<and> fails_with Q r" if w: "\<not> watch s" for s
    proof -
      obtain r s1 where p: "print_search_results env srch s = Some (r, s1)" "fails_with Q r"
        using endsD [OF ends_print_results [OF assms]] by blast
      then have "\<not> watch s1"
        using keepsD [OF flags.keeps_print_results [where P = "\<lambda>v. \<not> fst v"]] w by fastforce
      then show ?thesis using p by (cases r) (simp_all add: results_loop.simps [of env srch seen s])
    qed
    then show ?thesis by (simp add: ends_def)
  qed
  then show ?thesis
    unfolding command_results_def
    by (intro ends_interactive_only ends_intros keeps_pure ends_pure ends_fail throws)
qed

lemma ends_read:
  assumes "library_ok Q env"
  shows "ends Q (\<lambda>s. \<not> watch s) (command_read env args)"
proof -
  have failed: "ends Q anywhere (read_failed a sz t f)" for a sz t f
    unfolding read_failed_def by (intro ends_intros ends_pure)
  have show_it: "ends Q anywhere (show_read env a sz flags fn prev t d)" for a sz flags fn prev t d
    unfolding show_read_def by (intro ends_intros ends_pure ends_library [OF assms])
  have round: "ends Q anywhere (read_round env a sz flags fn prev d)" for a sz flags fn prev d
  proof -
    have "\<exists>r s'. read_round env a sz flags fn prev d s = Some (r, s') \<and> fails_with Q r" for s
    proof -
      let ?t = "format_now env (kernel s)"
      have "ends Q anywhere (guarded env (\<lambda>ad. total (read_bytes (env_mach env) (env_phosg env) ad a sz)))"
        by (intro ends_guarded_total assms throws read_bytes_keeps_count)
      then obtain r1 s1 where g:
        "guarded env (\<lambda>ad. total (read_bytes (env_mach env) (env_phosg env) ad a sz)) s = Some (r1, s1)"
        "fails_with Q r1"
        using endsD by blast
      have more: "ends Q anywhere (sthen (read_failed a sz ?t f) (sret d))"
        "ends Q anywhere (sthen (scatch is_exception (show_read env a sz flags fn prev ?t d')
           (read_failed a sz ?t)) (sret d'))" for f d'
        by (intro ends_intros ends_pure failed show_it)+
      show ?thesis
        using endsD [OF more(1), where s = s1] endsD [OF more(2), where s = s1] g by (cases r1) (auto simp: read_round_def Let_def)
    qed
    then show ?thesis by (simp add: ends_def)
  qed
  have "ends Q (\<lambda>s. \<not> watch s) (read_loop env a sz flags fn seen b prev d)" for a sz flags fn seen b prev d
  proof -
    have "\<exists>r s'. read_loop env a sz flags fn seen b prev d s = Some (r, s') \<and> fails_with Q r"
      if w: "\<not> watch s" for s
    proof -
      let ?m = "read_round env a sz flags fn (if b then None else Some prev) d"
      obtain r s1 where p: "?m s = Some (r, s1)" "fails_with Q r"
        using endsD [OF round] by blast
      then have "\<not> watch s1"
        using keepsD [OF flags.keeps_read_round [where P = "\<lambda>v. \<not> fst v"]] w by fastforce
      then show ?thesis
        using p by (cases r) (simp_all add: read_loop.simps [of env a sz flags fn seen b prev d s])
    qed
    then show ?thesis by (simp add: ends_def)
  qed
  then show ?thesis
    unfolding command_read_def Let_def
    by (intro ends_intros keeps_pure ends_pure throws ends_library [OF assms])
qed

end

section \<open>Commands that search\<close>

interpretation returning: ending "\<lambda>_. True"
  by unfold_locales simp

interpretation surviving: ending is_exception
  by unfold_locales

lemma library_any: "library_ok (\<lambda>_. True) env"
  by (simp add: library_ok_def)

abbreviation returns :: "('k shell \<Rightarrow> bool) \<Rightarrow> ('k, 'a) sh \<Rightarrow> bool" where
  "returns I m \<equiv> ends (\<lambda>_. True) I m"

lemmas searching_intros = ends_sbind ends_sthen ends_if ends_slift ends_sread ends_option ends_prod
  ends_pure returning.ends_fail returning.ends_interactive_only searches_intros

lemma returns_run_search:
  fixes env :: "'k env"
  assumes "world_ok env table"
  shows "returns searches_inv (run_search env name p value annot)"
proof -
  have updates: "returns I (slift_prog (update enc (set_annotation annot (last ss)) rs p d m))"
    if "searches_inv s" "sread (get_searches (Some name)) s = Some (Inr ss, s')" "ss \<noteq> []"
      "snapshot_for env (last ss) s1 = Some (Inr rs, s2)" for I :: "'k shell \<Rightarrow> bool" and s ss s' s1 rs s2 enc d m
  proof -
    have "search_inv (last ss)"
      using get_searches_ok [of s "Some name" ss] that(1-3) by (auto simp: list_all_iff)
    then have "update enc (set_annotation annot (last ss)) rs p d m \<noteq> None"
      using snapshot_for_ok [OF assms _ that(4)] annotation_ok [of annot "last ss"]
      by (intro update_returns) auto
    then show ?thesis by (auto simp: ends_def slift_prog_def)
  qed
  have snapshot: "returns I (snapshot_for env (last ss))"
    if "searches_inv s" "sread (get_searches (Some name)) s = Some (Inr ss, s')" "ss \<noteq> []" for I s ss s'
    using get_searches_ok [of s "Some name" ss] that
    by (intro returning.ends_snapshot [OF assms library_any]) (auto simp: list_all_iff)
  have kept: "keeps searches_inv (snapshot_for env x)" for x
    unfolding snapshot_for_def by (rule names.keeps_guarded)
  show ?thesis
    unfolding run_search_def set_searches_def
    by (intro searching_intros kept ends_weaken [OF returning.ends_print_results [OF assms]])
      ((rule snapshot updates; assumption) | simp)+
qed

lemma returns_search:
  assumes "world_ok env table"
  shows "returns searches_inv (command_search env args)"
  unfolding command_search_def
  by (intro searching_intros returns_run_search [OF assms]) simp_all

lemma returns_open:
  assumes "world_ok env table"
  shows "returns searches_inv (command_open env args)"
proof -
  have unnamed: "returns I close_unnamed" for I
    by (simp add: ends_def close_unnamed_def)
  show ?thesis
    unfolding command_open_def list_searches_def switch_to_def open_new_def Let_def
    by (intro searching_intros unnamed inv_close_unnamed returns_search [OF assms] inv_replace keeps_smod)
      (simp_all add: replace_search_def ends_pure new_search_ok)
qed

lemma returns_delete:
  assumes "world_ok env table"
  shows "returns anywhere (command_delete env args)"
  unfolding command_delete_def set_latest_def
  by (intro ends_intros ends_pure returning.ends_interactive_only returning.ends_print_results [OF assms]) simp_all

section \<open>Every command line\<close>

text \<open>The command that a line names, if it names one.\<close>

definition command_of :: "'k env \<Rightarrow> string \<Rightarrow> handler option" where
  "command_of env line =
     (if line = [] then None
      else case find_handler (env_phosg env) line of Inl _ \<Rightarrow> None | Inr (h, _) \<Rightarrow> Some h)"

lemma dispatch_ends:
  assumes "command_of env line \<noteq> Some Watch" and "command_of env line \<notin> Some ` H"
    and "\<And>h args. h \<notin> H \<Longrightarrow> h \<noteq> Watch \<Longrightarrow> ends Q I (run_handler env h args)"
    and "\<And>f. is_exception f \<Longrightarrow> Q f" and "I s"
  shows "\<exists>r s'. dispatch_command env line s = Some (r, s') \<and> fails_with Q r"
proof (cases "line = []")
  case False
  show ?thesis
  proof (cases "find_handler (env_phosg env) line")
    case (Inl f)
    then have "is_exception f"
      by (auto simp: find_handler_def Let_def substr_def split: option.splits if_splits)
    then show ?thesis using assms(4) dispatch_unknown [OF False Inl] by simp
  next
    case (Inr out)
    obtain h args where out: "out = (h, args)" by (cases out)
    then have "h \<noteq> Watch" "h \<notin> H" using assms(1,2) False Inr by (auto simp: command_of_def)
    then show ?thesis
      using endsD [OF assms(3) assms(5)] dispatch_run [OF False Inr [unfolded out]] by metis
  qed
qed (simp add: dispatch_empty)

lemma returns_handler:
  assumes "world_ok env table" and "h \<noteq> Find" and "h \<noteq> Watch"
  shows "returns (\<lambda>s. searches_inv s \<and> \<not> watch s) (run_handler env h args)"
proof -
  note any = library_any [of env]
  note stateless = returning.ends_list [OF assms(1) any] returning.ends_dump [OF assms(1) any]
    returning.ends_access returning.ends_write [OF any] returning.ends_data [OF any]
    returning.ends_pause_resume returning.ends_signal returning.ends_attach [OF any]
    returning.ends_state returning.ends_quit returning.ends_freeze [OF any] returning.ends_frozen
    returning.ends_unfreeze returning.ends_enable_disable returning.ends_iterations
    returning.ends_set [OF any] returning.ends_close returning.ends_fork returning.ends_truncate
    returning.ends_undo returns_delete [OF assms(1)]
  have calm: "ends Q P m \<Longrightarrow> (\<And>s. R s \<Longrightarrow> P s) \<Longrightarrow> ends Q R m" for Q P R and m :: "('a, unit) sh"
    by (simp add: ends_def)
  show ?thesis
    using assms(2,3) unfolding run_handler_def
    by (cases h; simp only: handler.case)
      (rule stateless [THEN ends_weaken] calm [OF returning.ends_results [OF assms(1)]]
        calm [OF returning.ends_read [OF any]] calm [OF returns_search [OF assms(1)]]
        calm [OF returns_open [OF assms(1)]]; simp | simp)+
qed

lemma survives_handler:
  assumes "world_ok env table" and "library_ok is_exception env"
    and "h \<notin> {Find, Search, Open_cmd, Delete}" and "h \<noteq> Watch"
  shows "ends is_exception (\<lambda>s. \<not> watch s) (run_handler env h args)"
proof -
  note lib = assms(2)
  note stateless = surviving.ends_list [OF assms(1) lib] surviving.ends_dump [OF assms(1) lib]
    surviving.ends_access surviving.ends_write [OF lib] surviving.ends_data [OF lib]
    surviving.ends_pause_resume surviving.ends_signal surviving.ends_attach [OF lib]
    surviving.ends_state surviving.ends_quit surviving.ends_freeze [OF lib] surviving.ends_frozen
    surviving.ends_unfreeze surviving.ends_enable_disable surviving.ends_iterations
    surviving.ends_set [OF lib] surviving.ends_close surviving.ends_fork surviving.ends_truncate
    surviving.ends_undo
  show ?thesis
    using assms(3,4) unfolding run_handler_def
    by (cases h; simp only: handler.case)
      (rule stateless [THEN ends_weaken] surviving.ends_results [OF assms(1)] surviving.ends_read [OF lib] | simp)+
qed

text \<open>
  C3. Every command line but \<open>find\<close> and \<open>watch\<close> returns, in every state a session can reach:
  the loops over the target's regions, over the cells of a search of any type and over the
  iterations all end, and \<open>results\<close> and \<open>read\<close> run a single round.
\<close>

theorem commands_return:
  assumes "session env s" and "world_ok env table"
    and "command_of env line \<noteq> Some Find" and "command_of env line \<noteq> Some Watch"
  shows "\<exists>ret s'. execute_command env line s = Some (ret, s')"
proof -
  have "searches_inv s \<and> \<not> watch s" using session_inv [OF assms(1,2)] by blast
  then have "\<exists>r s'. dispatch_command env line s = Some (r, s') \<and> fails_with (\<lambda>_. True) r"
    using assms(3,4) returns_handler [OF assms(2)]
    by (intro dispatch_ends [where H = "{Find}" and I = "\<lambda>s. searches_inv s \<and> \<not> watch s"]) auto
  then show ?thesis by (auto simp: execute_command_def)
qed

text \<open>
  C13. Let the library, the allocator and the file system fail by throwing, if they fail, and let
  the kernel count suspensions as documented, which nobody but the shell does to the target
  (\<open>library_ok\<close>), and have a well-formed region table, with a read through the end iterator of
  C35 that is harmless (\<open>world_ok\<close>). Then no command line but
  those that search, delete results, find or watch can take the shell down: each returns, with
  0, or with 1 when an exception was reported, and does nothing undefined. In particular the
  destructor of a pause guard never ends the program, whatever fails inside its scope.
\<close>

theorem commands_survive:
  assumes "session env s" and "world_ok env table" and "library_ok is_exception env"
    and "command_of env line \<notin> Some ` {Find, Search, Open_cmd, Delete, Watch}"
  shows "\<exists>ret s'. execute_command env line s = Some (Inr ret, s') \<and> (ret = 0 \<or> ret = 1)"
proof -
  have "\<not> watch s" using session_inv [OF assms(1,2)] by blast
  then obtain r s' where "dispatch_command env line s = Some (r, s')" "fails_with is_exception r"
    using dispatch_ends [where H = "{Find, Search, Open_cmd, Delete}" and env = env and line = line and s = s
        and Q = is_exception and I = "\<lambda>s. \<not> watch s"] survives_handler [OF assms(2,3)] assms(4)
    by auto
  then show ?thesis
    by (cases r) (auto simp: execute_command_def report_def)
qed

section \<open>A watched command\<close>

text \<open>Printing results never fails and changes nothing but the output.\<close>

definition prints :: "('k, unit) sh \<Rightarrow> bool" where
  "prints m \<longleftrightarrow> (\<forall>s. \<exists>out. m s = Some (Inr (), s\<lparr>printed := out\<rparr>))"

lemma prints_emit: "prints (emit e)" "prints (sret ())"
proof -
  show "prints (emit e)" by (auto simp: prints_def)
  have "s = s\<lparr>printed := printed s\<rparr>" for s :: "'b shell" by simp
  then show "prints (sret () :: ('b, unit) sh)" unfolding prints_def by (metis sh_simps(1))
qed

lemma prints_sthen: "prints m \<Longrightarrow> prints m' \<Longrightarrow> prints (sthen m m')"
proof -
  assume m: "prints m" "prints m'"
  have "\<exists>out. sthen m m' s = Some (Inr (), s\<lparr>printed := out\<rparr>)" for s
  proof -
    obtain o1 where o1: "m s = Some (Inr (), s\<lparr>printed := o1\<rparr>)" using m(1) by (auto simp: prints_def)
    obtain o2 where "m' (s\<lparr>printed := o1\<rparr>) = Some (Inr (), (s\<lparr>printed := o1\<rparr>)\<lparr>printed := o2\<rparr>)"
      using m(2) unfolding prints_def by blast
    with o1 show ?thesis by auto
  qed
  then show ?thesis by (simp add: prints_def)
qed

lemma prints_value:
  assumes "world_ok env table"
  shows "prints (print_value env t a)"
proof -
  have "\<exists>out. print_value env t a s = Some (Inr (), s\<lparr>printed := out\<rparr>)" for s
  proof -
    let ?n = "of_nat (value_size_for_search_type t) :: u64"
    obtain r k' where r: "read_bytes (env_mach env) (env_phosg env) (sh_adapter s) a ?n (kernel s) = (r, k')"
      by (cases "read_bytes (env_mach env) (env_phosg env) (sh_adapter s) a ?n (kernel s)")
    have k: "k' = kernel s" using r by (auto simp: read_bytes_def split: prod.splits if_splits)
    have ok: "on_kernel (\<lambda>ad. read_bytes (env_mach env) (env_phosg env) ad a ?n) s = Some (r, s)"
      using r k by (simp add: on_kernel_def)
    show ?thesis
    proof (cases r)
      case (Inl f)
      have "is_exception f" using throws_adapter(1) r Inl by (metis fails_with_simps(2) fst_conv)
      then show ?thesis using ok Inl by (simp add: print_value_def Let_def) blast
    next
      case (Inr d)
      obtain fmt args where v: "value_format (env_encoding env) t d = (fmt, args)"
        by (cases "value_format (env_encoding env) t d")
      have "load (value_size_for_search_type t) (at_offset d 0) = Inr d"
        using loaded_value [OF assms r [unfolded Inr]] .
      then show ?thesis using ok Inr v by (simp add: print_value_def Let_def) blast
    qed
  qed
  then show ?thesis by (simp add: prints_def)
qed

lemma prints_results:
  assumes "world_ok env table"
  shows "prints (print_search_results env srch)"
proof -
  have "prints (print_results_from env t x as)" for t x as
  proof (induction as arbitrary: x)
    case Nil
    show ?case unfolding print_results_from.simps by (rule prints_emit)
  next
    case (Cons a as)
    then show ?case
      unfolding print_results_from.simps
      by (cases "t = DATA") (simp_all only: refl if_True if_False prints_sthen prints_emit prints_value [OF assms])
  qed
  then show ?thesis by (simp add: print_search_results_def)
qed

lemma results_loop_step:
  assumes "world_ok env table" and "watch s"
  shows "\<exists>s'. kernel s' = sleep env (kernel s) 1000000 \<and> watch s' \<and>
    results_loop env srch seen s =
      (if seen < signals env (kernel s') then Some (Inr (), s') else results_loop env srch seen s')"
proof -
  obtain out where "print_search_results env srch s = Some (Inr (), s\<lparr>printed := out\<rparr>)"
    using prints_results [OF assms(1)] by (auto simp: prints_def)
  then show ?thesis
    using assms(2)
    by (intro exI [where x = "s\<lparr>printed := out, kernel := sleep env (kernel s) 1000000\<rparr>"])
      (simp add: results_loop.simps [of env srch seen s] Let_def)
qed

lemma results_loop_signalled:
  assumes "world_ok env table" and "0 < n" and "watch s"
    and "seen < signals env (((\<lambda>k. sleep env k 1000000) ^^ n) (kernel s))"
  shows "\<exists>s'. results_loop env srch seen s = Some (Inr (), s')"
  using assms(2-4)
proof (induction n arbitrary: s)
  case (Suc n)
  let ?f = "\<lambda>k. sleep env k 1000000"
  obtain s' where s': "kernel s' = ?f (kernel s)" "watch s'" "results_loop env srch seen s =
      (if seen < signals env (kernel s') then Some (Inr (), s') else results_loop env srch seen s')"
    using results_loop_step [OF assms(1) Suc.prems(2)] by blast
  show ?case
  proof (cases "seen < signals env (kernel s')")
    case False
    then have "0 < n" using Suc.prems(3) s'(1) by (cases n) auto
    moreover have "seen < signals env ((?f ^^ n) (kernel s'))"
      using Suc.prems(3) s'(1) funpow_swap1 [of ?f n "kernel s"] by simp
    ultimately show ?thesis using Suc.IH [OF _ s'(2)] s'(3) False by simp
  qed (use s'(3) in simp)
qed simp

definition signal_comes :: "'k env \<Rightarrow> nat \<Rightarrow> 'k \<Rightarrow> bool" where
  "signal_comes env seen k \<longleftrightarrow> (\<exists>n > 0. seen < signals env (((\<lambda>k. sleep env k 1000000) ^^ n) k))"

lemma signal_comes_later:
  assumes "seen < signals env (sleep env k 1000000) \<or> signal_comes env seen (sleep env k 1000000)"
  shows "signal_comes env seen k"
  using assms
proof
  assume "seen < signals env (sleep env k 1000000)"
  then show ?thesis unfolding signal_comes_def by (intro exI [where x = 1]) simp
next
  assume "signal_comes env seen (sleep env k 1000000)"
  then obtain n where "seen < signals env (((\<lambda>k. sleep env k 1000000) ^^ n) (sleep env k 1000000))"
    by (auto simp: signal_comes_def)
  then show ?thesis
    using funpow_swap1 [of "\<lambda>k. sleep env k 1000000" n k]
    unfolding signal_comes_def by (intro exI [where x = "Suc n"]) simp
qed

lemma results_loop_returned:
  assumes "results_loop env srch seen s = Some out" and "world_ok env table" and "watch s"
  shows "signal_comes env seen (kernel s)"
proof -
  have "world_ok env table \<longrightarrow> watch s \<longrightarrow> signal_comes env seen (kernel s)"
    using assms(1)
  proof (rule results_loop.raw_induct [where P = "\<lambda>env srch seen s out. world_ok env table \<longrightarrow> watch s \<longrightarrow>
      signal_comes env seen (kernel s)", rotated])
    fix g :: "'a env \<Rightarrow> memory_search \<Rightarrow> nat \<Rightarrow> 'a shell \<Rightarrow> (unit res \<times> 'a shell) option"
      and env srch seen s out
    assume IH: "\<And>env srch seen s out. g env srch seen s = Some out \<Longrightarrow>
        world_ok env table \<longrightarrow> watch s \<longrightarrow> signal_comes env seen (kernel s)"
      and body: "(case print_search_results env srch s of
        None \<Rightarrow> None
      | Some (Inl f, s1) \<Rightarrow> Some (Inl f, s1)
      | Some (Inr _, s1) \<Rightarrow>
          if \<not> watch s1 then Some (Inr (), s1)
          else (let s2 = s1\<lparr>kernel := sleep env (kernel s1) 1000000\<rparr>
                in if seen < signals env (kernel s2) then Some (Inr (), s2)
                   else g env srch seen s2)) = Some out"
    show "world_ok env table \<longrightarrow> watch s \<longrightarrow> signal_comes env seen (kernel s)"
    proof (intro impI signal_comes_later)
      assume w: "world_ok env table" "watch s"
      let ?k = "sleep env (kernel s) 1000000"
      obtain o1 where p: "print_search_results env srch s = Some (Inr (), s\<lparr>printed := o1\<rparr>)"
        using prints_results [OF w(1)] by (auto simp: prints_def)
      have "g env srch seen (s\<lparr>printed := o1, kernel := ?k\<rparr>) = Some out" if "\<not> seen < signals env ?k"
        using that body p w(2) by simp
      then show "seen < signals env ?k \<or> signal_comes env seen ?k"
        using IH [of env srch seen "s\<lparr>printed := o1, kernel := ?k\<rparr>" out] w by auto
    qed
  qed
  with assms(2,3) show ?thesis by blast
qed

text \<open>
  C17. \<open>watch results\<close> goes on until a SIGINT arrives, and no longer: if after some number of
  its one-second sleeps a signal has been delivered since the command began, it returns, and if
  none ever is it never returns.
\<close>

theorem watched_results_stop_at_signal:
  assumes "world_ok env table" and "watch s" and "interactive s"
    and "get_latest_search (opt_name args) s = Inr srch" and "has_memory_snapshot srch"
  shows "if \<exists>n > 0. signals env (kernel s) < signals env (((\<lambda>k. sleep env k 1000000) ^^ n) (kernel s))
    then \<exists>s'. command_results env args s = Some (Inr (), s')
    else command_results env args s = None"
proof -
  have "command_results env args s = results_loop env srch (signals env (kernel s)) s"
    using assms(3-5) by (simp add: command_results_def interactive_only_def)
  then show ?thesis
    using results_loop_signalled [OF assms(1) _ assms(2)] results_loop_returned [OF _ assms(1,2)]
    unfolding signal_comes_def by (metis not_None_eq)
qed

end
