(* ===== verification/ShellHistory.thy ===== *)
theory ShellHistory
  imports ShellEnds
begin

text \<open>
  The iterations of a search: how many are retained, that \<open>search\<close> adds one and \<open>undo\<close> takes it
  back, and what \<open>fork\<close> does to the search it writes over.
\<close>

section \<open>Retained iterations\<close>

lemma trim_outcome:
  assumes "length ss < 2 ^ 63"
  shows "trim_iterations m ss =
    (if unat m \<le> 2 ^ 63 + length ss then Inr (drop (length ss - unat m) ss)
     else Inl (Undefined Bad_erase))"
proof -
  let ?n = "of_nat (length ss) :: u64"
  have n: "unat ?n = length ss" using assms by (simp add: unat_of_nat)
  have m: "unat m < 2 ^ 64" by (rule u64_bound)
  have signed: "0 < sint w \<longleftrightarrow> 0 < unat w \<and> unat w < 2 ^ 63" for w :: u64
  proof -
    define k where "k = uint w"
    have k: "0 \<le> k" "k < 2 ^ 64" "nat k = unat w"
      using uint_bounded [of w] by (simp_all add: k_def)
    then have "k div 2 ^ 63 = (if k < 2 ^ 63 then 0 else 1)" by auto
    then have "bit k 63 \<longleftrightarrow> \<not> k < 2 ^ 63" by (simp add: bit_iff_odd)
    then have "sint w = (if k < 2 ^ 63 then k else k - 2 ^ 64)"
      using k(1,2) by (simp add: sint_uint k_def [symmetric] signed_take_bit_eq_take_bit_minus take_bit_int_eq_self)
    then show ?thesis using k by auto
  qed
  consider "unat m \<le> length ss" | "length ss < unat m" by linarith
  then show ?thesis
  proof cases
    case 1
    then have "unat (?n - m) = length ss - unat m"
      using n by (simp add: unat_sub word_le_nat_alt)
    then show ?thesis
      using 1 assms signed [of "?n - m"] diff_le_self [of "length ss" "unat m", unfolded not_less [symmetric]]
      by (simp add: trim_iterations_def Let_def)
  next
    case 2
    then have "unat (?n - m) = 2 ^ 64 + length ss - unat m"
      using n m by (simp add: unat_sub_if' word_le_nat_alt)
    then show ?thesis
      using 2 assms m signed [of "?n - m"] by (simp add: trim_iterations_def Let_def) linarith
  qed
qed

text \<open>
  C40. With \<open>max_search_iterations\<close> up to \<open>2 ^ 63\<close> a search keeps its newest iterations, at most
  that many (none at all for 0); a value above \<open>2 ^ 63\<close> by more than the number of iterations,
  as \<open>-1\<close> gives, makes the erased range longer than the vector.
\<close>

theorem trim_iterations_outcome:
  assumes "length ss < 2 ^ 63"
  shows "trim_iterations m ss =
    (if unat m \<le> 2 ^ 63 + length ss then Inr (drop (length ss - unat m) ss)
     else Inl (Undefined Bad_erase))"
  by (rule trim_outcome [OF assms])

section \<open>What a search does to the iterations\<close>

lemma sbind_Inr: "sbind m k s = Some (Inr y, s2) \<longleftrightarrow> (\<exists>x s1. m s = Some (Inr x, s1) \<and> k x s1 = Some (Inr y, s2))"
  by (auto simp: sbind_def split: option.splits sum.splits prod.splits)

lemma sthen_Inr: "sthen m m' s = Some (Inr y, s2) \<longleftrightarrow> (\<exists>s1. m s = Some (Inr (), s1) \<and> m' s1 = Some (Inr y, s2))"
  by (auto simp: sthen_def sbind_Inr)

lemma snapshot_effect: "snapshot_for env x s = Some (r, s') \<Longrightarrow> \<exists>k. s' = s\<lparr>kernel := k\<rparr>"
  by (auto simp: snapshot_for_def guarded_def split: option.splits)

lemma show_new_effect:
  assumes "world_ok env table"
  shows "\<exists>out. (if b then print_search_results env x else sret ()) s = Some (Inr (), s\<lparr>printed := out\<rparr>)"
proof -
  have "prints (if b then print_search_results env x else sret ())"
    by (cases b) (simp_all only: if_True if_False prints_results [OF assms] prints_emit)
  then show ?thesis unfolding prints_def by blast
qed

lemma update_type: "update enc x rs p d m = Some (Inr y) \<Longrightarrow> search_type y = search_type x"
  by (auto simp: update_def Let_def prog_bind_Inr_iff split: sum.splits option.splits if_splits)

lemma run_search_success:
  assumes "world_ok env table" and "run_search env name p value annot s = Some (Inr (), s')"
  shows "\<exists>ss d rs k x ss' out. map_of (name_to_searches s) name = Some ss \<and> ss \<noteq> [] \<and>
    (if value \<noteq> [] then read_typed_value env (search_type (last ss)) value else Inr []) = Inr d \<and>
    snapshot_for env (last ss) s = Some (Inr rs, s\<lparr>kernel := k\<rparr>) \<and>
    update (env_encoding env) (set_annotation annot (last ss)) rs p d (unat (max_results s)) = Some (Inr x) \<and>
    trim_iterations (max_search_iterations s) (ss @ [x]) = Inr ss' \<and>
    s' = s\<lparr>kernel := k, printed := out, name_to_searches := omap_modify name (\<lambda>_. ss') (name_to_searches s)\<rparr>"
proof -
  obtain ss where ss: "get_searches (Some name) s = Inr ss" "ss \<noteq> []"
    using assms(2) by (auto simp: run_search_def sbind_Inr split: if_splits)
  then obtain d rs s1 x s2 ss' where steps:
    "(if value \<noteq> [] then read_typed_value env (search_type (last ss)) value else Inr []) = Inr d"
    "snapshot_for env (last ss) s = Some (Inr rs, s1)"
    "update (env_encoding env) (set_annotation annot (last ss)) rs p d (unat (max_results s1)) = Some (Inr x)"
    "(if length (results x) \<le> 20 then print_search_results env x else sret ()) s1 = Some (Inr (), s2)"
    "trim_iterations (max_search_iterations s2) (ss @ [x]) = Inr ss'"
    "s' = s2\<lparr>name_to_searches := omap_modify name (\<lambda>_. ss') (name_to_searches s2)\<rparr>"
    using assms(2)
    by (auto simp: run_search_def sbind_Inr sthen_Inr slift_prog_def set_searches_def split: option.splits)
  obtain k where "s1 = s\<lparr>kernel := k\<rparr>" using snapshot_effect [OF steps(2)] by blast
  moreover obtain out where "s2 = s1\<lparr>printed := out\<rparr>"
    using show_new_effect [OF assms(1), of "length (results x) \<le> 20" x s1] steps(4) by auto
  moreover have "map_of (name_to_searches s) name = Some ss"
    using ss(1) by (auto simp: get_searches_def search_key_def split: option.splits)
  ultimately show ?thesis using ss(2) steps by auto
qed

lemma run_search_appends:
  assumes "world_ok env table" and "run_search env name p value annot s = Some (Inr (), s')"
  shows "\<exists>ss x ss' k out. map_of (name_to_searches s) name = Some ss \<and> ss \<noteq> [] \<and>
    search_type x = search_type (last ss) \<and>
    trim_iterations (max_search_iterations s) (ss @ [x]) = Inr ss' \<and>
    s' = s\<lparr>kernel := k, printed := out, name_to_searches := omap_modify name (\<lambda>_. ss') (name_to_searches s)\<rparr>"
proof -
  obtain ss d rs k x ss' out where run: "map_of (name_to_searches s) name = Some ss" "ss \<noteq> []"
    "update (env_encoding env) (set_annotation annot (last ss)) rs p d (unat (max_results s)) = Some (Inr x)"
    "trim_iterations (max_search_iterations s) (ss @ [x]) = Inr ss'"
    "s' = s\<lparr>kernel := k, printed := out, name_to_searches := omap_modify name (\<lambda>_. ss') (name_to_searches s)\<rparr>"
    using run_search_success [OF assms] by blast
  have "search_type x = search_type (last ss)" using update_type [OF run(3)] by (simp add: set_annotation_def)
  then show ?thesis using run by blast
qed

text \<open>Assigning to an entry its old value changes nothing.\<close>

lemma modify_back:
  assumes "omap_ok m" and "map_of m k = Some v"
  shows "omap_modify k (\<lambda>_. v) (omap_modify k f m) = m"
proof -
  have "distinct (map fst m)" by (rule omap_ok_distinct [OF assms(1)])
  then have "v' = v" if "(k, v') \<in> set m" for v'
    using assms(2) that by simp
  then have "\<And>e. e \<in> set m \<Longrightarrow> ((\<lambda>(k', va). (k', if k' = k then v else va)) \<circ>
      (\<lambda>(k', v). (k', if k' = k then f v else v))) e = e" by auto
  then show ?thesis by (simp only: omap_modify_def map_map map_idI)
qed

text \<open>
  C15. \<open>undo\<close> takes a search back: after a \<open>search\<close> that succeeded and that did not push out an
  older iteration, \<open>undo\<close> with the same name restores the searches as they were before.
\<close>

theorem undo_reverts_search:
  assumes "session env s" and "world_ok env table"
    and "run_search env name p value annot s = Some (Inr (), s1)" and "interactive s"
    and "get_searches (Some name) s = Inr ss" and "length ss < unat (max_search_iterations s)"
    and "unat (max_search_iterations s) < 2 ^ 63" and "name = [] \<Longrightarrow> current_search_name s = []"
  shows "\<exists>s2. command_undo name s1 = Some (Inr (), s2) \<and> name_to_searches s2 = name_to_searches s"
proof -
  obtain ss0 x ss' k out where run: "map_of (name_to_searches s) name = Some ss0" "ss0 \<noteq> []"
    "trim_iterations (max_search_iterations s) (ss0 @ [x]) = Inr ss'"
    "s1 = s\<lparr>kernel := k, printed := out, name_to_searches := omap_modify name (\<lambda>_. ss') (name_to_searches s)\<rparr>"
    using run_search_appends [OF assms(2,3)] by blast
  have ss0: "ss0 = ss" using run(1) assms(5) by (simp add: get_searches_def search_key_def)
  have ok: "omap_ok (name_to_searches s)"
    using session_inv [OF assms(1,2)] by (simp add: searches_ok_def)
  have ss': "ss' = ss @ [x]"
    using run(3) assms(6,7) trim_outcome [of "ss @ [x]" "max_search_iterations s"] by (simp add: ss0 split: if_splits)
  have key: "search_key s1 (opt_name name) = name"
    using assms(8) run(4) by (auto simp: search_key_def opt_name_def)
  have "map_of (name_to_searches s1) name = Some (ss @ [x])"
    using run(1,4) ok by (simp add: om.lookup_modify ss')
  then have found: "get_searches (opt_name name) s1 = Inr (ss @ [x])"
    by (simp add: get_searches_def key)
  have "ss \<noteq> []" using run(2) ss0 by simp
  then have "command_undo name s1 =
      Some (Inr (), s1\<lparr>name_to_searches := omap_modify name (\<lambda>_. ss) (name_to_searches s1)\<rparr>)"
    using found key assms(4) run(4)
    by (simp add: command_undo_def interactive_only_def set_searches_def)
  then show ?thesis using modify_back [OF ok] run(1,4) ss0 by simp
qed

section \<open>Searches do not take the shell down\<close>

lemma update_fails:
  assumes "search_inv x" and "snapshot_ok (search_type x) rs" and "search_type x \<noteq> DATA"
    and "\<not> flag_may_overflow (search_type x) p"
  shows "\<exists>r. update enc (set_annotation annot x) rs p d m = Some r \<and> fails_with is_exception r"
  using update_preserves_invariant_step [of "set_annotation annot x" rs p enc d m] assms annotation_ok [of annot x]
  by (auto simp: set_annotation_def)

lemma sbind_ends:
  assumes "m s = Some (r, s1)" and "fails_with Q r"
    and "\<And>x. r = Inr x \<Longrightarrow> \<exists>r' s'. k x s1 = Some (r', s') \<and> fails_with Q r'"
  shows "\<exists>r' s'. sbind m k s = Some (r', s') \<and> fails_with Q r'"
  using assms by (cases r) auto

lemma sbind_pure_ends:
  "fails_with Q r \<Longrightarrow> (\<And>x. r = Inr x \<Longrightarrow> \<exists>r' s'. k x s = Some (r', s') \<and> fails_with Q r') \<Longrightarrow>
     \<exists>r' s'. sbind (slift r) k s = Some (r', s') \<and> fails_with Q r'"
  "fails_with Q (g s) \<Longrightarrow> (\<And>x. g s = Inr x \<Longrightarrow> \<exists>r' s'. k x s = Some (r', s') \<and> fails_with Q r') \<Longrightarrow>
     \<exists>r' s'. sbind (sread g) k s = Some (r', s') \<and> fails_with Q r'"
  by (rule sbind_ends, rule sh_simps, assumption, blast)+

text \<open>The end of a search, from the snapshot on.\<close>

definition finish_search :: "'k env \<Rightarrow> string \<Rightarrow> predicate \<Rightarrow> string \<Rightarrow> memory_search list \<Rightarrow> byte list
    \<Rightarrow> region list \<Rightarrow> ('k, unit) sh" where
  "finish_search env name p annot ss d rs =
     sbind (sget max_results) (\<lambda>max_res.
     sbind (slift_prog (update (env_encoding env) (set_annotation annot (last ss)) rs p d (unat max_res))) (\<lambda>x.
     sthen (if length (results x) \<le> 20 then print_search_results env x else sret ())
     (sbind (sget max_search_iterations) (\<lambda>max_iter.
      sbind (slift (trim_iterations max_iter (ss @ [x]))) (set_searches name)))))"

lemma finish_search_survives:
  assumes "world_ok env table" and "search_inv (last ss)" and "snapshot_ok (search_type (last ss)) rs"
    and "length ss + 1 < 2 ^ 63" and "search_type (last ss) \<noteq> DATA"
    and "\<not> flag_may_overflow (search_type (last ss)) p" and "unat (max_search_iterations s) \<le> 2 ^ 63"
  shows "\<exists>r s'. finish_search env name p annot ss d rs s = Some (r, s') \<and> fails_with is_exception r"
proof -
  obtain r where r: "update (env_encoding env) (set_annotation annot (last ss)) rs p d (unat (max_results s)) = Some r"
    "fails_with is_exception r"
    using update_fails [OF assms(2,3,5,6)] by blast
  show ?thesis
  proof (cases r)
    case (Inr x)
    obtain ss' where trim: "trim_iterations (max_search_iterations s) (ss @ [x]) = Inr ss'"
      using trim_outcome [of "ss @ [x]" "max_search_iterations s"] assms(4,7) by simp
    define shown where "shown = (if length (results x) \<le> 20 then print_search_results env x else sret ())"
    obtain out where "shown s = Some (Inr (), s\<lparr>printed := out\<rparr>)"
      using show_new_effect [OF assms(1)] unfolding shown_def by blast
    moreover have "finish_search env name p annot ss d rs s =
      sthen shown (sbind (sget max_search_iterations) (\<lambda>max_iter.
        sbind (slift (trim_iterations max_iter (ss @ [x]))) (set_searches name))) s"
      using r Inr by (simp add: finish_search_def slift_prog_def shown_def)
    ultimately show ?thesis using trim by (simp add: set_searches_def)
  qed (use r in \<open>simp add: finish_search_def slift_prog_def\<close>)
qed

lemma run_search_finish:
  "run_search env name p value annot =
     sbind (sread (get_searches (Some name))) (\<lambda>ss.
       if ss = [] then sfail (Throw (Runtime_error ''search has no iterations''))
       else
         sbind (slift (if value \<noteq> [] then read_typed_value env (search_type (last ss)) value else Inr [])) (\<lambda>data.
         sbind (slift (check_can_update (last ss) p data)) (\<lambda>_.
         sbind (snapshot_for env (last ss)) (finish_search env name p annot ss data))))"
  unfolding run_search_def finish_search_def by simp


section \<open>Forking\<close>

text \<open>
  \<open>fork\<close> with two names erases the target before it looks for the source: an unknown source, or
  the target itself as the source, fails and the target is gone.
\<close>

lemma failed_fork_erases_target:
  assumes "interactive s" and "split_args (env_phosg env) args 1 2 = Inr [src, dst]"
    and "omap_ok (name_to_searches s)" and "map_of (name_to_searches s) src = None \<or> src = dst"
  shows "\<exists>msg s'. command_fork env args s = Some (Inl (Throw (Out_of_range msg)), s') \<and>
    map_of (name_to_searches s') dst = None"
  using assms
  by (auto simp: command_fork_def interactive_only_def fork_named_def om.lookup_erase split: option.splits)

end
