(* ===== verification/FreezerRegistry.thy ===== *)
theory FreezerRegistry
  imports FreezerProps
begin

text \<open>
  What the registry of frozen regions keeps through every operation, \<open>unfreeze_all\<close> included:
  the indices by name and by number agree, every entry of any index points to a region object
  with the entry's key, and only the index by address may hold more regions than the others.
  A region's number is its position among all regions ever frozen.
\<close>

section \<open>The invariant\<close>

definition registry_ok :: "freezer \<Rightarrow> bool" where
  "registry_ok fz \<longleftrightarrow>
     next_index fz = of_nat (length (objects fz)) \<and>
     (\<forall>p < length (objects fz). rgn_index (objects fz ! p) = of_nat p) \<and>
     omap_ok (regions_by_index fz) \<and>
     (\<forall>(i, p) \<in> set (regions_by_index fz). p < length (objects fz) \<and> i = of_nat p) \<and>
     distinct (regions_by_name fz) \<and>
     set (regions_by_name fz) = (\<lambda>p. (rgn_name (objects fz ! p), p)) ` set (refs fz) \<and>
     distinct (regions_by_addr fz) \<and>
     (\<lambda>p. (rgn_addr (objects fz ! p), p)) ` set (refs fz) \<subseteq> set (regions_by_addr fz) \<and>
     (\<forall>(a, p) \<in> set (regions_by_addr fz). p < length (objects fz) \<and> rgn_addr (objects fz ! p) = a)"

text \<open>The numbers do not repeat while fewer than \<open>2 ^ 64\<close> regions have been frozen.\<close>

definition unwrapped :: "freezer \<Rightarrow> bool" where
  "unwrapped fz \<longleftrightarrow> length (objects fz) < 2 ^ 64"

lemma position_inj: "unwrapped fz \<Longrightarrow> p < length (objects fz) \<Longrightarrow> q < length (objects fz) \<Longrightarrow>
    (of_nat p :: u64) = of_nat q \<longleftrightarrow> p = q"
proof -
  assume "unwrapped fz" "p < length (objects fz)" "q < length (objects fz)"
  then have "unat (of_nat p :: u64) = p" "unat (of_nat q :: u64) = q"
    by (simp_all add: unwrapped_def unat_of_nat)
  then show ?thesis by metis
qed

lemma registryD:
  assumes "registry_ok fz"
  shows "p \<in> set (refs fz) \<Longrightarrow> p < length (objects fz)"
    and "p \<in> set (refs fz) \<longleftrightarrow> (of_nat p, p) \<in> set (regions_by_index fz)"
    and "(i, p) \<in> set (regions_by_index fz) \<Longrightarrow> i = of_nat p \<and> p < length (objects fz)"
    and "p < length (objects fz) \<Longrightarrow> rgn_index (objects fz ! p) = of_nat p"
    and "(n, p) \<in> set (regions_by_name fz) \<longleftrightarrow> p \<in> set (refs fz) \<and> n = rgn_name (objects fz ! p)"
    and "(a, p) \<in> set (regions_by_addr fz) \<Longrightarrow> p < length (objects fz) \<and> a = rgn_addr (objects fz ! p)"
proof -
  have entry: "i = of_nat p \<and> p < length (objects fz)" if "(i, p) \<in> set (regions_by_index fz)" for i p
    using assms that by (auto simp: registry_ok_def)
  have ref: "p \<in> set (refs fz) \<longleftrightarrow> (\<exists>i. (i, p) \<in> set (regions_by_index fz))" for p
    by (force simp: refs_def)
  show "p \<in> set (refs fz) \<longleftrightarrow> (of_nat p, p) \<in> set (regions_by_index fz)" using entry ref by blast
  show "p \<in> set (refs fz) \<Longrightarrow> p < length (objects fz)" using entry ref by blast
  show "(i, p) \<in> set (regions_by_index fz) \<Longrightarrow> i = of_nat p \<and> p < length (objects fz)" by (rule entry)
  show "p < length (objects fz) \<Longrightarrow> rgn_index (objects fz ! p) = of_nat p"
    "(a, p) \<in> set (regions_by_addr fz) \<Longrightarrow> p < length (objects fz) \<and> a = rgn_addr (objects fz ! p)"
    using assms by (auto simp: registry_ok_def)
  have "set (regions_by_name fz) = (\<lambda>p. (rgn_name (objects fz ! p), p)) ` set (refs fz)"
    using assms by (simp add: registry_ok_def)
  then show "(n, p) \<in> set (regions_by_name fz) \<longleftrightarrow> p \<in> set (refs fz) \<and> n = rgn_name (objects fz ! p)"
    by auto
qed

section \<open>Adding\<close>

lemma add_region_registry:
  assumes "registry_ok fz" and "rgn_index r = next_index fz"
    and "unwrapped (add_region r (fz\<lparr>next_index := next_index fz + 1\<rparr>))"
  shows "registry_ok (add_region r (fz\<lparr>next_index := next_index fz + 1\<rparr>))"
proof -
  let ?p = "length (objects fz)"
  let ?fz = "add_region r (fz\<lparr>next_index := next_index fz + 1\<rparr>)"
  note D = registryD [OF assms(1)]
  have small: "?p + 1 < 2 ^ 64" using assms(3) by (simp add: unwrapped_def add_region_def Let_def)
  have idx: "rgn_index r = of_nat ?p" using assms(1,2) by (simp add: registry_ok_def)
  have "i < of_nat ?p" if "(i, p) \<in> set (regions_by_index fz)" for i p
    using D(3) [OF that] small by (auto simp: word_less_nat_alt unat_of_nat)
  then have bi: "regions_by_index ?fz = regions_by_index fz @ [(of_nat ?p, ?p)]"
    using idx by (auto simp: add_region_def Let_def intro!: omap_emplace_last)
  have objs: "objects ?fz = objects fz @ [r]" by (simp add: add_region_def Let_def)
  have refs': "refs ?fz = refs fz @ [?p]" using bi by (simp add: refs_def)
  have old: "objects ?fz ! p = objects fz ! p" if "p < ?p" for p
    using that by (simp add: objs nth_append)
  have old_refs: "objects ?fz ! p = objects fz ! p" if "p \<in> set (refs fz)" for p
    using old D(1) that by blast
  have fresh: "(n, ?p) \<notin> set (regions_by_name fz)" "(a, ?p) \<notin> set (regions_by_addr fz)" for n a
    by (auto simp: D(5) dest: D(1,6))
  have names: "regions_by_name ?fz = regions_by_name fz @ [(rgn_name r, ?p)]"
    and addrs: "regions_by_addr ?fz = regions_by_addr fz @ [(rgn_addr r, ?p)]"
    by (simp_all add: add_region_def Let_def multi_emplace_def)
  have "omap_ok (regions_by_index ?fz)"
    using assms(1) by (simp add: add_region_def Let_def registry_ok_def)
  moreover have "\<forall>p < length (objects ?fz). rgn_index (objects ?fz ! p) = of_nat p"
    using D(4) idx by (auto simp: objs nth_append less_Suc_eq)
  moreover have "\<forall>(i, p) \<in> set (regions_by_index ?fz). p < length (objects ?fz) \<and> i = of_nat p"
    using D(3) by (fastforce simp: bi objs)
  moreover have "set (regions_by_name ?fz) = (\<lambda>p. (rgn_name (objects ?fz ! p), p)) ` set (refs ?fz)"
  proof -
    have "(\<lambda>p. (rgn_name (objects ?fz ! p), p)) ` set (refs fz) = set (regions_by_name fz)"
      using assms(1) old_refs by (auto simp: registry_ok_def)
    then show ?thesis by (simp add: names refs' objs)
  qed
  moreover have "(\<lambda>p. (rgn_addr (objects ?fz ! p), p)) ` set (refs ?fz) \<subseteq> set (regions_by_addr ?fz)"
  proof -
    have "(\<lambda>p. (rgn_addr (objects ?fz ! p), p)) ` set (refs fz) \<subseteq> set (regions_by_addr fz)"
      using assms(1) old_refs by (auto simp: registry_ok_def)
    then show ?thesis by (auto simp: addrs refs' objs)
  qed
  moreover have "\<forall>(a, p) \<in> set (regions_by_addr ?fz). p < length (objects ?fz) \<and> rgn_addr (objects ?fz ! p) = a"
    using D(6) old by (fastforce simp: addrs objs)
  moreover have "distinct (regions_by_name ?fz)" "distinct (regions_by_addr ?fz)"
  proof -
    have "distinct (regions_by_name fz)" "distinct (regions_by_addr fz)"
      using assms(1) by (simp_all add: registry_ok_def)
    then show "distinct (regions_by_name ?fz)" "distinct (regions_by_addr ?fz)"
      using fresh unfolding names addrs by simp_all
  qed
  moreover have "next_index ?fz = of_nat (length (objects ?fz))"
    using assms(1) by (simp add: add_region_def Let_def registry_ok_def)
  ultimately show ?thesis unfolding registry_ok_def by blast
qed

section \<open>Removing\<close>

lemma remove_refs_registry:
  assumes "registry_ok fz"
  shows "registry_ok (remove_refs S fz)"
proof -
  have "omap_ok (filter P (regions_by_index fz))" for P
    using assms by (auto simp: registry_ok_def omap_ok_def sorted_wrt_filter sorted_wrt_map)
  moreover have "set (filter (\<lambda>e. snd e \<notin> S) (regions_by_name fz)) =
      (\<lambda>p. (rgn_name (objects fz ! p), p)) ` (set (refs fz) - S)"
    "(\<lambda>p. (rgn_addr (objects fz ! p), p)) ` (set (refs fz) - S) \<subseteq>
      set (filter (\<lambda>e. snd e \<notin> S) (regions_by_addr fz))"
    using assms by (auto simp: registry_ok_def)
  moreover have "set (refs (remove_refs S fz)) = set (refs fz) - S" by (auto simp: refs_remove)
  ultimately show ?thesis
    using assms unfolding registry_ok_def remove_refs_keeps by (auto simp: remove_refs_def)
qed

lemma registry_filters:
  assumes "registry_ok fz" and "unwrapped fz" and "S \<subseteq> {..< length (objects fz)}"
  shows "filter (\<lambda>e. fst e \<notin> (\<lambda>p. rgn_index (objects fz ! p)) ` S) (regions_by_index fz) =
      filter (\<lambda>e. snd e \<notin> S) (regions_by_index fz)"
    and "filter (\<lambda>(a, p). \<not> (p \<in> S \<and> a = rgn_addr (objects fz ! p))) (regions_by_addr fz) =
      filter (\<lambda>e. snd e \<notin> S) (regions_by_addr fz)"
    and "filter (\<lambda>(n, p). \<not> (p \<in> S \<and> n = rgn_name (objects fz ! p))) (regions_by_name fz) =
      filter (\<lambda>e. snd e \<notin> S) (regions_by_name fz)"
proof -
  note D = registryD [OF assms(1)]
  show "filter (\<lambda>(a, p). \<not> (p \<in> S \<and> a = rgn_addr (objects fz ! p))) (regions_by_addr fz) =
      filter (\<lambda>e. snd e \<notin> S) (regions_by_addr fz)"
    "filter (\<lambda>(n, p). \<not> (p \<in> S \<and> n = rgn_name (objects fz ! p))) (regions_by_name fz) =
      filter (\<lambda>e. snd e \<notin> S) (regions_by_name fz)"
    by (intro filter_cong refl, auto simp: D(5) dest: D(6))+
  have "(\<lambda>p. rgn_index (objects fz ! p)) ` S = of_nat ` S"
    using D(4) assms(3) by (intro image_cong) auto
  moreover have "i \<in> of_nat ` S \<longleftrightarrow> p \<in> S" if "(i, p) \<in> set (regions_by_index fz)" for i p
    using D(3) [OF that] position_inj [OF assms(2)] assms(3) by auto
  ultimately show "filter (\<lambda>e. fst e \<notin> (\<lambda>p. rgn_index (objects fz ! p)) ` S) (regions_by_index fz) =
      filter (\<lambda>e. snd e \<notin> S) (regions_by_index fz)"
    by (intro filter_cong refl) auto
qed

lemma unfreeze_registry:
  assumes "registry_ok fz" and "unwrapped fz"
  shows "registry_ok (snd (unfreeze_name n fz))" and "registry_ok (snd (unfreeze_addr a fz))"
    and "registry_ok (snd (unfreeze_index i fz))" and "registry_ok (snd (unfreeze_all fz))"
proof -
  note D = registryD [OF assms(1)]
  have "snd (unfreeze_name n fz) = remove_refs {p. (n, p) \<in> set (regions_by_name fz)} fz"
  proof -
    let ?S = "{p. (n, p) \<in> set (regions_by_name fz)}"
    have "?S \<subseteq> {..< length (objects fz)}" using D(1,5) by auto
    note F = registry_filters [OF assms this]
    have "multi_erase n (regions_by_name fz) = filter (\<lambda>e. snd e \<notin> ?S) (regions_by_name fz)"
      unfolding multi_erase_def by (intro filter_cong refl) (auto simp: D(5))
    then show ?thesis
      unfolding unfreeze_name_def Let_def fold_drop_by_name set_multimap
      using F(1,2) by (simp add: remove_refs_def)
  qed
  then show "registry_ok (snd (unfreeze_name n fz))" using remove_refs_registry [OF assms(1)] by simp
  have "snd (unfreeze_addr a fz) = remove_refs {p. (a, p) \<in> set (regions_by_addr fz)} fz"
  proof -
    let ?S = "{p. (a, p) \<in> set (regions_by_addr fz)}"
    have "?S \<subseteq> {..< length (objects fz)}" using D(6) by auto
    note F = registry_filters [OF assms this]
    have "multi_erase a (regions_by_addr fz) = filter (\<lambda>e. snd e \<notin> ?S) (regions_by_addr fz)"
    proof (unfold multi_erase_def, intro filter_cong refl)
      fix e assume "e \<in> set (regions_by_addr fz)"
      then show "(case e of (a', _) \<Rightarrow> a' \<noteq> a) = (snd e \<notin> ?S)"
        using D(6) [of a "snd e"] D(6) [of "fst e" "snd e"] by (cases e) auto
    qed
    then show ?thesis
      unfolding unfreeze_addr_def Let_def fold_drop_by_addr set_multimap
      using F(1,3) by (simp add: remove_refs_def)
  qed
  then show "registry_ok (snd (unfreeze_addr a fz))" using remove_refs_registry [OF assms(1)] by simp
  show "registry_ok (snd (unfreeze_index i fz))"
  proof (cases "map_of (regions_by_index fz) i")
    case (Some p)
    then have p: "i = of_nat p" "p < length (objects fz)" using D(3) map_of_SomeD by fastforce+
    note F = registry_filters [OF assms, of "{p}"]
    have erased: "omap_erase i (regions_by_index fz) = filter (\<lambda>e. fst e \<noteq> of_nat p) (regions_by_index fz)"
      unfolding omap_erase_def p(1) by (intro filter_cong refl) auto
    have "snd (unfreeze_index i fz) = remove_refs {p} fz"
      using Some F p D(4) erased
      by (simp add: unfreeze_index_def remove_refs_def erase_by_value_def case_prod_beta conj_commute)
    then show ?thesis using remove_refs_registry [OF assms(1)] by simp
  qed (use assms(1) in \<open>simp add: unfreeze_index_def\<close>)
  show "registry_ok (snd (unfreeze_all fz))"
    using assms(1) by (auto simp: registry_ok_def unfreeze_all_def refs_def)
qed

section \<open>Changing regions in place\<close>

text \<open>The flags, the error and the data of a region do not matter to the registry.\<close>

definition region_key :: "frozen \<Rightarrow> string \<times> u64 \<times> u64" where
  "region_key r = (rgn_name r, rgn_addr r, rgn_index r)"

lemma same_keys:
  assumes "map region_key objs = map region_key (objects fz)"
  shows "registry_ok (fz\<lparr>objects := objs\<rparr>) \<longleftrightarrow> registry_ok fz"
proof -
  have len: "length objs = length (objects fz)" using assms map_eq_imp_length_eq by blast
  have key: "rgn_name (objs ! p) = rgn_name (objects fz ! p)" "rgn_addr (objs ! p) = rgn_addr (objects fz ! p)"
    "rgn_index (objs ! p) = rgn_index (objects fz ! p)" if "p < length (objects fz)" for p
    using assms that len by (metis Pair_inject nth_map region_key_def)+
  have "(\<lambda>p. (rgn_name (objs ! p), p)) ` set (refs fz) = (\<lambda>p. (rgn_name (objects fz ! p), p)) ` set (refs fz) \<and>
      (\<lambda>p. (rgn_addr (objs ! p), p)) ` set (refs fz) = (\<lambda>p. (rgn_addr (objects fz ! p), p)) ` set (refs fz)"
    if "\<forall>(i, p) \<in> set (regions_by_index fz). p < length (objects fz) \<and> i = of_nat p"
    using that key by (auto simp: refs_def intro!: image_cong)
  moreover have "refs (fz\<lparr>objects := objs\<rparr>) = refs fz" by (simp add: refs_def)
  moreover have "(\<forall>(a, p) \<in> set (regions_by_addr fz). p < length objs \<and> rgn_addr (objs ! p) = a) \<longleftrightarrow>
      (\<forall>(a, p) \<in> set (regions_by_addr fz). p < length (objects fz) \<and> rgn_addr (objects fz ! p) = a)"
    using key(2) len by fastforce
  moreover have "(\<forall>p < length objs. rgn_index (objs ! p) = of_nat p) \<longleftrightarrow>
      (\<forall>p < length (objects fz). rgn_index (objects fz ! p) = of_nat p)"
    using key(3) len by auto
  ultimately show ?thesis
    unfolding registry_ok_def by (simp add: len cong: conj_cong) blast?
qed

lemma update_keeps_keys:
  "region_key x = region_key (objs ! p) \<Longrightarrow> map region_key (objs[p := x]) = map region_key objs"
  by (cases "p < length objs") (auto simp: map_update list_update_same_conv list_update_beyond)

lemma enable_keeps_keys: "map region_key (snd (enable_each ps b objs)) = map region_key objs"
proof (induction ps b objs rule: enable_each.induct)
  case (2 p ps b objs)
  have "map region_key (objs[p := (objs ! p)\<lparr>rgn_enable := b\<rparr>]) = map region_key objs"
    by (rule update_keeps_keys) (simp add: region_key_def)
  then show ?case using 2 by (auto split: prod.splits)
qed simp

lemma enable_registry:
  assumes "registry_ok fz"
  shows "registry_ok (snd (enable_name n b fz))" and "registry_ok (snd (enable_addr a b fz))"
    and "registry_ok (snd (enable_index i b fz))" and "registry_ok (snd (enable_all b fz))"
proof -
  have "registry_ok (snd (enable_refs ps b fz))" for ps
    using enable_keeps_keys [of ps b "objects fz"] assms same_keys
    by (auto simp: enable_refs_def split: prod.splits)
  then show "registry_ok (snd (enable_name n b fz))" "registry_ok (snd (enable_addr a b fz))"
    "registry_ok (snd (enable_all b fz))"
    by (simp_all add: enable_name_def enable_addr_def enable_all_def)
  have "registry_ok (fz\<lparr>objects := (objects fz)[p := (objects fz ! p)\<lparr>rgn_enable := b\<rparr>]\<rparr>)" for p
    using assms by (subst same_keys) (simp_all add: update_keeps_keys region_key_def)
  then show "registry_ok (snd (enable_index i b fz))"
    using assms by (auto simp: enable_index_def split: option.splits)
qed

lemma write_region_key: "write_region M ph ad r k = (Inr r', k') \<Longrightarrow> region_key r' = region_key r"
  by (auto simp: write_region_def write_plain_def write_array_def write_slot_def caught_def region_key_def
      split: option.splits prod.splits sum.splits slot.splits if_splits)

lemma write_each_keys:
  "write_each M ph ad ps objs k = (r, objs', k') \<Longrightarrow> map region_key objs' = map region_key objs"
proof (induction M ph ad ps objs k rule: write_each.induct)
  case (2 M ph ad p ps objs k)
  have kept: "map region_key (objs[p := x]) = map region_key objs"
    if "write_region M ph ad (objs ! p) k = (Inr x, k1)" for x k1
    by (intro update_keeps_keys write_region_key [OF that])
  show ?case
    using 2 kept by (simp split: if_splits prod.splits sum.splits) (metis kept)?
qed simp

lemma write_pass_registry:
  assumes "registry_ok fz" and "write_pass M ph ad fz k = (r, fz', k')"
  shows "registry_ok fz'" and "length (objects fz') = length (objects fz)"
proof -
  obtain objs where objs: "write_each M ph ad (map snd (regions_by_index fz)) (objects fz) k = (r, objs, k')"
    "fz' = fz\<lparr>objects := objs\<rparr>"
    using assms(2) by (auto simp: write_pass_def split: prod.splits)
  note keys = write_each_keys [OF objs(1)]
  show "registry_ok fz'" using assms(1) same_keys [OF keys] objs(2) by simp
  show "length (objects fz') = length (objects fz)"
    using map_eq_imp_length_eq [OF keys] objs(2) by simp
qed

section \<open>Every operation\<close>

text \<open>Objects are never removed, so a registry that is unwrapped now has always been.\<close>

definition registry_inv :: "freezer \<Rightarrow> bool" where
  "registry_inv fz \<longleftrightarrow> (unwrapped fz \<longrightarrow> registry_ok fz)"

lemma fold_keeps_objects:
  "(\<And>p fz. objects (f p fz) = objects fz) \<Longrightarrow> objects (fold f ps fz) = objects fz"
  by (induction ps arbitrary: fz) auto

lemma unfreeze_objects:
  "objects (snd (unfreeze_name n fz)) = objects fz" "objects (snd (unfreeze_addr a fz)) = objects fz"
  "objects (snd (unfreeze_index i fz)) = objects fz" "objects (snd (unfreeze_all fz)) = objects fz"
  by (simp_all add: unfreeze_name_def unfreeze_addr_def unfreeze_index_def unfreeze_all_def Let_def
      fold_keeps_objects drop_by_name_step_def drop_by_addr_step_def split: option.splits)

lemma enable_objects:
  "length (objects (snd (enable_name n b fz))) = length (objects fz)"
  "length (objects (snd (enable_addr a b fz))) = length (objects fz)"
  "length (objects (snd (enable_index i b fz))) = length (objects fz)"
  "length (objects (snd (enable_all b fz))) = length (objects fz)"
proof -
  have "length (objects (snd (enable_refs ps b fz))) = length (objects fz)" for ps
    using map_eq_imp_length_eq [OF enable_keeps_keys [of ps b "objects fz"]]
    by (cases "enable_each ps b (objects fz)") (simp add: enable_refs_def)
  then show "length (objects (snd (enable_name n b fz))) = length (objects fz)"
    "length (objects (snd (enable_addr a b fz))) = length (objects fz)"
    "length (objects (snd (enable_all b fz))) = length (objects fz)"
    by (simp_all add: enable_name_def enable_addr_def enable_all_def)
  show "length (objects (snd (enable_index i b fz))) = length (objects fz)"
    by (simp add: enable_index_def split: option.splits)
qed

lemma registry_steps:
  assumes "registry_inv fz"
  shows "registry_inv (freeze n a d e fz)" and "registry_inv (freeze_array n a m d dm nd nm e fz)"
    and "registry_inv (snd (unfreeze_name n fz))" and "registry_inv (snd (unfreeze_addr a fz))"
    and "registry_inv (snd (unfreeze_index i fz))" and "registry_inv (snd (unfreeze_all fz))"
    and "registry_inv (snd (enable_name n b fz))" and "registry_inv (snd (enable_addr a b fz))"
    and "registry_inv (snd (enable_index i b fz))" and "registry_inv (snd (enable_all b fz))"
    and "write_pass M ph ad fz k = (r, fz', k') \<Longrightarrow> registry_inv fz'"
proof -
  have ok: "registry_ok fz" if "unwrapped fz" using assms that by (simp add: registry_inv_def)
  have "registry_inv (add_region r (fz\<lparr>next_index := next_index fz + 1\<rparr>))" if "rgn_index r = next_index fz" for r
  proof -
    have "unwrapped fz" if "unwrapped (add_region r (fz\<lparr>next_index := next_index fz + 1\<rparr>))"
      using that by (simp add: unwrapped_def add_region_def Let_def)
    then show ?thesis
      using ok add_region_registry that by (auto simp: registry_inv_def)
  qed
  then show "registry_inv (freeze n a d e fz)" "registry_inv (freeze_array n a m d dm nd nm e fz)"
    by (simp_all add: freeze_def freeze_array_def new_region_def new_array_region_def)
  show "registry_inv (snd (unfreeze_name n fz))" "registry_inv (snd (unfreeze_addr a fz))"
    "registry_inv (snd (unfreeze_index i fz))" "registry_inv (snd (unfreeze_all fz))"
    using ok unfreeze_registry [of fz] by (simp_all add: registry_inv_def unwrapped_def unfreeze_objects)
  show "registry_inv (snd (enable_name n b fz))" "registry_inv (snd (enable_addr a b fz))"
    "registry_inv (snd (enable_index i b fz))" "registry_inv (snd (enable_all b fz))"
    using ok enable_registry [of fz] by (simp_all add: registry_inv_def unwrapped_def enable_objects)
  show "registry_inv fz'" if "write_pass M ph ad fz k = (r, fz', k')"
  proof -
    have "length (objects fz') = length (objects fz)"
      using map_eq_imp_length_eq [OF write_each_keys] that by (auto simp: write_pass_def split: prod.splits)
    then show ?thesis
      using ok write_pass_registry(1) [OF _ that] by (simp add: registry_inv_def unwrapped_def)
  qed
qed

end
