(* ===== verification/ShellRegistry.thy ===== *)
theory ShellRegistry
  imports ShellInvariant FreezerRegistry
begin

text \<open>
  The registry of frozen regions through a whole session: commands on it, rounds of the write
  thread and everything else keep the invariant of FreezerRegistry.
\<close>

interpretation registry: search_frame sh_freezer
  by unfold_locales simp_all

abbreviation frozen_ok :: "'k shell \<Rightarrow> bool" where
  "frozen_ok s \<equiv> registry_inv (sh_freezer s)"

lemma frozen_on_freezer:
  assumes "\<And>fz. registry_inv fz \<Longrightarrow> registry_inv (snd (f fz))"
  shows "keeps frozen_ok (on_freezer f)"
  using assms by (auto simp: keeps_def on_freezer_def split: prod.splits) (metis snd_conv)

lemma frozen_ops:
  "keeps frozen_ok (on_freezer (unfreeze_name n))" "keeps frozen_ok (on_freezer (unfreeze_addr a))"
  "keeps frozen_ok (on_freezer (unfreeze_index i))" "keeps frozen_ok (on_freezer unfreeze_all)"
  "keeps frozen_ok (on_freezer (enable_name n b))" "keeps frozen_ok (on_freezer (enable_addr a b))"
  "keeps frozen_ok (on_freezer (enable_index i b))" "keeps frozen_ok (on_freezer (enable_all b))"
  by (rule frozen_on_freezer, erule registry_steps(3-10))+

lemma frozen_freeze: "keeps frozen_ok (command_freeze env args)"
proof -
  have "registry_inv (add_frozen fa name d m nd nm fz)" if "registry_inv fz" for fa name d m nd nm fz
    using registry_steps(1,2) [OF that] by (simp add: add_frozen_def)
  then have "keeps frozen_ok (on_freezer (\<lambda>fz. ((), add_frozen fa name d m nd nm fz)))" for fa name d m nd nm
    by (intro frozen_on_freezer) simp
  then show ?thesis
    unfolding command_freeze_def freeze_data_def by (intro registry.frame_intros keeps_pure)
qed

lemma frozen_unfreeze: "keeps frozen_ok (command_unfreeze env args)"
  unfolding command_unfreeze_def regions_done_def
  by (intro registry.frame_intros keeps_pure registry.keeps_print_frozen frozen_ops)

lemma frozen_enable_disable: "keeps frozen_ok (command_enable env args)" "keeps frozen_ok (command_disable env args)"
  unfolding command_enable_def command_disable_def command_enable_disable_def regions_done_def Let_def
  by (intro registry.frame_intros keeps_pure registry.keeps_print_frozen frozen_ops)+

lemma frozen_run_handler: "keeps frozen_ok (run_handler env h args)"
  unfolding run_handler_def
  by (cases h)
    (simp_all only: handler.case registry.keeps_list registry.keeps_dump registry.keeps_find
      registry.keeps_access registry.keeps_read registry.keeps_write registry.keeps_data
      registry.keeps_pause_resume registry.keeps_signal registry.keeps_attach registry.keeps_state
      registry.keeps_quit registry.keeps_iterations registry.keeps_set registry.keeps_print_frozen
      registry.keeps_results frozen_freeze frozen_unfreeze frozen_enable_disable
      registry.keeps_search registry.keeps_open registry.keeps_fork registry.keeps_close
      registry.keeps_truncate registry.keeps_undo registry.keeps_delete keeps_pure)

lemma session_registry: "session env s \<Longrightarrow> frozen_ok s"
proof (induction rule: session.induct)
  case (start p max_res max_iter pause_t is_inter color k s)
  then show ?case
    by (auto simp: new_shell_def registry_inv_def registry_ok_def new_freezer_def refs_def res_bind_Inr_iff
        split: prod.splits sum.splits)
next
  case (step s s')
  from step(2) show ?case
  proof (rule session_stepE)
    fix line ret assume "execute_command env line s = Some (Inr ret, s')"
    then obtain r s1 where d: "dispatch_command env line s = Some (r, s1)" "report (r, s1) = (Inr ret, s')"
      by (auto simp: execute_command_def)
    have "frozen_ok s1"
      using dispatch_keeps [of frozen_ok env, OF frozen_run_handler _ _ d(1)] step.IH by simp
    then show "frozen_ok s'" using report_state(5) [OF d(2)] by simp
  next
    assume "freezer_round env s = (Inr (), s')"
    then show "frozen_ok s'"
      using registry_steps(11) [OF step.IH] by (auto simp: freezer_round_def split: prod.splits)
  next
    fix k assume "s' = s\<lparr>kernel := k\<rparr>"
    then show "frozen_ok s'" using step.IH by simp
  qed
qed

text \<open>
  C11. Whatever commands, freezer rounds and changes of the target follow one another in a
  session in which fewer than \<open>2 ^ 64\<close> regions are frozen: the frozen regions are walked in
  ascending order of distinct numbers, every pointer of an index leads to an existing region
  with the number, name or address it is filed under, and a region that is filed by number is
  filed by its name and by its address as well, and only such a region is filed by name. Only
  the index by address can hold others (after \<open>unfreeze *\<close>).
\<close>

theorem session_registry_consistent:
  assumes "session env s" and "length (objects (sh_freezer s)) < 2 ^ 64"
  defines "fz \<equiv> sh_freezer s"
  shows "sorted_wrt (<) (map fst (regions_by_index fz)) \<and>
    (\<forall>(i, p) \<in> set (regions_by_index fz). p < length (objects fz) \<and> rgn_index (objects fz ! p) = i \<and>
       (rgn_name (objects fz ! p), p) \<in> set (regions_by_name fz) \<and>
       (rgn_addr (objects fz ! p), p) \<in> set (regions_by_addr fz)) \<and>
    (\<forall>(n, p) \<in> set (regions_by_name fz). rgn_name (objects fz ! p) = n \<and> p \<in> snd ` set (regions_by_index fz)) \<and>
    (\<forall>(a, p) \<in> set (regions_by_addr fz). p < length (objects fz) \<and> rgn_addr (objects fz ! p) = a)"
proof -
  have ok: "registry_ok fz"
    using session_registry [OF assms(1)] assms(2) by (simp add: registry_inv_def unwrapped_def fz_def)
  note D = registryD [OF ok]
  have ref: "p \<in> set (refs fz)" if "(i, p) \<in> set (regions_by_index fz)" for i p
    using that by (force simp: refs_def)
  have "p < length (objects fz) \<and> rgn_index (objects fz ! p) = i \<and>
      (rgn_name (objects fz ! p), p) \<in> set (regions_by_name fz) \<and>
      (rgn_addr (objects fz ! p), p) \<in> set (regions_by_addr fz)"
    if "(i, p) \<in> set (regions_by_index fz)" for i p
  proof -
    have "(rgn_addr (objects fz ! p), p) \<in> set (regions_by_addr fz)"
      using ok ref [OF that] by (auto simp: registry_ok_def)
    then show ?thesis using D(3) [OF that] D(4) [of p] D(5) [of _ p] ref [OF that] by simp
  qed
  moreover have "rgn_name (objects fz ! p) = n \<and> p \<in> snd ` set (regions_by_index fz)"
    if "(n, p) \<in> set (regions_by_name fz)" for n p
    using D(5) [of n p] that by (simp add: refs_def)
  moreover have "p < length (objects fz) \<and> rgn_addr (objects fz ! p) = a"
    if "(a, p) \<in> set (regions_by_addr fz)" for a p
    using D(6) [OF that] by simp
  moreover have "sorted_wrt (<) (map fst (regions_by_index fz))"
    using ok by (simp add: registry_ok_def omap_ok_def)
  ultimately show ?thesis by blast
qed

end
