(* ===== verification/ShellWrite.thy ===== *)
theory ShellWrite
  imports ShellHistory ShellRegistry FreezerWrite
begin

text \<open>
  What \<open>set\<close> does to the target's memory, and that a search finds it there: the writes of the
  shell composed with the region enumeration, the snapshot and the narrowing of a search.
\<close>

section \<open>A kernel with a memory\<close>

text \<open>
  The documented behaviour of the Mach calls on the memory \<open>mem\<close> of a task: a write stores its
  bytes and nothing else, a read delivers the bytes, and a change of protection, suspending and
  resuming leave the memory alone.
\<close>

definition memory_ok :: "'k mach \<Rightarrow> port \<Rightarrow> ('k \<Rightarrow> u64 \<Rightarrow> byte) \<Rightarrow> bool" where
  "memory_ok M t mem \<longleftrightarrow> write_stores M t mem \<and>
     (\<forall>k a n bs. mach_vm_read_overwrite M k t a n = (KERN_SUCCESS, bs) \<longrightarrow>
        bs = map (\<lambda>j. mem k (a + of_nat j)) [0..<unat n]) \<and>
     (\<forall>k a n p. mem (snd (mach_vm_protect M k t a n p)) = mem k) \<and>
     (\<forall>k. mem (snd (task_suspend M k t)) = mem k) \<and> (\<forall>k. mem (snd (task_resume M k t)) = mem k)"

definition holds_at :: "(u64 \<Rightarrow> byte) \<Rightarrow> byte list \<Rightarrow> u64 \<Rightarrow> bool" where
  "holds_at m d a \<longleftrightarrow> (\<forall>j < length d. m (a + of_nat j) = d ! j)"

lemma holds_at_frame:
  "holds_at m d a \<Longrightarrow> \<forall>x \<in> footprint a (length d). m' x = m x \<Longrightarrow> holds_at m' d a"
  by (auto simp: holds_at_def footprint_def)

section \<open>The writes\<close>

text \<open>The two lines that \<open>set\<close> can print for a result.\<close>

definition wrote :: "byte list \<Rightarrow> u64 \<Rightarrow> out" where
  "wrote d a = Printf (''%016llX: wrote %zu (0x%zX) bytes'' @ nl)
     [PInt (uint a), PInt (int (length d)), PInt (int (length d))]"

definition refused :: "u64 \<Rightarrow> out \<Rightarrow> bool" where
  "refused a e \<longleftrightarrow> (\<exists>why. e = Printf (''%016llX: failed to write data (%s)'' @ nl) [PInt (uint a), PStr why])"

lemma write_result_stores:
  assumes "write_stores (env_mach env) (task ad) mem"
  shows "\<exists>e k'. write_result env ad d a k = (Inr e, k') \<and>
    (\<forall>x. x \<notin> footprint a (length d) \<longrightarrow> mem k' x = mem k x) \<and>
    (e = wrote d a \<and> holds_at (mem k') d a \<or> refused a e)"
proof -
  obtain ret k' where w: "mach_vm_write (env_mach env) k (task ad) a d = (ret, k')"
    by (cases "mach_vm_write (env_mach env) k (task ad) a d")
  have "\<forall>x. x \<notin> footprint a (length d) \<longrightarrow> mem k' x = mem k x"
    "ret = KERN_SUCCESS \<longrightarrow> holds_at (mem k') d a"
    using assms w unfolding write_stores_def holds_at_def by blast+
  then show ?thesis
    using w by (simp add: write_result_def write_bytes_def wrote_def refused_def)
qed

text \<open>Cells that do not overlap are written independently of one another.\<close>

definition apart :: "nat \<Rightarrow> u64 list \<Rightarrow> bool" where
  "apart n as \<longleftrightarrow> sorted_wrt (\<lambda>a b. footprint a n \<inter> footprint b n = {}) as"

lemma write_results_store:
  assumes "write_stores (env_mach env) (task ad) mem" and "apart (length d) as"
  shows "\<exists>es k'. write_results env ad d as k = (Inr es, k') \<and>
    (\<forall>x. (\<forall>a \<in> set as. x \<notin> footprint a (length d)) \<longrightarrow> mem k' x = mem k x) \<and>
    list_all2 (\<lambda>a e. e = wrote d a \<and> holds_at (mem k') d a \<or> refused a e) as es"
  using assms(2)
proof (induction as arbitrary: k)
  case (Cons a as)
  obtain e k1 where w: "write_result env ad d a k = (Inr e, k1)"
    and frame: "\<forall>x. x \<notin> footprint a (length d) \<longrightarrow> mem k1 x = mem k x"
    and ok: "e = wrote d a \<and> holds_at (mem k1) d a \<or> refused a e"
    using write_result_stores [OF assms(1), of d a k] by auto
  have "apart (length d) as" using Cons.prems by (simp add: apart_def)
  then obtain es k2 where ws: "write_results env ad d as k1 = (Inr es, k2)"
    and frames: "\<forall>x. (\<forall>b \<in> set as. x \<notin> footprint b (length d)) \<longrightarrow> mem k2 x = mem k1 x"
    and rest: "list_all2 (\<lambda>a e. e = wrote d a \<and> holds_at (mem k2) d a \<or> refused a e) as es"
    using Cons.IH [of k1] by auto
  have "\<forall>x \<in> footprint a (length d). mem k2 x = mem k1 x"
    using frames Cons.prems by (auto simp: apart_def)
  then have "e = wrote d a \<and> holds_at (mem k2) d a \<or> refused a e"
    using ok holds_at_frame by blast
  then show ?case using w ws frame frames rest by simp
qed simp

section \<open>The cells of a search do not overlap\<close>

lemma aligned_footprints:
  assumes "fs dvd unat a" and "fs dvd unat b" and "a < b" and "fs dvd 0x1000"
  shows "footprint a fs \<inter> footprint b fs = {}"
proof -
  have page: "fs dvd 2 ^ 64" using dvd_trans [OF assms(4), of "2 ^ 64"] by simp
  have ab: "unat a < unat b" using assms(3) by (simp add: word_less_nat_alt)
  have le: "unat a + fs \<le> unat b"
    by (rule aligned_next [OF assms(1,2) ab])
  have fit: "unat x + fs \<le> 2 ^ 64" if "fs dvd unat x" for x :: u64
    using aligned_next [OF that page] unsigned_less [of x] by simp
  have at: "unat (x + of_nat j) = unat x + j" if "fs dvd unat x" "j < fs" for x :: u64 and j
  proof -
    have "unat x + j < 2 ^ 64" using fit [OF that(1)] that(2) by simp
    moreover have "(x + of_nat j :: u64) = of_nat (unat x + j)" by simp
    ultimately show ?thesis by (simp only: unat_of_nat) simp
  qed
  show ?thesis
  proof (rule ccontr)
    assume "footprint a fs \<inter> footprint b fs \<noteq> {}"
    then obtain i j where ij: "i < fs" "j < fs" "a + of_nat i = b + of_nat j"
      by (auto simp: footprint_def)
    then have "unat a + i = unat b + j" using at [OF assms(1)] at [OF assms(2)] by metis
    then show False using le ij(1) by simp
  qed
qed

lemma results_apart:
  assumes "search_inv x"
  shows "apart (field_size (search_type x)) (results x)"
proof -
  let ?fs = "field_size (search_type x)"
  have "\<forall>a \<in> set (results x). ?fs dvd unat a"
    using assms by (cases "memory x") (auto simp: search_inv_def cell_in_def)
  moreover have "sorted_wrt (<) (results x)" using assms by (simp add: search_inv_def)
  ultimately show ?thesis
    unfolding apart_def
    by (elim sorted_wrt_mono_rel [rotated]) (simp add: aligned_footprints field_size_dvd_page)
qed

text \<open>A value that was read for a type of fixed size has that size.\<close>

lemma length_swap_union [simp]: "sz \<le> length d \<Longrightarrow> length (swap_union enc sz d) = length d"
  by (auto simp: swap_union_def)

lemma typed_value_size:
  assumes "read_typed_value env t v = Inr d" and "t \<noteq> DATA"
  shows "length d = field_size t"
  using assms field_size_eq [of t]
  by (cases t) (auto simp: read_typed_value_def is_integer_search_type_def is_reverse_endian_search_type_def
      value_size_for_search_type_def res_bind_Inr_iff Let_def swap_union_def simp del: to_le.simps split: prod.splits)


section \<open>Snapshots show the memory\<close>

definition shows_memory :: "(u64 \<Rightarrow> byte) \<Rightarrow> region \<Rightarrow> bool" where
  "shows_memory m r \<longleftrightarrow> region_data r = [] \<or>
     region_data r = map (\<lambda>j. m (region_addr r + of_nat j)) [0..<unat (region_size r)]"

lemma set_protection_memory:
  assumes "memory_ok M (task ad) mem" and "set_protection M ph ad a sz p m k = (res, k')"
  shows "mem k' = mem k"
proof -
  have "mem k2 = mem k" if "mach_vm_protect M k (task ad) x n q = (ret, k2)" for x n q ret k2
    using assms(1) that unfolding memory_ok_def by (metis snd_conv)
  then show ?thesis
    using assms(2) by (auto simp: set_protection_def Let_def split: prod.splits if_splits)
qed

lemma read_bytes_memory:
  assumes "memory_ok M (task ad) mem" and "read_bytes M ph ad a n k = (res, k')"
  shows "k' = k" and "res = Inr bs \<Longrightarrow> bs = map (\<lambda>j. mem k (a + of_nat j)) [0..<unat n]"
  using assms by (auto simp: read_bytes_def memory_ok_def split: prod.splits if_splits)

lemma read_region_memory:
  assumes "memory_ok M (task ad) mem" and "region_data r = []" and "read_region M ph ad r k = (res, r', k')"
  shows "mem k' = mem k \<and> shows_memory (mem k) r'"
proof -
  note prot = set_protection_memory [OF assms(1)] and bytes = read_bytes_memory [OF assms(1)]
  let ?hidden = "protection r AND READABLE = 0"
  obtain p1 k1 where p1: "(if ?hidden
      then set_protection M ph ad (region_addr r) (region_size r) (protection r OR READABLE) ALL_ACCESS k
      else (Inr (), k)) = (p1, k1)" by fastforce
  obtain b k2 where b: "read_bytes M ph ad (region_addr r) (region_size r) k1 = (b, k2)" by fastforce
  obtain p3 k3 where p3: "(if ?hidden
      then set_protection M ph ad (region_addr r) (region_size r) (protection r) ALL_ACCESS k2
      else (Inr (), k2)) = (p3, k3)" by fastforce
  have same: "mem k1 = mem k" "k2 = k1" "mem k3 = mem k2"
    using p1 p3 prot bytes(1) [OF b] by (auto split: if_splits)
  have "read_region M ph ad r k =
    (case p1 of Inl f \<Rightarrow> (Inl f, r, k1)
     | Inr _ \<Rightarrow> (case b of Inl f \<Rightarrow> (Inl f, r, k2)
         | Inr d \<Rightarrow> (case p3 of Inl f \<Rightarrow> (Inl f, r\<lparr>region_data := d\<rparr>, k3)
             | Inr _ \<Rightarrow> (Inr (), r\<lparr>region_data := d\<rparr>, k3))))"
    by (simp only: read_region_def Let_def p1 prod.case b) (cases p1; cases b; simp only: sum.case prod.case p3)
  then show ?thesis
    using assms(2,3) same bytes(2) [OF b] by (auto simp: shows_memory_def split: sum.splits)
qed

lemma read_if_memory:
  assumes "memory_ok M (task ad) mem" and "region_data r = []" and "read_if M ph ad rd r k = (res, k')"
  shows "mem k' = mem k \<and> (\<forall>r'. res = Inr r' \<longrightarrow> shows_memory (mem k) r')"
  using assms(3) read_region_memory [OF assms(1,2)] assms(2)
  by (auto simp: read_if_def try_read_region_def shows_memory_def split: if_splits prod.splits sum.splits)
    (metis read_region_memory [OF assms(1,2)] shows_memory_def)+

lemma get_region_memory:
  assumes "memory_ok M (task ad) mem" and "get_region M ph ad a rd k = (res, k')"
  shows "mem k' = mem k \<and> (\<forall>r. res = Inr r \<longrightarrow> shows_memory (mem k) r \<and> (\<not> rd \<longrightarrow> k' = k \<and> region_data r = []))"
proof -
  obtain ret a' sz info where i: "mach_vm_region M k (task ad) a = (ret, a', sz, info)"
    by (cases "mach_vm_region M k (task ad) a")
  have "region_data (region_of_info a' sz info) = []" by (simp add: region_of_info_def)
  then show ?thesis
    using assms(2) i read_if_memory [OF assms(1), of "region_of_info a' sz info" ph rd k res k']
    by (auto simp: get_region_def read_if_def Let_def split: if_splits)
qed


lemma target_regions_memory:
  assumes "memory_ok M (task ad) mem" and "\<forall>r \<in> set ret. shows_memory (mem k) r"
    and "get_target_regions_from M ph ad pe rd ts a ret k = Some (res, k')"
  shows "mem k' = mem k \<and> (\<forall>rs. res = Inr rs \<longrightarrow> (\<forall>r \<in> set rs. shows_memory (mem k) r))"
proof -
  define P where "P k ret out \<longleftrightarrow> (\<forall>r \<in> set ret. shows_memory (mem k) r) \<longrightarrow>
    mem (snd out) = mem k \<and> (\<forall>rs. fst out = Inr rs \<longrightarrow> (\<forall>r \<in> set rs. shows_memory (mem k) r))"
    for k ret and out :: "region list res \<times> 'a"
  have "memory_ok M (task ad) mem \<longrightarrow> P k ret (res, k')"
    using assms(3)
  proof (rule get_target_regions_from.raw_induct [where P = "\<lambda>M ph ad pe rd ts a ret k out.
      memory_ok M (task ad) mem \<longrightarrow> P k ret out", rotated])
    fix f and M :: "'a mach" and ph ad pe rd ts a ret k out
    assume IH: "\<And>M ph ad pe rd ts a ret k out. f M ph ad pe rd ts a ret k = Some out \<Longrightarrow>
        memory_ok M (task ad) mem \<longrightarrow> P k ret out"
      and body: "(if ts = [] then Some (Inr ret, k)
      else case get_region M ph ad a False k
        of (Inl x, k1) \<Rightarrow> if is_out_of_range x then Some (Inr ret, k1) else Some (Inl x, k1)
         | (Inr r, k1) \<Rightarrow>
             (let targets' = dropWhile (\<lambda>t. t < region_addr r) ts
              in case (case targets' of [] \<Rightarrow> pe | t # _ \<Rightarrow> Some t)
                 of None \<Rightarrow> Some (Inl (Undefined Past_end), k1)
                  | Some t \<Rightarrow>
                      if t < end_addr r then
                        (case read_if M ph ad rd r k1
                         of (Inl x, k2) \<Rightarrow> if is_out_of_range x then Some (Inr ret, k2) else Some (Inl x, k2)
                          | (Inr r', k2) \<Rightarrow> f M ph ad pe rd targets' (end_addr r) (ret @ [r']) k2)
                      else f M ph ad pe rd targets' (end_addr r) ret k1)) = Some out"
    show "memory_ok M (task ad) mem \<longrightarrow> P k ret out"
    proof
      assume w: "memory_ok M (task ad) mem"
      show "P k ret out"
      proof (cases "get_region M ph ad a False k")
        case (Pair g k1)
        have k1: "mem k1 = mem k" "g = Inr r \<Longrightarrow> region_data r = []" for r
          using get_region_memory [OF w Pair] by auto
        have go_on: "P k ret out" if "f M ph ad pe rd ts' a' ret' k2 = Some out" "mem k2 = mem k"
            "\<forall>r \<in> set ret'. shows_memory (mem k) r \<or> r \<in> set ret" for ts' a' ret' k2
          using IH [OF that(1)] w that(2,3) by (auto simp: P_def)
        show ?thesis
        proof (cases "ts = [] \<or> (\<exists>x. g = Inl x)")
          case True
          then show ?thesis using body Pair k1(1) by (auto simp: P_def split: if_splits)
        next
          case False
          then obtain r where g: "g = Inr r" by (cases g) auto
          obtain y k2 where rd: "read_if M ph ad rd r k1 = (y, k2)" by fastforce
          have y: "mem k2 = mem k" "y = Inr r' \<Longrightarrow> shows_memory (mem k) r'" for r'
            using read_if_memory [OF w k1(2) [OF g] rd] k1(1) by auto
          let ?ts = "dropWhile (\<lambda>t. t < region_addr r) ts"
          define next_t where "next_t = (case ?ts of [] \<Rightarrow> pe | t # _ \<Rightarrow> Some t)"
          have "(case next_t of None \<Rightarrow> Some (Inl (Undefined Past_end), k1)
              | Some t \<Rightarrow> if t < end_addr r then
                  (case y of Inl x \<Rightarrow> if is_out_of_range x then Some (Inr ret, k2) else Some (Inl x, k2)
                   | Inr r' \<Rightarrow> f M ph ad pe rd ?ts (end_addr r) (ret @ [r']) k2)
                else f M ph ad pe rd ?ts (end_addr r) ret k1) = Some out"
            using body False by (simp add: Pair g rd Let_def next_t_def cong: option.case_cong if_cong)
          note outcome = this
          show ?thesis
          proof (cases next_t)
            case None
            then show ?thesis using outcome k1(1) by (auto simp: P_def)
          next
            case (Some t)
            show ?thesis
            proof (cases "t < end_addr r")
              case True
              show ?thesis
              proof (cases y)
                case (Inl x)
                then show ?thesis using outcome Some True y(1) by (auto simp: P_def split: if_splits)
              next
                case (Inr r')
                then have "f M ph ad pe rd ?ts (end_addr r) (ret @ [r']) k2 = Some out"
                  using outcome Some True by simp
                then show ?thesis by (rule go_on) (use y Inr in auto)
              qed
            next
              case False
              then have "f M ph ad pe rd ?ts (end_addr r) ret k1 = Some out" using outcome Some by simp
              then show ?thesis by (rule go_on) (use k1(1) in auto)
            qed
          qed
        qed
      qed
    qed
  qed
  then show ?thesis using assms(1,2) by (simp add: P_def)
qed

section \<open>The pause guard\<close>

text \<open>With the target's memory in view, a guarded step is the step in a state with that memory.\<close>

lemma guarded_memory:
  assumes "memory_ok (env_mach env) (task (sh_adapter s)) mem" and "guarded env m s = Some (Inr x, s')"
  shows "\<exists>k1 k2 k'. m (sh_adapter s) k1 = Some (Inr x, k2) \<and> mem k1 = mem (kernel s) \<and> mem k' = mem k2 \<and>
    s' = s\<lparr>kernel := k'\<rparr>"
proof -
  have same: "mem (snd (task_suspend (env_mach env) k (task (sh_adapter s)))) = mem k"
    "mem (snd (task_resume (env_mach env) k (task (sh_adapter s)))) = mem k" for k
    using assms(1) by (simp_all add: memory_ok_def)
  show ?thesis
    using assms(2) same
    by (auto simp: guarded_def with_pause_guard_def pause_def resume_def Let_def
        split: option.splits prod.splits sum.splits if_splits) (metis snd_conv)+
qed

text \<open>
  If the shell is set to pause the target, it can be suspended now, and the kernel counts its
  suspensions as documented; so the guard can resume it, if the body leaves the count alone.
\<close>

definition pausable :: "'k env \<Rightarrow> 'k shell \<Rightarrow> bool" where
  "pausable env s \<longleftrightarrow> (pause_target s \<longrightarrow>
     fst (task_suspend (env_mach env) (kernel s) (task (sh_adapter s))) = KERN_SUCCESS \<and>
     (\<exists>count. steady_count (env_mach env) (task (sh_adapter s)) count))"

lemma guarded_total:
  assumes "memory_ok (env_mach env) (task (sh_adapter s)) mem"
    and "pausable env s"
    and "\<And>k. keeps_count (env_mach env) (task (sh_adapter s)) k (snd (f (sh_adapter s) k))"
  shows "\<exists>k1 k2. guarded env (\<lambda>ad. total (f ad)) s = Some (fst (f (sh_adapter s) k1), s\<lparr>kernel := k2\<rparr>) \<and>
    mem k1 = mem (kernel s) \<and> mem k2 = mem (snd (f (sh_adapter s) k1))"
proof (cases "pause_target s")
  case True
  let ?t = "task (sh_adapter s)" and ?M = "env_mach env"
  define k1 where "k1 = snd (task_suspend ?M (kernel s) ?t)"
  define k2 where "k2 = snd (task_resume ?M (snd (f (sh_adapter s) k1)) ?t)"
  have paused: "task_suspend ?M (kernel s) ?t = (KERN_SUCCESS, k1)"
    using assms(2) True by (simp add: pausable_def k1_def prod_eq_iff)
  moreover obtain count where "steady_count ?M ?t count" using assms(2) True by (auto simp: pausable_def)
  ultimately have "task_resume ?M (snd (f (sh_adapter s) k1)) ?t = (KERN_SUCCESS, k2)"
    using resume_after_suspend [OF _ paused assms(3)] by (simp add: k2_def prod_eq_iff)
  then have "guarded env (\<lambda>ad. total (f ad)) s = Some (fst (f (sh_adapter s) k1), s\<lparr>kernel := k2\<rparr>)"
    using True paused
    by (cases "f (sh_adapter s) k1") (simp add: guarded_def with_pause_guard_def pause_def resume_def total_def)
  moreover have "mem k1 = mem (kernel s)" "mem k2 = mem (snd (f (sh_adapter s) k1))"
    using assms(1) by (simp_all add: memory_ok_def k1_def k2_def)
  ultimately show ?thesis by blast
next
  case False
  then show ?thesis
    by (intro exI [of _ "kernel s"] exI [of _ "snd (f (sh_adapter s) (kernel s))"])
      (simp add: guarded_def with_pause_guard_def total_def split: prod.splits)
qed

section \<open>Setting the results\<close>

lemma set_stores:
  assumes "session env s" and "world_ok env table"
    and "memory_ok (env_mach env) (task (sh_adapter s)) mem"
    and "pausable env s"
    and "interactive s" and "get_latest_search None s = Inr srch" and "has_memory_snapshot srch"
    and "search_type srch \<noteq> DATA" and "char_at args 0 \<noteq> CHR ''s''"
    and "read_typed_value env (search_type srch) args = Inr d"
  shows "\<exists>lines k. command_set env args s = Some (Inr (), s\<lparr>kernel := k, printed := printed s @ lines\<rparr>) \<and>
    list_all2 (\<lambda>a e. e = wrote d a \<and> holds_at (mem k) d a \<or> refused a e) (results srch) lines \<and>
    (\<forall>x. (\<forall>a \<in> set (results srch). x \<notin> footprint a (length d)) \<longrightarrow> mem k x = mem (kernel s) x)"
proof -
  have inv: "search_inv srch" using session_inv [OF assms(1,2)] get_latest_ok [OF _ assms(6)] by blast
  have size: "length d = field_size (search_type srch)" by (rule typed_value_size [OF assms(10,8)])
  then have "d \<noteq> []" using field_size_eq [of "search_type srch"] by auto
  have apart: "apart (length d) (results srch)" using results_apart [OF inv] size by simp
  have store: "write_stores (env_mach env) (task (sh_adapter s)) mem" using assms(3) by (simp add: memory_ok_def)
  obtain k1 k2 where g: "guarded env (\<lambda>ad. total (write_results env ad d (results srch))) s =
      Some (fst (write_results env (sh_adapter s) d (results srch) k1), s\<lparr>kernel := k2\<rparr>)"
    "mem k1 = mem (kernel s)" "mem k2 = mem (snd (write_results env (sh_adapter s) d (results srch) k1))"
    using guarded_total [OF assms(3,4), where f = "\<lambda>ad. write_results env ad d (results srch)",
        OF write_results_keeps_count] by blast
  obtain es k' where w: "write_results env (sh_adapter s) d (results srch) k1 = (Inr es, k')"
    "\<forall>x. (\<forall>a \<in> set (results srch). x \<notin> footprint a (length d)) \<longrightarrow> mem k' x = mem k1 x"
    "list_all2 (\<lambda>a e. e = wrote d a \<and> holds_at (mem k') d a \<or> refused a e) (results srch) es"
    using write_results_store [OF store apart, of k1] by blast
  have "parse_set_args args = Inr (- 1, args)" using assms(9) by (simp add: parse_set_args_def)
  then have "command_set env args s = Some (Inr (), s\<lparr>kernel := k2, printed := printed s @ es\<rparr>)"
    using g(1) w(1) assms(5-7,10) \<open>d \<noteq> []\<close>
    by (simp add: command_set_def interactive_only_def set_targets_def emit_all_def)
  then show ?thesis using w(2,3) g(2,3) w(1) by (intro exI [of _ es] exI [of _ k2]) simp
qed

text \<open>
  C10. \<open>set <value>\<close> in any state of a session in which the open search is over values of a
  fixed size: the command prints a line for every result, in their order; a line that says
  \<open>wrote\<close> is true, in that the memory holds the value at that address when the command is
  done, since no later write can reach it; and no byte outside the results' cells changes.
\<close>

theorem set_writes_every_result:
  assumes "session env s" and "world_ok env table"
    and "memory_ok (env_mach env) (task (sh_adapter s)) mem"
    and "pausable env s"
    and "interactive s" and "get_latest_search None s = Inr srch" and "has_memory_snapshot srch"
    and "search_type srch \<noteq> DATA" and "char_at args 0 \<noteq> CHR ''s''"
    and "read_typed_value env (search_type srch) args = Inr d"
  shows "\<exists>lines k. command_set env args s = Some (Inr (), s\<lparr>kernel := k, printed := printed s @ lines\<rparr>) \<and>
    list_all2 (\<lambda>a e. e = wrote d a \<and> holds_at (mem k) d a \<or> refused a e) (results srch) lines \<and>
    (\<forall>x. (\<forall>a \<in> set (results srch). x \<notin> footprint a (length d)) \<longrightarrow> mem k x = mem (kernel s) x)"
  by (rule set_stores [OF assms])

section \<open>Searching for the value that was set\<close>

lemma cell_in_memory:
  assumes "shows_memory m r" and "region_data r \<noteq> []" and "region_wf r" and "contains a r"
    and "unat (a - region_addr r) + n \<le> unat (region_size r)"
  shows "take n (at_offset (region_data r) (unat (a - region_addr r))) = map (\<lambda>j. m (a + of_nat j)) [0..<n]"
    and "n \<le> length (at_offset (region_data r) (unat (a - region_addr r)))"
proof -
  let ?off = "unat (a - region_addr r)"
  have data: "region_data r = map (\<lambda>j. m (region_addr r + of_nat j)) [0..<unat (region_size r)]"
    using assms(1,2) by (simp add: shows_memory_def)
  have off: "region_addr r + of_nat (?off + j) = a + of_nat j" for j
    by simp
  have "take n (drop ?off (region_data r)) = map (\<lambda>j. m (a + of_nat j)) [0..<n]"
    unfolding data using assms(5) off by (intro nth_equalityI) auto
  then show "take n (at_offset (region_data r) ?off) = map (\<lambda>j. m (a + of_nat j)) [0..<n]"
    using assms(5) data by (simp add: at_offset_def)
  show "n \<le> length (at_offset (region_data r) ?off)"
    using assms(5) data by (simp add: at_offset_def)
qed

lemma set_value_matches:
  assumes "bswap_ok enc" and "t \<notin> {FLOAT, FLOAT_RE, DOUBLE, DOUBLE_RE, DATA}"
    and "length d = field_size t" and "holds_at m d a"
    and "snapshot_ok t new" and "\<forall>r \<in> set new. shows_memory m r"
    and "o_r \<in> set old" and "contains a o_r" and "field_size t dvd unat a"
  shows "still_matches enc (the (evaluator_for t EQUAL)) d ps old new a \<longleftrightarrow> (\<exists>r \<in> set new. contains_data a r)"
proof -
  have size: "cell_size t n = field_size t" for n
    using assms(2) field_size_eq [of t] by (cases t) (simp_all add: cell_size_def value_size_for_search_type_def)
  have "d \<noteq> []" using assms(3) field_size_eq [of t] by auto
  have match: "run_evaluator enc (the (evaluator_for t EQUAL)) (at_offset (region_data r) (unat (a - region_addr r)))
      (at_offset d 0) (length d) = Inr True" if r: "r \<in> set new" "contains_data a r" for r
  proof -
    have wf: "region_wf r" "field_size t dvd unat (region_addr r)" "field_size t dvd unat (region_size r)"
      using r(1) assms(5) by (auto simp: snapshot_ok_def regions_wf_def aligned_def)
    have c: "contains a r" "region_data r \<noteq> []" using r(2) by (simp_all add: contains_data_def)
    have fit: "unat (a - region_addr r) + length d \<le> unat (region_size r)"
      unfolding assms(3) by (rule aligned_cell_fits [OF assms(9) wf c(1)])
    have "map (\<lambda>j. m (a + of_nat j)) [0..<length d] = d"
      using assms(4) by (intro nth_equalityI) (auto simp: holds_at_def)
    then have cell: "take (length d) (at_offset (region_data r) (unat (a - region_addr r))) = d"
      "length d \<le> length (at_offset (region_data r) (unat (a - region_addr r)))"
      using cell_in_memory [OF assms(6)[rule_format, OF r(1)] c(2) wf(1) c(1) fit] by simp_all
    have "take (length d) (at_offset d 0) = d" "length d \<le> length (at_offset d 0)"
      by (simp_all add: at_offset_def)
    then show ?thesis
      using relational_compares [OF assms(1), of t EQUAL _ "length d" "at_offset (region_data r) (unat (a - region_addr r))"
          "at_offset d 0"] cell assms(2,3) size
      by (auto simp: relop_of.simps)
  qed
  then show ?thesis
    using \<open>d \<noteq> []\<close> assms(7,8) unfolding still_matches_def by auto
qed


lemma wrote_not_refused: "\<not> refused a (wrote d b)"
  by (simp add: refused_def wrote_def)

lemma all_wrote:
  assumes "list_all2 (\<lambda>a e. e = wrote d a \<and> holds_at m d a \<or> refused a e) as (map (wrote d) as)"
  shows "\<forall>a \<in> set as. holds_at m d a"
  using assms by (auto simp: list_all2_conv_all_nth in_set_conv_nth wrote_not_refused)

lemma trim_last:
  assumes "trim_iterations m (ss @ [x]) = Inr ss'" and "0 < unat m" and "unat m \<le> 2 ^ 63"
    and "length ss + 1 < 2 ^ 63"
  shows "ss' \<noteq> [] \<and> last ss' = x"
proof -
  have "ss' = drop (length (ss @ [x]) - unat m) (ss @ [x])"
    using assms(1,3) trim_outcome [of "ss @ [x]" m] assms(4) by simp
  moreover have "length (ss @ [x]) - unat m < length (ss @ [x])" using assms(2) by simp
  ultimately show ?thesis by (simp add: last_drop)
qed

lemma narrowed_to_value:
  assumes "world_ok env table" and "memory_ok (env_mach env) (task (sh_adapter s)) mem"
    and "bswap_ok (env_encoding env)" and "search_inv x" and "results_valid x"
    and "search_type x \<notin> {FLOAT, FLOAT_RE, DOUBLE, DOUBLE_RE, DATA}"
    and "length d = field_size (search_type x)" and "\<forall>a \<in> set (results x). holds_at (mem (kernel s)) d a"
    and "snapshot_for env x s = Some (Inr rs, s')"
    and "update (env_encoding env) (set_annotation annot x) rs EQUAL d m = Some (Inr y)"
  shows "memory y = Some rs \<and>
    results y = filter (\<lambda>a. a \<noteq> 0 \<and> (\<exists>r \<in> set rs. contains_data a r)) (results x)"
proof -
  let ?x = "set_annotation annot x" and ?t = "search_type x"
  obtain old where old: "memory x = Some old" "\<forall>a \<in> set (results x). cell_in (field_size ?t) old a"
    using assms(4,5) by (cases "memory x") (auto simp: search_inv_def)
  have snap: "snapshot_ok ?t rs" by (rule snapshot_for_ok [OF assms(1,4,9)])
  obtain ad k1 k2 where g: "get_target_regions (env_mach env) (env_phosg env) (sh_adapter s) (past_end env)
      (results x) True k1 = Some (Inr rs, k2)" "mem k1 = mem (kernel s)"
    using guarded_memory [OF assms(2) assms(9) [unfolded snapshot_for_def]] assms(5)
    by (auto simp: has_valid_results_def)
  have shown: "\<forall>r \<in> set rs. shows_memory (mem (kernel s)) r"
    using target_regions_memory [OF assms(2) _ g(1) [unfolded get_target_regions_def]] g(2) by simp
  have "evaluator_for ?t EQUAL \<noteq> None"
    using assms(6) evaluator_for_relop [of EQUAL EQ ?t] by simp
  moreover have "length d = value_size_for_search_type ?t"
    using assms(6,7) field_size_eq [of ?t] by (cases ?t) (simp_all add: value_size_for_search_type_def)
  ultimately have can: "check_can_update ?x EQUAL d = Inr ()"
    using old(1) by (simp add: check_can_update_def set_annotation_def)
  have same: "search_type ?x = ?t" "results ?x = results x" "memory ?x = Some old" "results_valid ?x"
    using old(1) assms(5) by (simp_all add: set_annotation_def)
  have inv: "search_inv ?x" using assms(4) by (simp only: annotation_ok)
  have "update (env_encoding env) ?x rs EQUAL d m = Some (Inr (?x\<lparr>
    results := filter (\<lambda>a. a \<noteq> 0 \<and> still_matches (env_encoding env) (the (evaluator_for ?t EQUAL)) d
      (prev_size ?x) old rs a) (results x), prev_size := length d, memory := Some rs\<rparr>))"
    using narrowing_results [OF inv same(4,3) can, of rs "env_encoding env" m] snap assms(6) same
    by (simp add: flag_may_overflow_def)
  then have y: "memory y = Some rs" "results y = filter (\<lambda>a. a \<noteq> 0 \<and>
      still_matches (env_encoding env) (the (evaluator_for ?t EQUAL)) d (prev_size ?x) old rs a) (results x)"
    using assms(10) by auto
  have "still_matches (env_encoding env) (the (evaluator_for ?t EQUAL)) d (prev_size ?x) old rs a \<longleftrightarrow>
      (\<exists>r \<in> set rs. contains_data a r)" if a: "a \<in> set (results x)" for a
  proof -
    obtain o_r where o: "o_r \<in> set old" "contains a o_r" "field_size ?t dvd unat a"
      using old(2) a by (auto simp: cell_in_def)
    show ?thesis
      by (rule set_value_matches [OF assms(3,6,7) assms(8)[rule_format, OF a] snap shown o])
  qed
  then show ?thesis using y by (simp cong: filter_cong)
qed

text \<open>
  C6. What \<open>set\<close> wrote, \<open>search\<close> finds: after \<open>set <value>\<close> reported a write for every result of
  a search over integers, \<open>search = <value>\<close> adds an iteration with exactly the same results,
  apart from those in regions that could not be read for its snapshot (and address 0, which
  marks a deleted result).
\<close>

theorem set_then_search_keeps:
  assumes "session env s" and "world_ok env table"
    and "memory_ok (env_mach env) (task (sh_adapter s)) mem"
    and "pausable env s"
    and "interactive s" and "get_latest_search None s = Inr srch" and "has_valid_results srch"
    and "search_type srch \<notin> {FLOAT, FLOAT_RE, DOUBLE, DOUBLE_RE, DATA}" and "char_at value 0 \<noteq> CHR ''s''"
    and "read_typed_value env (search_type srch) value = Inr d" and "value \<noteq> []"
    and "command_set env value s = Some (Inr (), s1)" and "printed s1 = printed s @ map (wrote d) (results srch)"
    and "run_search env (current_search_name s) EQUAL value annot s1 = Some (Inr (), s2)"
    and "bswap_ok (env_encoding env)" and "0 < unat (max_search_iterations s)"
    and "unat (max_search_iterations s) \<le> 2 ^ 63"
    and "length (the (map_of (name_to_searches s) (current_search_name s))) + 1 < 2 ^ 63"
  shows "\<exists>x snap. get_latest_search None s2 = Inr x \<and> memory x = Some snap \<and>
    results x = filter (\<lambda>a. a \<noteq> 0 \<and> (\<exists>r \<in> set snap. contains a r \<and> region_data r \<noteq> [])) (results srch)"
proof -
  have inv: "searches_inv s" using session_inv [OF assms(1,2)] by blast
  then have ok: "omap_ok (name_to_searches s)" by (simp add: searches_ok_def)
  have x: "search_inv srch" by (rule get_latest_ok [OF inv assms(6)])
  have snap: "has_memory_snapshot srch"
    using x assms(7) by (cases "memory srch") (auto simp: search_inv_def has_valid_results_def has_memory_snapshot_def)
  have "search_type srch \<noteq> DATA" using assms(8) by simp
  then obtain lines k where set: "s1 = s\<lparr>kernel := k, printed := printed s @ lines\<rparr>"
    "list_all2 (\<lambda>a e. e = wrote d a \<and> holds_at (mem k) d a \<or> refused a e) (results srch) lines"
    using set_stores [OF assms(1-6) snap _ assms(9,10)] assms(12) by auto
  then have held: "\<forall>a \<in> set (results srch). holds_at (mem (kernel s1)) d a"
    using assms(13) all_wrote by simp
  obtain ss d' rs k' y ss' out where run: "map_of (name_to_searches s1) (current_search_name s) = Some ss" "ss \<noteq> []"
    "(if value \<noteq> [] then read_typed_value env (search_type (last ss)) value else Inr []) = Inr d'"
    "snapshot_for env (last ss) s1 = Some (Inr rs, s1\<lparr>kernel := k'\<rparr>)"
    "update (env_encoding env) (set_annotation annot (last ss)) rs EQUAL d' (unat (max_results s1)) = Some (Inr y)"
    "trim_iterations (max_search_iterations s1) (ss @ [y]) = Inr ss'"
    "s2 = s1\<lparr>kernel := k', printed := out,
       name_to_searches := omap_modify (current_search_name s) (\<lambda>_. ss') (name_to_searches s1)\<rparr>"
    using run_search_success [OF assms(2,14)] by blast
  have last: "last ss = srch" and ss: "map_of (name_to_searches s) (current_search_name s) = Some ss"
    using run(1,2) set(1) assms(6) by (auto simp: get_latest_search_def get_searches_def search_key_def)
  have d: "d' = d" using run(3) assms(10,11) last by simp
  have mem1: "memory_ok (env_mach env) (task (sh_adapter s1)) mem" using assms(3) set(1) by simp
  have y: "memory y = Some rs" "results y = filter (\<lambda>a. a \<noteq> 0 \<and> (\<exists>r \<in> set rs. contains_data a r)) (results srch)"
    using narrowed_to_value [OF assms(2) mem1 assms(15) x _ assms(8) typed_value_size [OF assms(10)] held
        run(4,5) [unfolded last d]] assms(7,8) by (auto simp: has_valid_results_def)
  have "ss' \<noteq> [] \<and> last ss' = y"
    using trim_last [OF run(6)] assms(16-18) ss set(1) by simp
  moreover have "map_of (name_to_searches s2) (current_search_name s) = Some ss'"
    using run(7) set(1) ok ss by (simp add: om.lookup_modify)
  moreover have "current_search_name s2 = current_search_name s" using run(7) set(1) by simp
  ultimately have "get_latest_search None s2 = Inr y"
    by (simp add: get_latest_search_def get_searches_def search_key_def)
  then show ?thesis
    using y by (intro exI [of _ y] exI [of _ rs]) (simp add: contains_data_def conj_commute)
qed

end
