(* ===== verification/FindProps.thy ===== *)
theory FindProps
  imports ShellMemory SearchScan "HOL-Library.Multiset"
begin

unbundle bit_operations_syntax

text \<open>
  Properties of \<open>find\<close>: what the byte loop finds in a region, how far the progress counter
  gets, and with that the result of the whole search or that it waits forever.
\<close>

section \<open>One position\<close>

definition pattern_at :: "byte list \<Rightarrow> byte list \<Rightarrow> byte list \<Rightarrow> bool" where
  "pattern_at d m p \<longleftrightarrow> (\<forall>i < length d. m ! i \<noteq> 0 \<longrightarrow> p ! i = d ! i)"

lemma pattern_at_Cons [simp]:
  "pattern_at (x # d) (k # m) (b # p) \<longleftrightarrow> (k \<noteq> 0 \<longrightarrow> b = x) \<and> pattern_at d m p"
  by (auto simp: pattern_at_def less_Suc_eq_0_disj)

lemma match_bytes_pattern:
  "length d \<le> length m \<Longrightarrow> length d \<le> length p \<Longrightarrow> match_bytes d m p = Inr (pattern_at d m p)"
proof (induction d arbitrary: m p)
  case (Cons x d)
  then obtain k m' b p' where "m = k # m'" "p = b # p'"
    by (metis length_Cons Suc_le_length_iff)
  then show ?case using Cons by auto
qed (simp add: pattern_at_def)

definition match_here :: "byte list \<Rightarrow> byte list \<Rightarrow> region \<Rightarrow> nat \<Rightarrow> bool" where
  "match_here d m r z \<longleftrightarrow> pattern_at d m (drop z (region_data r))"

lemma pattern_at_prefix:
  "length d \<le> length m \<Longrightarrow> length d \<le> length p \<Longrightarrow> pattern_at d (m @ m') (p @ p') = pattern_at d m p"
  by (auto simp: pattern_at_def nth_append)

lemma match_bytes_here:
  assumes "length m = length d" and "z + length d \<le> length (region_data r)"
  shows "match_bytes d (at_offset m 0) (at_offset (region_data r) z) = Inr (match_here d m r z)"
  using assms by (simp add: match_bytes_pattern at_offset_def pattern_at_prefix match_here_def)

section \<open>One region\<close>

text \<open>The offsets at which the progress counter advances.\<close>

definition page_marks :: "nat \<Rightarrow> nat \<Rightarrow> nat" where
  "page_marks y n = length (filter (\<lambda>z. z mod 0x1000 = 0) [y..<Suc n])"

lemma page_marks_step:
  "y \<le> n \<Longrightarrow> page_marks y n = (if y mod 0x1000 = 0 then 1 else 0) + page_marks (Suc y) n"
  by (simp add: page_marks_def upt_conv_Cons del: upt_Suc)

lemma page_marks_0: "page_marks 0 n = n div 0x1000 + 1"
proof (induction n)
  case (Suc n)
  then show ?case by (auto simp: page_marks_def div_Suc mod_Suc)
qed (simp add: page_marks_def)

lemma low_bits_zero: "(y :: u64) AND 0xFFF = 0 \<longleftrightarrow> unat y mod 0x1000 = 0"
proof -
  have "y AND 0xFFF = take_bit 12 y"
    using take_bit_eq_mask [of 12 y] by (simp add: mask_eq_exp_minus_1)
  moreover have "unat (take_bit 12 y) = take_bit 12 (unat y)" by (rule unsigned_take_bit_eq)
  ultimately have "unat (y AND 0xFFF) = unat y mod 0x1000" by (simp only: take_bit_eq_mod) simp
  then show ?thesis by (metis unat_0 unat_eq_zero)
qed

text \<open>What the loop finds from offset \<open>y\<close> on, without a signal.\<close>

lemma find_region_finds:
  assumes wf: "region_wf r" and data: "region_data r \<noteq> []"
    and len: "length m = length d" "d \<noteq> []" "length d \<le> unat (region_size r)"
    and quiet: "\<And>z. \<not> poll z"
  shows "y \<le> Suc (unat (region_size r) - length d) \<Longrightarrow>
    find_region poll d m r (of_nat y) found searched = Some (Inr
      (found @ map (cell_addr r) (filter (match_here d m r) [y..<Suc (unat (region_size r) - length d)]),
       searched + 0x1000 * of_nat (page_marks y (unat (region_size r) - length d))))"
proof (induction "Suc (unat (region_size r) - length d) - y" arbitrary: y found searched)
  let ?n = "unat (region_size r) - length d"
  have small: "?n + 1 < 2 ^ 64"
    using len(2) u64_bound [of "region_size r"] by (cases d) auto
  have bound: "region_size r - of_nat (length d) = of_nat ?n"
    using len(3) by (simp add: of_nat_diff)
  have test: "(of_nat y :: u64) \<le> region_size r - of_nat (length d) \<longleftrightarrow> y \<le> ?n" if "y \<le> Suc ?n" for y
    using that small unfolding bound by (simp add: word_le_nat_alt unat_of_nat)
  {
    case 0
    then have y: "y = Suc ?n" by simp
    then show ?case using test [of y]
      by (subst find_region.simps [of poll d m r _ found searched]) (simp add: page_marks_def)
  next
    case (Suc k)
    then have le: "y \<le> ?n" by simp
    have uy: "unat (of_nat y :: u64) = y" using le small by (simp add: unat_of_nat)
    have "length (region_data r) = unat (region_size r)"
      using wf data by (simp add: region_wf_def)
    then have hit: "match_bytes d (at_offset m 0) (at_offset (region_data r) (unat (of_nat y :: u64))) =
        Inr (match_here d m r y)"
      unfolding uy using le len by (intro match_bytes_here) auto
    have next_y: "(of_nat y :: u64) + 1 = of_nat (Suc y)" by simp
    note IH = Suc.hyps(1) [of "Suc y"]
    have IH': "find_region poll d m r (of_nat (Suc y)) found' searched' = Some (Inr
      (found' @ map (cell_addr r) (filter (match_here d m r) [Suc y..<Suc ?n]),
       searched' + 0x1000 * of_nat (page_marks (Suc y) ?n)))" for found' searched'
      by (rule IH) (use Suc.hyps(2) le in auto)
    have low: "(of_nat y :: u64) AND 0xFFF = 0 \<longleftrightarrow> y mod 0x1000 = 0"
      unfolding low_bits_zero uy ..
    show ?case
      using le test [of y] IH' [folded next_y] page_marks_step [OF le]
      by (subst find_region.simps [of poll d m r _ found searched])
        (simp add: quiet hit low upt_conv_Cons cell_addr_def distrib_left del: upt_Suc)
  }
qed

section \<open>All regions\<close>

text \<open>The matches in one region: address and protection, in address order.\<close>

definition region_matches :: "byte list \<Rightarrow> byte list \<Rightarrow> region \<Rightarrow> (u64 \<times> byte) list" where
  "region_matches d m r =
     (if region_data r = [] then []
      else map (\<lambda>z. (cell_addr r z, protection r))
             (filter (match_here d m r) [0..<Suc (unat (region_size r) - length d)]))"

definition region_progress :: "nat \<Rightarrow> region \<Rightarrow> nat" where
  "region_progress n r =
     (if region_data r = [] then 0 else 0x1000 * page_marks 0 (unat (region_size r) - n))"

definition searchable :: "nat \<Rightarrow> region \<Rightarrow> bool" where
  "searchable n r \<longleftrightarrow>
     region_wf r \<and> 0x1000 dvd unat (region_size r) \<and> (region_data r \<noteq> [] \<longrightarrow> n \<le> unat (region_size r))"

lemma find_in_regions_finds:
  assumes "length m = length d" and "d \<noteq> []" and "\<And>i z. \<not> poll i z"
    and "\<forall>r \<in> set rs. searchable (length d) r"
  shows "find_in_regions poll d m x rs = Some (Inr (concat (map (region_matches d m) rs),
    of_nat (sum_list (map (region_progress (length d)) rs))))"
  using assms(4)
proof (induction rs arbitrary: x)
  case (Cons r rs)
  show ?case
  proof (cases "region_data r = []")
    case True
    then show ?thesis using Cons by (simp add: region_matches_def region_progress_def)
  next
    case False
    have "find_region (poll x) d m r (of_nat 0) [] 0 = Some (Inr
      ([] @ map (cell_addr r) (filter (match_here d m r) [0..<Suc (unat (region_size r) - length d)]),
       0 + 0x1000 * of_nat (page_marks 0 (unat (region_size r) - length d))))"
      using Cons.prems False assms(1-3) by (intro find_region_finds) (auto simp: searchable_def)
    then show ?thesis
      using Cons False by (simp add: region_matches_def region_progress_def del: upt_Suc)
  qed
qed simp

section \<open>The progress counter\<close>

lemma region_progress_short:
  assumes "searchable n r" and "0 < n" and "n \<le> 0x1000"
  shows "region_progress n r = length (region_data r)"
proof (cases "region_data r = []")
  case False
  obtain p where p: "unat (region_size r) = 0x1000 * p" and wf: "region_wf r"
    using assms(1) by (auto simp: searchable_def)
  then have "0 < p" by (cases p) (auto simp: region_wf_def word_less_nat_alt)
  then obtain q where q: "p = Suc q" by (cases p) auto
  have "(0x1000 * p - n) div 0x1000 = q" using assms(2,3) q by (intro div_nat_eqI) auto
  then show ?thesis
    using False p q wf by (simp add: region_progress_def page_marks_0 region_wf_def)
qed (simp add: region_progress_def)

lemma region_progress_long:
  assumes "searchable n r" and "0x1000 < n"
  shows "region_progress n r \<le> length (region_data r)"
    and "region_data r \<noteq> [] \<Longrightarrow> region_progress n r < length (region_data r)"
proof -
  have less: "region_progress n r < length (region_data r)" if data: "region_data r \<noteq> []"
  proof -
    obtain p where p: "unat (region_size r) = 0x1000 * p"
      using assms(1) by (auto simp: searchable_def)
    have "n \<le> 0x1000 * p" using assms(1) data p by (simp add: searchable_def)
    then have "0x1000 * ((0x1000 * p - n) div 0x1000) + 0x1000 < 0x1000 * p"
      using assms(2) div_times_less_eq_dividend [of "0x1000 * p - n" "0x1000"] by linarith
    then show ?thesis
      using assms(1) data p by (simp add: region_progress_def page_marks_0 searchable_def region_wf_def)
  qed
  then show "region_progress n r \<le> length (region_data r)"
    by (cases "region_data r = []") (auto simp: region_progress_def)
  show "region_data r \<noteq> [] \<Longrightarrow> region_progress n r < length (region_data r)" by (rule less)
qed

lemma data_size_sum: "data_size rs = of_nat (sum_list (map (\<lambda>r. length (region_data r)) rs))"
proof -
  have "foldl (\<lambda>n r. n + of_nat (length (region_data r))) (of_nat k) rs =
      (of_nat (k + sum_list (map (\<lambda>r. length (region_data r)) rs)) :: u64)" for k
    by (induction rs arbitrary: k) (simp_all add: add.assoc flip: of_nat_add)
  from this [of 0] show ?thesis by (simp add: data_size_def)
qed

lemma total_below_address_space:
  assumes "regions_wf rs" and "\<forall>r \<in> set rs. b \<le> unat (region_addr r)" and "b < 2 ^ 64"
  shows "b + sum_list (map (\<lambda>r. length (region_data r)) rs) < 2 ^ 64"
  using assms
proof (induction rs arbitrary: b)
  case (Cons r rs)
  have wf: "region_wf r" "regions_wf rs" "\<forall>s \<in> set rs. end_addr r \<le> region_addr s"
    using Cons.prems(1) by (auto simp: regions_wf_Cons)
  have e: "unat (end_addr r) = unat (region_addr r) + unat (region_size r)"
    by (rule unat_end_addr [OF wf(1)])
  have "unat (end_addr r) + sum_list (map (\<lambda>r. length (region_data r)) rs) < 2 ^ 64"
    using wf u64_bound [of "end_addr r"] by (intro Cons.IH) (auto simp: word_le_nat_alt)
  moreover have "length (region_data r) \<le> unat (region_size r)"
    using wf(1) by (auto simp: region_wf_def)
  ultimately show ?case using Cons.prems(2) e by simp
qed simp

lemma sum_list_sort_key: "sum_list (map (f :: 'a \<Rightarrow> nat) (sort_key g xs)) = sum_list (map f xs)"
  by (metis mset_map mset_sort sum_mset_sum_list)

lemma sum_list_less_iff:
  "\<forall>x \<in> set xs. f x \<le> (g x :: nat) \<Longrightarrow>
   sum_list (map f xs) < sum_list (map g xs) \<longleftrightarrow> (\<exists>x \<in> set xs. f x < g x)"
proof (induction xs)
  case (Cons x xs)
  then have "sum_list (map f xs) \<le> sum_list (map g xs)" by (intro sum_list_mono) auto
  with Cons.prems have "sum_list (map f (x # xs)) < sum_list (map g (x # xs)) \<longleftrightarrow>
      f x < g x \<or> sum_list (map f xs) < sum_list (map g xs)" by auto
  with Cons show ?case by simp
qed simp

section \<open>The results in order\<close>

lemma region_matches_sorted:
  assumes "region_wf r" and "0 < length d"
  shows "sorted_wrt (\<lambda>x y. fst x < fst y) (region_matches d m r)"
    and "\<forall>x \<in> set (region_matches d m r). length d \<le> unat (region_size r) \<longrightarrow> contains (fst x) r"
proof -
  let ?n = "Suc (unat (region_size r) - length d)"
  have less: "cell_addr r i < cell_addr r j" if "i < j" "j < ?n" for i j
    using that assms by (simp add: word_less_nat_alt unat_cell_addr)
  have "sorted_wrt (<) (filter (match_here d m r) [0..<?n])"
    by (simp add: sorted_wrt_filter del: upt_Suc)
  then have "sorted_wrt (\<lambda>i j. cell_addr r i < cell_addr r j) (filter (match_here d m r) [0..<?n])"
    by (rule sorted_wrt_mono_rel [rotated]) (auto intro: less simp del: upt_Suc)
  then show "sorted_wrt (\<lambda>x y. fst x < fst y) (region_matches d m r)"
    by (simp add: region_matches_def sorted_wrt_map del: upt_Suc)
  show "\<forall>x \<in> set (region_matches d m r). length d \<le> unat (region_size r) \<longrightarrow> contains (fst x) r"
    using assms by (cases d) (auto simp: region_matches_def intro!: cell_addr_contains)
qed

lemma matches_sorted:
  assumes "regions_wf rs" and "d \<noteq> []" and "\<forall>r \<in> set rs. searchable (length d) r"
  shows "sorted_wrt (\<lambda>x y. fst x < fst y) (concat (map (region_matches d m) rs))"
  using assms
proof (induction rs)
  case (Cons r rs)
  have wf: "region_wf r" "regions_wf rs" "\<forall>s \<in> set rs. end_addr r \<le> region_addr s"
    using Cons.prems(1) by (auto simp: regions_wf_Cons)
  have inside: "contains (fst x) s" if "x \<in> set (region_matches d m s)" "searchable (length d) s" for x s
    using region_matches_sorted(2) [of s d m] that Cons.prems(2)
    by (cases "region_data s = []") (auto simp: searchable_def region_matches_def)
  have "fst x < fst y"
    if "x \<in> set (region_matches d m r)" "s \<in> set rs" "y \<in> set (region_matches d m s)" for x y s
  proof -
    have "contains (fst x) r" "contains (fst y) s" "end_addr r \<le> region_addr s"
      using inside that Cons.prems(3) wf(3) by auto
    then show ?thesis by (auto simp: contains_def)
  qed
  then show ?case
    using Cons wf region_matches_sorted(1) [OF wf(1)] by (auto simp: sorted_wrt_append)
qed simp

lemma sort_matches:
  assumes "regions_wf rs" and "d \<noteq> []" and "\<forall>r \<in> set rs. searchable (length d) r"
  shows "sort (concat (map (region_matches d m) (sort_key g rs))) = concat (map (region_matches d m) rs)"
proof (rule properties_for_sort)
  show "mset (concat (map (region_matches d m) rs)) =
      mset (concat (map (region_matches d m) (sort_key g rs)))"
    unfolding mset_concat map_map
    by (metis mset_map mset_sort sum_mset_sum_list)
  show "sorted (concat (map (region_matches d m) rs))"
    by (rule sorted_wrt_mono_rel [OF _ matches_sorted [OF assms]]) (auto simp: less_eq_prod_def)
qed

section \<open>Find\<close>

lemma find_completes:
  assumes "regions_wf rs" and "\<forall>r \<in> set rs. searchable (length d) r"
    and "length m = length d" and "d \<noteq> []" and "\<And>i z. \<not> poll i z"
  shows "find_results_in poll d m rs =
    (if length d \<le> 0x1000 \<or> (\<forall>r \<in> set rs. region_data r = [])
     then Some (Inr (concat (map (region_matches d m) rs))) else None)"
proof -
  let ?rs = "sort_key (\<lambda>r. - int (length (region_data r))) rs"
  let ?done = "sum_list (map (region_progress (length d)) rs)"
  let ?total = "sum_list (map (\<lambda>r. length (region_data r)) rs)"
  have found: "find_in_regions poll d m 0 ?rs =
      Some (Inr (concat (map (region_matches d m) ?rs), of_nat ?done))"
    using find_in_regions_finds [of m d poll ?rs 0] assms(2-5) by (simp add: sum_list_sort_key)
  have total: "data_size ?rs = of_nat ?total" "?total < 2 ^ 64"
    using total_below_address_space [of rs 0] assms(1)
    by (simp_all add: data_size_sum sum_list_sort_key)
  have "?done \<le> ?total"
    using assms(2,4) region_progress_short region_progress_long(1)
    by (intro sum_list_mono) (metis length_greater_0_conv linorder_not_less order_refl)
  then have waits: "(of_nat ?done :: u64) < data_size ?rs \<longleftrightarrow> ?done < ?total"
    using total by (simp add: word_less_nat_alt unat_of_nat)
  have "?done < ?total \<longleftrightarrow> \<not> (length d \<le> 0x1000 \<or> (\<forall>r \<in> set rs. region_data r = []))"
  proof (cases "length d \<le> 0x1000")
    case True
    then have "map (region_progress (length d)) rs = map (\<lambda>r. length (region_data r)) rs"
      using region_progress_short assms(2,4) by auto
    then have "?done = ?total" by (rule arg_cong)
    with True show ?thesis by simp
  next
    case False
    then have long: "region_progress (length d) r \<le> length (region_data r)"
      "region_progress (length d) r < length (region_data r) \<longleftrightarrow> region_data r \<noteq> []"
      if "r \<in> set rs" for r
      using region_progress_long [of "length d" r] assms(2) that by (auto simp: region_progress_def)
    then have "?done < ?total \<longleftrightarrow> (\<exists>r \<in> set rs. region_data r \<noteq> [])"
      by (subst sum_list_less_iff) auto
    with False show ?thesis by simp
  qed
  then show ?thesis
    using found waits by (simp add: find_results_in_def Let_def sort_matches [OF assms(1,4,2)])
qed

section \<open>Data longer than a region\<close>

text \<open>
  With \<open>region.size < data.size()\<close> the bound of the loop wraps around, and the loop runs on to
  the end of the buffer and beyond.
\<close>

definition overrun :: "nat \<Rightarrow> region \<Rightarrow> bool" where
  "overrun n r \<longleftrightarrow> region_data r \<noteq> [] \<and> unat (region_size r) < n"

lemma match_bytes_Inl:
  "match_bytes d m p = Inl f \<Longrightarrow> length d \<le> length m \<Longrightarrow> f = Undefined Past_buffer"
  by (induction d m p rule: match_bytes.induct) (auto split: if_splits list.splits)

lemma match_bytes_past_end:
  "\<exists>i < length d. m ! i \<noteq> 0 \<Longrightarrow> length d \<le> length m \<Longrightarrow> match_bytes d m [] = Inl (Undefined Past_buffer)"
proof (induction d arbitrary: m)
  case (Cons x d)
  then obtain k m' where m: "m = k # m'" by (cases m) auto
  obtain i where i: "i < length (x # d)" "m ! i \<noteq> 0" using Cons.prems(1) by blast
  show ?case
  proof (cases i)
    case 0
    then show ?thesis using i m by simp
  next
    case (Suc j)
    then have "match_bytes d m' [] = Inl (Undefined Past_buffer)"
      using i m Cons.prems(2) by (intro Cons.IH) auto
    then show ?thesis using m by simp
  qed
qed simp

lemma find_region_overruns:
  assumes wf: "region_wf r" and over: "overrun (length d) r" and len: "length m = length d" "length d < 2 ^ 64"
    and mask: "\<exists>i < length d. m ! i \<noteq> 0" and quiet: "\<And>z. \<not> poll z"
  shows "y \<le> Suc (unat (region_size r)) \<Longrightarrow>
    find_region poll d m r (of_nat y) found searched = Some (Inl (Undefined Past_buffer))"
proof (induction "Suc (unat (region_size r)) - y" arbitrary: y found searched)
  let ?size = "unat (region_size r)"
  have size: "length (region_data r) = ?size" "?size < length d" "?size + 1 < 2 ^ 64"
    using wf over len(2) by (auto simp: region_wf_def overrun_def)
  have "unat (region_size r - of_nat (length d)) = 2 ^ 64 + ?size - length d"
    using size(2) len(2) by (simp add: unat_sub_if' unat_of_nat word_le_nat_alt)
  then have test: "(of_nat y :: u64) \<le> region_size r - of_nat (length d)" if "y \<le> Suc ?size" for y
    using that size len(2) by (simp add: word_le_nat_alt unat_of_nat)
  {
    case 0
    then have y: "y = Suc ?size" by simp
    have "unat (of_nat (Suc ?size) :: u64) = Suc ?size" using size(3) by (simp add: unat_of_nat del: of_nat_Suc)
    then have "at_offset (region_data r) (unat (of_nat (Suc ?size) :: u64)) = []"
      by (simp only:) (simp add: at_offset_def size(1))
    then have "match_bytes d (at_offset m 0) (at_offset (region_data r) (unat (of_nat (Suc ?size) :: u64))) =
        Inl (Undefined Past_buffer)"
      using mask len(1) by (auto simp only: intro!: match_bytes_past_end) (auto simp: at_offset_def nth_append)
    then show ?case
      unfolding y using test [of "Suc ?size"] quiet by (subst find_region.simps) (simp del: of_nat_Suc)
  next
    case (Suc k)
    then have le: "y \<le> Suc ?size" by simp
    have next_y: "(of_nat y :: u64) + 1 = of_nat (Suc y)" by simp
    have IH: "find_region poll d m r (of_nat (Suc y)) found' searched' = Some (Inl (Undefined Past_buffer))"
      for found' searched'
      using Suc.hyps(2) by (intro Suc.hyps(1)) auto
    show ?case
    proof (cases "match_bytes d (at_offset m 0) (at_offset (region_data r) (unat (of_nat y :: u64)))")
      case (Inl f)
      then have "f = Undefined Past_buffer"
        by (rule match_bytes_Inl) (simp add: at_offset_def len(1))
      then show ?thesis using Inl test [OF le] quiet by (subst find_region.simps) simp
    next
      case (Inr b)
      then show ?thesis
        using test [OF le] quiet IH [folded next_y] by (subst find_region.simps) simp
    qed
  }
qed

lemma find_in_regions_overruns:
  assumes "length m = length d" and "d \<noteq> []" and "length d < 2 ^ 64" and "\<exists>i < length d. m ! i \<noteq> 0"
    and "\<And>i z. \<not> poll i z" and "\<forall>r \<in> set rs. region_wf r \<and> 0x1000 dvd unat (region_size r)"
    and "\<exists>r \<in> set rs. overrun (length d) r"
  shows "find_in_regions poll d m x rs = Some (Inl (Undefined Past_buffer))"
  using assms(6,7)
proof (induction rs arbitrary: x)
  case (Cons r rs)
  show ?case
  proof (cases "overrun (length d) r")
    case True
    then have "find_region (poll x) d m r (of_nat 0) [] 0 = Some (Inl (Undefined Past_buffer))"
      using Cons.prems(1) assms(1,3-5) by (intro find_region_overruns) auto
    then show ?thesis using True by (simp add: overrun_def prog_bind_def)
  next
    case False
    then have rest: "find_in_regions poll d m (Suc x) rs = Some (Inl (Undefined Past_buffer))"
      using Cons by auto
    show ?thesis
    proof (cases "region_data r = []")
      case False
      then have "\<forall>r' \<in> set [r]. searchable (length d) r'"
        using Cons.prems(1) \<open>\<not> overrun (length d) r\<close> by (auto simp: searchable_def overrun_def)
      then have "\<exists>out. find_in_regions poll d m x [r] = Some (Inr out)"
        using find_in_regions_finds [OF assms(1,2), of poll "[r]" x] assms(5) by blast
      then obtain out where "find_region (poll x) d m r 0 [] 0 = Some (Inr out)"
        using False by (auto simp: prog_bind_def split: option.splits sum.splits)
      then show ?thesis using rest False by (cases out) (simp add: prog_bind_def)
    qed (use rest in simp)
  qed
qed simp

text \<open>
  C14. The three outcomes of \<open>find\<close> when no signal arrives, on regions of whole pages. If a readable
  region is shorter than the data (and the mask has a nonzero byte), the loop bound wraps around
  and the comparison reads behind the region's buffer. Otherwise \<open>find\<close> returns if the data is no
  longer than a page of 4096 bytes or no region is readable, and then reports, ascending by
  address, exactly the positions of readable regions where all bytes under a nonzero mask byte
  agree; and with longer data it searches all regions and then waits forever, as the progress
  counter cannot reach the total any more.
\<close>

theorem find_outcomes:
  assumes "regions_wf rs" and "\<forall>r \<in> set rs. 0x1000 dvd unat (region_size r)"
    and "length m = length d" and "d \<noteq> []" and "length d < 2 ^ 64" and "\<And>i z. \<not> poll i z"
    and "\<exists>r \<in> set rs. overrun (length d) r \<Longrightarrow> \<exists>i < length d. m ! i \<noteq> 0"
  shows "find_results_in poll d m rs =
    (if \<exists>r \<in> set rs. overrun (length d) r then Some (Inl (Undefined Past_buffer))
     else if length d \<le> 0x1000 \<or> (\<forall>r \<in> set rs. region_data r = [])
     then Some (Inr (concat (map (region_matches d m) rs))) else None)"
proof (cases "\<exists>r \<in> set rs. overrun (length d) r")
  case True
  have "\<forall>r \<in> set rs. region_wf r \<and> 0x1000 dvd unat (region_size r)"
    using assms(1,2) by (auto simp: regions_wf_def)
  then show ?thesis
    using True assms(6,7) find_in_regions_overruns [OF assms(3-5), where poll = poll and rs = "sort_key (\<lambda>r. - int (length (region_data r))) rs" and x = 0]
    by (simp add: find_results_in_def prog_bind_def Let_def)
next
  case False
  then have "\<forall>r \<in> set rs. searchable (length d) r"
    using assms(1,2) by (auto simp: searchable_def overrun_def regions_wf_def)
  then show ?thesis using find_completes [OF assms(1) _ assms(3,4,6)] False by simp
qed

end
