(* ===== verification/FreezeCommand.thy ===== *)
theory FreezeCommand
  imports ShellMain
begin

text \<open>
  The command line of \<open>freeze\<close> against the commands that \<open>frozen commands\<close> prints: a printed
  command, typed in again, registers the same region; and what the splitting at spaces does to
  data that contains spaces.
\<close>

section \<open>phosg's splitting and skipping\<close>

fun split_on :: "char \<Rightarrow> string \<Rightarrow> string list" where
  "split_on c [] = [[]]"
| "split_on c (x # s) =
     (if x = c then [] # split_on c s
      else case split_on c s of w # ws \<Rightarrow> (x # w) # ws | [] \<Rightarrow> [[x]])"

definition white :: "char \<Rightarrow> bool" where
  "white c \<longleftrightarrow> c \<in> {CHR '' '', CHR 0x09, CHR 0x0D, CHR 0x0A}"

text \<open>The documented behaviour of the functions that take a command line apart.\<close>

definition words_ok :: "phosg \<Rightarrow> bool" where
  "words_ok ph \<longleftrightarrow>
     (\<forall>s c. s \<noteq> [] \<longrightarrow> split_string ph s c = split_on c s) \<and>
     (\<forall>s i. skip_whitespace ph s i = i + length (takeWhile white (drop i s))) \<and>
     (\<forall>s i. skip_non_whitespace ph s i = i + length (takeWhile (\<lambda>c. \<not> white c) (drop i s)))"

lemma split_on_nonempty: "split_on c s \<noteq> []"
  by (induction s) (auto split: list.splits)

lemma split_on_word: "c \<notin> set w \<Longrightarrow> split_on c w = [w]"
  by (induction w) auto

lemma split_on_words: "c \<notin> set w \<Longrightarrow> split_on c (w @ c # s) = w # split_on c s"
  by (induction w) auto

text \<open>Words joined by single spaces.\<close>

fun unwords :: "string list \<Rightarrow> string" where
  "unwords [] = []"
| "unwords [w] = w"
| "unwords (w # v # ws) = w @ CHR '' '' # unwords (v # ws)"

lemma split_unwords:
  "ws \<noteq> [] \<Longrightarrow> \<forall>w \<in> set ws. CHR '' '' \<notin> set w \<Longrightarrow> split_on (CHR '' '') (unwords ws) = ws"
  by (induction ws rule: unwords.induct) (auto simp: split_on_word split_on_words)

section \<open>One argument\<close>

lemma hex016_start:
  obtains c cs where "hex016 v = c # cs" and "is_digit 16 c"
  using hex016_digits(2,3) [of v] by (cases "hex016 v") auto

lemma freeze_arg_name: "freeze_arg s (''+n'' @ name) fa = Inr (fa\<lparr>fa_name := name\<rparr>)"
  by (simp add: freeze_arg_def char_at_def)

lemma freeze_arg_addr: "fa_addr fa = 0 \<Longrightarrow>
  freeze_arg s (hex016 a) fa = Inr (fa\<lparr>fa_addr_arg := hex016 a, fa_addr := a\<rparr>)"
proof -
  assume fa: "fa_addr fa = 0"
  obtain c cs where h: "hex016 a = c # cs" "is_digit 16 c" by (rule hex016_start)
  have "stoull (hex016 a) 16 = Inr (a, 16)" using stoull_hex016 [of "[]" a] by simp
  then show ?thesis
    using fa h digit_not_special [of c] by (simp add: freeze_arg_def get_addr_from_command_def char_at_def)
qed

lemma freeze_arg_data:
  "fa_addr fa \<noteq> 0 \<Longrightarrow> \<not> fa_reading_null fa \<Longrightarrow> w = [] \<or> hd w \<noteq> CHR ''+'' \<Longrightarrow>
   freeze_arg s w fa = Inr (fa\<lparr>fa_data := fa_data fa @ w\<rparr>)"
  by (cases w) (auto simp: freeze_arg_def char_at_def)

lemma freeze_arg_options:
  "freeze_arg s ''+d'' fa = Inr (fa\<lparr>fa_enable := False\<rparr>)"
  "freeze_arg s (''+N'' @ t) fa =
     Inr (fa\<lparr>fa_reading_null := True, fa_null_data := fa_null_data fa @ t\<rparr>)"
  by (simp_all add: freeze_arg_def char_at_def)

lemma freeze_arg_max: "freeze_arg s (''+m'' @ dec (unat v)) fa = Inr (fa\<lparr>fa_max_entries := v\<rparr>)"
proof -
  have "unat v < 2 ^ 64" using unsigned_less [of v] by simp
  then show ?thesis using stoull_dec [of "unat v" "[]"] by (simp add: freeze_arg_def char_at_def)
qed

section \<open>Data with spaces\<close>

lemma parse_data_words:
  assumes "fa_addr fa \<noteq> 0" and "\<not> fa_reading_null fa" and "\<forall>w \<in> set ws. w = [] \<or> hd w \<noteq> CHR ''+''"
  shows "parse_freeze_args s ws fa = Inr (fa\<lparr>fa_data := fa_data fa @ concat ws\<rparr>)"
  using assms
proof (induction ws arbitrary: fa)
  case (Cons w ws)
  then show ?case by (simp add: freeze_arg_data)
qed simp

lemma concat_split_on: "concat (split_on c s) = filter (\<lambda>x. x \<noteq> c) s"
  by (induction s) (auto split: list.splits)

text \<open>
  The data argument of \<open>freeze\<close> loses its spaces: whatever follows the address is split at
  spaces and put together without them, so a string literal with a space in it is parsed
  without the space.
\<close>

theorem freeze_drops_spaces:
  assumes "a \<noteq> 0" and "\<forall>w \<in> set (split_on (CHR '' '') text). w = [] \<or> hd w \<noteq> CHR ''+''"
  shows "parse_freeze_args s (split_on (CHR '' '') (hex016 a @ CHR '' '' # text)) no_freeze_args =
    Inr (no_freeze_args\<lparr>fa_addr_arg := hex016 a, fa_addr := a,
      fa_data := filter (\<lambda>c. c \<noteq> CHR '' '') text\<rparr>)"
proof -
  have "CHR '' '' \<notin> set (hex016 a)"
    using hex016_digits(2) [of a] digit_not_special by blast
  then show ?thesis
    using assms(1)
    by (simp add: split_on_words freeze_arg_addr parse_data_words [OF _ _ assms(2)] concat_split_on
        no_freeze_args_def)
qed

section \<open>A printed command typed in again\<close>

text \<open>
  Texts that \<open>format_data_string\<close> gives for data and mask: one word that starts without a plus,
  and from which \<open>parse_data_string\<close> reads the same bytes.
\<close>

definition text_ok :: "phosg \<Rightarrow> byte list \<Rightarrow> byte list option \<Rightarrow> bool" where
  "text_ok ph d m \<longleftrightarrow>
     (let t = c_str (format_data_string ph d m)
      in t \<noteq> [] \<and> hd t \<noteq> CHR ''+'' \<and> (\<forall>c \<in> set t. \<not> white c) \<and>
         (\<exists>m'. parse_data_string ph t = Inr (d, m') \<and> (\<forall>m1. m = Some m1 \<longrightarrow> m' = m1)))"

text \<open>
  Regions whose command can be typed in: a name that is one word, an address other than 0, and
  texts for the data that are read back.
\<close>

definition typeable :: "phosg \<Rightarrow> frozen \<Rightarrow> bool" where
  "typeable ph r \<longleftrightarrow>
     rgn_name r \<noteq> [] \<and> (\<forall>c \<in> set (rgn_name r). \<not> white c \<and> c \<noteq> CHR 0x00) \<and>
     rgn_addr r \<noteq> 0 \<and> rgn_data r \<noteq> [] \<and>
     (case rgn_array r of
        None \<Rightarrow> text_ok ph (rgn_data r) None
      | Some ar \<Rightarrow> num_items ar \<noteq> 0 \<and> text_ok ph (rgn_data r) (Some (data_mask ar)) \<and>
          (null_data ar = [] \<and> null_data_mask ar = [] \<or>
           null_data_mask ar \<noteq> [] \<and> length (null_data ar) = length (rgn_data r) \<and>
           text_ok ph (null_data ar) (Some (null_data_mask ar))))"

definition data_text :: "phosg \<Rightarrow> frozen \<Rightarrow> string" where
  "data_text ph r = c_str (format_data_string ph (rgn_data r) (map_option data_mask (rgn_array r)))"

definition null_text :: "phosg \<Rightarrow> frozen \<Rightarrow> string" where
  "null_text ph r =
     (case rgn_array r of
        None \<Rightarrow> []
      | Some ar \<Rightarrow> if null_data ar \<noteq> [] \<and> null_data_mask ar \<noteq> []
                   then c_str (format_data_string ph (null_data ar) (Some (null_data_mask ar))) else [])"

definition command_words :: "phosg \<Rightarrow> frozen \<Rightarrow> string list" where
  "command_words ph r =
     [''+n'' @ rgn_name r, hex016 (rgn_addr r)] @
     (case rgn_array r of None \<Rightarrow> [] | Some ar \<Rightarrow> [''+m'' @ dec (unat (num_items ar))]) @
     [data_text ph r] @ (if rgn_enable r then [] else [''+d'']) @
     (if null_text ph r = [] then [] else [''+N'' @ null_text ph r])"

lemma c_str_id: "\<forall>c \<in> set s. c \<noteq> CHR 0x00 \<Longrightarrow> c_str s = s"
  by (simp add: c_str_def takeWhile_eq_all_conv)

lemma null_text_iff:
  "typeable ph r \<Longrightarrow> null_text ph r = [] \<longleftrightarrow>
   (\<forall>ar. rgn_array r = Some ar \<longrightarrow> null_data ar = [] \<or> null_data_mask ar = [])"
  by (auto simp: typeable_def null_text_def text_ok_def Let_def split: option.splits)

text \<open>The printed line is the words after the command \<open>f\<close>.\<close>

lemma print_command_words:
  assumes "typeable ph r"
  shows "print_command ph r = unwords (''f'' # command_words ph r) @ [CHR 0x0A]"
proof -
  have name: "c_str (rgn_name r) = rgn_name r" using assms by (auto simp: typeable_def intro: c_str_id)
  show ?thesis
    using null_text_iff [OF assms]
    by (auto simp: print_command_def command_words_def name data_text_def null_text_def
        split: option.splits if_splits)
qed

lemma dec_digits: "\<forall>c \<in> set (dec n). is_digit 10 c"
  using to_base_digits [of 10 n] by (simp add: dec_def)

lemma digit_not_white: "is_digit b c \<Longrightarrow> b \<le> 16 \<Longrightarrow> \<not> white c"
  by (auto simp: white_def is_digit_def digit_value_def Let_def split: if_splits)

lemma command_words_plain:
  assumes "typeable ph r" and "w \<in> set (command_words ph r)" and "c \<in> set w"
  shows "\<not> white c"
proof -
  have "white x \<Longrightarrow> x \<noteq> CHR ''+'' \<and> x \<noteq> CHR ''n'' \<and> x \<noteq> CHR ''m'' \<and> x \<noteq> CHR ''d'' \<and> x \<noteq> CHR ''N''" for x
    by (auto simp: white_def)
  moreover have "\<not> white x" if "x \<in> set (hex016 v)" for x v
    using that hex016_digits(2) [of v] digit_not_white by fastforce
  moreover have "\<not> white x" if "x \<in> set (dec v)" for x v
    using that dec_digits [of v] digit_not_white [of 10 x] by auto
  moreover have "\<forall>x \<in> set (rgn_name r). \<not> white x" "\<forall>x \<in> set (data_text ph r). \<not> white x"
    "\<forall>x \<in> set (null_text ph r). \<not> white x"
    using assms(1) by (auto simp: typeable_def data_text_def null_text_def text_ok_def Let_def split: option.splits)
  ultimately show ?thesis
    using assms(2,3) by (fastforce simp: command_words_def split: option.splits if_splits)
qed

lemma parse_command_words:
  assumes "typeable ph r"
  shows "parse_freeze_args s (command_words ph r) no_freeze_args = Inr
    \<lparr>fa_name = rgn_name r, fa_addr_arg = hex016 (rgn_addr r), fa_addr = rgn_addr r,
     fa_max_entries = (case rgn_array r of None \<Rightarrow> 0 | Some ar \<Rightarrow> num_items ar), fa_read_size = 0,
     fa_data = data_text ph r, fa_null_data = null_text ph r,
     fa_reading_null = (null_text ph r \<noteq> []), fa_enable = rgn_enable r\<rparr>"
proof -
  have t: "rgn_addr r \<noteq> 0" "data_text ph r = [] \<or> hd (data_text ph r) \<noteq> CHR ''+''"
    using assms by (auto simp: typeable_def data_text_def text_ok_def Let_def split: option.splits)
  show ?thesis
    unfolding command_words_def no_freeze_args_def
    using t by (cases "rgn_array r"; cases "rgn_enable r"; cases "null_text ph r = []")
      (simp_all add: freeze_arg_name [simplified] freeze_arg_max [simplified]
        freeze_arg_options [simplified] freeze_arg_addr freeze_arg_data)
qed

section \<open>Registering the region\<close>

text \<open>What is registered: the region under a new index, without its error.\<close>

definition registered :: "frozen \<Rightarrow> freezer \<Rightarrow> freezer" where
  "registered r fz =
     add_region (r\<lparr>rgn_index := next_index fz, rgn_error := []\<rparr>) (fz\<lparr>next_index := next_index fz + 1\<rparr>)"

lemma new_region_again:
  "rgn_array r = None \<Longrightarrow> e = rgn_enable r \<Longrightarrow> new_region (rgn_name r) i (rgn_addr r) (rgn_data r) e =
     r\<lparr>rgn_index := i, rgn_error := []\<rparr>"
  "rgn_array r = Some ar \<Longrightarrow> e = rgn_enable r \<Longrightarrow> null_data ar = [] \<Longrightarrow> null_data_mask ar = [] \<Longrightarrow>
   new_array_region (rgn_name r) i (rgn_addr r) (num_items ar) (rgn_data r) (data_mask ar) None None
     e = r\<lparr>rgn_index := i, rgn_error := []\<rparr>"
  "rgn_array r = Some ar \<Longrightarrow> e = rgn_enable r \<Longrightarrow>
   new_array_region (rgn_name r) i (rgn_addr r) (num_items ar) (rgn_data r) (data_mask ar)
     (Some (null_data ar)) (Some (null_data_mask ar)) e =
     r\<lparr>rgn_index := i, rgn_error := []\<rparr>"
  by (cases r; cases ar; auto simp: new_array_region_def new_region_def)+

lemma add_frozen_registers:
  assumes "fa_max_entries fa = (case rgn_array r of None \<Rightarrow> 0 | Some ar \<Rightarrow> num_items ar)"
    and "fa_addr fa = rgn_addr r" and "fa_enable fa = rgn_enable r"
    and "\<forall>ar. rgn_array r = Some ar \<longrightarrow> m = data_mask ar \<and> nd = null_data ar \<and> nm = null_data_mask ar \<and>
      num_items ar \<noteq> 0 \<and> (nd = [] \<longrightarrow> nm = [])"
  shows "add_frozen fa (rgn_name r) (rgn_data r) m nd nm fz = registered r fz"
  using assms
  by (cases "rgn_array r")
    (auto simp: add_frozen_def registered_def freeze_def freeze_array_def new_region_again)

lemma freeze_printed:
  assumes "typeable (env_phosg env) r" and "words_ok (env_phosg env)"
    and "parse_data_string (env_phosg env) [] = Inr ([], [])" and "interactive s"
  shows "command_freeze env (unwords (command_words (env_phosg env) r)) s =
    Some (Inr (), s\<lparr>sh_freezer := registered r (sh_freezer s)\<rparr>)"
proof -
  let ?ph = "env_phosg env"
  let ?ws = "command_words ?ph r"
  have ne: "?ws \<noteq> []" "unwords ?ws \<noteq> []" "2 \<le> length ?ws"
    by (simp_all add: command_words_def)
  have "CHR '' '' \<notin> set w" if "w \<in> set ?ws" for w
    using command_words_plain [OF assms(1) that] by (auto simp: white_def)
  then have args: "split_args ?ph (unwords ?ws) 2 0 = Inr ?ws"
    using split_unwords [OF ne(1)] assms(2) ne by (simp add: split_args_def words_ok_def)
  obtain m where d: "parse_data_string ?ph (data_text ?ph r) = Inr (rgn_data r, m)"
    "\<forall>ar. rgn_array r = Some ar \<longrightarrow> m = data_mask ar"
    using assms(1) by (auto simp: typeable_def text_ok_def Let_def data_text_def split: option.splits)
  have r: "rgn_name r \<noteq> []" "rgn_data r \<noteq> []" using assms(1) by (auto simp: typeable_def)
  have "\<exists>nd nm. parse_data_string ?ph (null_text ?ph r) = Inr (nd, nm) \<and> (rgn_array r = None \<longrightarrow> nd = []) \<and>
    (\<forall>ar. rgn_array r = Some ar \<longrightarrow> nd = null_data ar \<and> nm = null_data_mask ar \<and> num_items ar \<noteq> 0 \<and>
       (nd = [] \<longrightarrow> nm = []) \<and> (nd \<noteq> [] \<longrightarrow> length nd = length (rgn_data r)))"
  proof (cases "rgn_array r")
    case None
    then show ?thesis using assms(3) by (simp add: null_text_def)
  next
    case (Some ar)
    then have t: "num_items ar \<noteq> 0" "null_data ar = [] \<and> null_data_mask ar = [] \<or>
        null_data_mask ar \<noteq> [] \<and> length (null_data ar) = length (rgn_data r) \<and>
        text_ok ?ph (null_data ar) (Some (null_data_mask ar))"
      using assms(1) by (simp_all add: typeable_def)
    from t(2) show ?thesis
    proof
      assume "null_data ar = [] \<and> null_data_mask ar = []"
      then show ?thesis using Some t(1) assms(3) by (simp add: null_text_def)
    next
      assume n: "null_data_mask ar \<noteq> [] \<and> length (null_data ar) = length (rgn_data r) \<and>
        text_ok ?ph (null_data ar) (Some (null_data_mask ar))"
      then have "null_data ar \<noteq> []" using r(2) by auto
      note ne = this
      with n have "parse_data_string ?ph (null_text ?ph r) = Inr (null_data ar, null_data_mask ar)"
        using Some by (auto simp: null_text_def text_ok_def Let_def)
      then show ?thesis using Some n t(1) ne by simp
    qed
  qed
  then obtain nd nm where nd: "parse_data_string ?ph (null_text ?ph r) = Inr (nd, nm) \<and>
    (rgn_array r = None \<longrightarrow> nd = []) \<and>
    (\<forall>ar. rgn_array r = Some ar \<longrightarrow> nd = null_data ar \<and> nm = null_data_mask ar \<and> num_items ar \<noteq> 0 \<and>
       (nd = [] \<longrightarrow> nm = []) \<and> (nd \<noteq> [] \<longrightarrow> length nd = length (rgn_data r)))"
    by (elim exE)
  note n = nd [THEN conjunct1] nd [THEN conjunct2, THEN conjunct1] nd [THEN conjunct2, THEN conjunct2]
  have add: "add_frozen fa (rgn_name r) (rgn_data r) m nd nm fz = registered r fz"
    if "fa_max_entries fa = (case rgn_array r of None \<Rightarrow> 0 | Some ar \<Rightarrow> num_items ar)"
      "fa_addr fa = rgn_addr r" "fa_enable fa = rgn_enable r" for fa fz
    by (rule add_frozen_registers [OF that]) (use d(2) n(3) in blast)
  show ?thesis
  proof (cases "rgn_array r")
    case None
    then have "check_freeze fa (rgn_data r) nd = Inr ()" for fa
      using n(2) r by (simp add: check_freeze_def)
    then show ?thesis
      using parse_command_words [OF assms(1), of s] assms(4) d(1) n(1) r(1) None add
      by (simp add: command_freeze_def interactive_only_def freeze_name_def freeze_data_def
          on_freezer_def args)
  next
    case (Some ar)
    then have "fa_max_entries fa = num_items ar \<Longrightarrow> check_freeze fa (rgn_data r) nd = Inr ()" for fa
      using n(3) r by (auto simp: check_freeze_def)
    then show ?thesis
      using parse_command_words [OF assms(1), of s] assms(4) d(1) n(1) r(1) Some add
      by (simp add: command_freeze_def interactive_only_def freeze_name_def freeze_data_def
          on_freezer_def args)
  qed
qed

lemma printed_command_registers:
  assumes "typeable (env_phosg env) r" and "words_ok (env_phosg env)"
    and "parse_data_string (env_phosg env) [] = Inr ([], [])" and "interactive s"
    and "print_command (env_phosg env) r = line @ [CHR 0x0A]"
  shows "execute_command env line s = Some (Inr 0, s\<lparr>sh_freezer := registered r (sh_freezer s)\<rparr>)"
proof -
  let ?ph = "env_phosg env"
  obtain w ws where ws: "command_words ?ph r = w # ws" by (simp add: command_words_def)
  then have line: "line = CHR ''f'' # CHR '' '' # unwords (w # ws)"
    using print_command_words [OF assms(1)] assms(5) by simp
  obtain c cs where "unwords (w # ws) = CHR ''+'' # CHR ''n'' # c # cs"
    using ws assms(1) by (cases ws; cases "rgn_name r") (auto simp: command_words_def typeable_def)
  then have "find_handler ?ph line = Inr (Freeze, unwords (w # ws))"
    using assms(2) by (simp add: line find_handler_def words_ok_def white_def substr_def command_handlers_def)
  then have "dispatch_command env line s = run_handler env Freeze (unwords (w # ws)) s"
    by (intro dispatch_run) (auto simp: line)
  then show ?thesis
    using freeze_printed [OF assms(1-4)] ws by (simp add: execute_command_def run_handler_def report_def)
qed

text \<open>
  C12. Every command that \<open>frozen commands\<close> prints for a region with a one-word name, an address
  other than 0 and data whose text is one word, typed in at the prompt of an interactive shell,
  succeeds and registers a region equal to the printed one but for its index and error.
\<close>

theorem printed_freeze_command_roundtrip:
  assumes "typeable (env_phosg env) r" and "words_ok (env_phosg env)"
    and "parse_data_string (env_phosg env) [] = Inr ([], [])" and "interactive s"
    and "print_command (env_phosg env) r = line @ [CHR 0x0A]"
  shows "execute_command env line s = Some (Inr 0, s\<lparr>sh_freezer := registered r (sh_freezer s)\<rparr>)"
  by (rule printed_command_registers [OF assms])

end
