(* ===== verification/Signalable.thy ===== *)
theory Signalable
  imports Prelude
begin

text \<open>
  The class Signalable, the flags by which SIGINT cancels an operation, and the signal handler
  of Main.cc. The operations under \<open>Signalable::lock\<close> are atomic steps.
\<close>

section \<open>The registry\<close>

text \<open>Objects are known by their address; \<open>signaled\<close> is the member of each of them.\<close>

record signalables =
  all_signalables :: "nat list"
  signaled :: "nat \<Rightarrow> bool"

definition no_signalables :: signalables where
  "no_signalables = \<lparr>all_signalables = [], signaled = (\<lambda>_. False)\<rparr>"

definition construct :: "nat \<Rightarrow> signalables \<Rightarrow> signalables" where
  "construct p st =
     st\<lparr>all_signalables := List.insert p (all_signalables st), signaled := (signaled st)(p := False)\<rparr>"

definition destroy :: "nat \<Rightarrow> signalables \<Rightarrow> signalables" where
  "destroy p st = st\<lparr>all_signalables := removeAll p (all_signalables st)\<rparr>"

definition is_signaled :: "signalables \<Rightarrow> nat \<Rightarrow> bool" where
  "is_signaled st p = signaled st p"

fun signal_each :: "nat list \<Rightarrow> (nat \<Rightarrow> bool) \<Rightarrow> nat \<Rightarrow> bool" where
  "signal_each [] flags = flags"
| "signal_each (p # ps) flags = signal_each ps (flags(p := True))"

definition signal_all :: "signalables \<Rightarrow> bool \<times> signalables" where
  "signal_all st =
     (all_signalables st \<noteq> [],
      st\<lparr>signaled := signal_each (all_signalables st) (signaled st)\<rparr>)"

lemma signal_each_iff: "signal_each ps flags p \<longleftrightarrow> p \<in> set ps \<or> flags p"
  by (induction ps arbitrary: flags) auto

section \<open>The signal handler\<close>

record cancel_state =
  recent_cancel_time :: int
  recent_cancel_count :: u64
  registry :: signalables

definition initial_cancel_state :: cancel_state where
  "initial_cancel_state =
     \<lparr>recent_cancel_time = 0, recent_cancel_count = 0, registry = no_signalables\<rparr>"

text \<open>
  \<open>sigint_handler\<close> at time \<open>now\<close>: the message and the new state, or \<open>None\<close> for \<open>exit(0)\<close>.
\<close>

definition sigint_handler :: "int \<Rightarrow> cancel_state \<Rightarrow> (string option \<times> cancel_state) option" where
  "sigint_handler now st =
     (let signal = (\<lambda>st. case signal_all (registry st) of (any, reg) \<Rightarrow>
            Some (if any then Some '' -- canceling operation'' else None, st\<lparr>registry := reg\<rparr>))
      in if recent_cancel_time st = now
         then (if 1 < recent_cancel_count st then None
               else signal (st\<lparr>recent_cancel_count := recent_cancel_count st + 1\<rparr>))
         else signal (st\<lparr>recent_cancel_time := now, recent_cancel_count := 0\<rparr>))"

section \<open>Histories\<close>

text \<open>What happens to the program over time: objects come and go, and SIGINTs arrive.\<close>

datatype event = Constructed nat | Destroyed nat | Sigint int

fun run_events :: "event list \<Rightarrow> cancel_state \<Rightarrow> cancel_state option" where
  "run_events [] st = Some st"
| "run_events (Constructed p # es) st = run_events es (st\<lparr>registry := construct p (registry st)\<rparr>)"
| "run_events (Destroyed p # es) st = run_events es (st\<lparr>registry := destroy p (registry st)\<rparr>)"
| "run_events (Sigint now # es) st =
     (case sigint_handler now st of None \<Rightarrow> None | Some (_, st') \<Rightarrow> run_events es st')"

lemma run_events_append:
  "run_events (es @ fs) st = Option.bind (run_events es st) (run_events fs)"
  by (induction es st rule: run_events.induct) (auto split: option.splits)

definition is_sigint :: "event \<Rightarrow> bool" where
  "is_sigint e \<longleftrightarrow> (\<exists>now. e = Sigint now)"

text \<open>The handler's effect on the registry, whatever its clock says.\<close>

lemma handler_registry:
  "sigint_handler now st = Some (msg, st') \<Longrightarrow> registry st' = snd (signal_all (registry st))"
  by (auto simp: sigint_handler_def signal_all_def Let_def split: if_splits)

lemma run_events_flag:
  assumes "run_events es st = Some st'" and "p \<in> set (all_signalables (registry st))"
    and "Constructed p \<notin> set es" and "Destroyed p \<notin> set es"
  shows "is_signaled (registry st') p \<longleftrightarrow> is_signaled (registry st) p \<or> (\<exists>e \<in> set es. is_sigint e)"
  using assms
proof (induction es st rule: run_events.induct)
  case (4 now es st)
  then obtain msg st1 where h: "sigint_handler now st = Some (msg, st1)"
    and rest: "run_events es st1 = Some st'"
    by (auto split: option.splits)
  have "registry st1 = snd (signal_all (registry st))" by (rule handler_registry [OF h])
  then show ?case
    using "4.IH" [OF h refl rest] "4.prems"
    by (simp add: signal_all_def is_signaled_def is_sigint_def signal_each_iff)
qed (auto simp: construct_def destroy_def is_signaled_def is_sigint_def)

text \<open>
  C38. An operation sees the cancellation exactly when a SIGINT arrived since it began: for an
  object that lives through a history of other objects and signals, \<open>is_signaled\<close> is false
  right after its construction and true from the first signal on, never before.
\<close>

theorem signaled_iff_sigint_since_construction:
  assumes "run_events (Constructed p # es) st = Some st'"
    and "Constructed p \<notin> set es" and "Destroyed p \<notin> set es"
  shows "is_signaled (registry st') p \<longleftrightarrow> (\<exists>e \<in> set es. is_sigint e)"
proof -
  let ?st = "st\<lparr>registry := construct p (registry st)\<rparr>"
  have "run_events es ?st = Some st'" using assms(1) by simp
  from run_events_flag [OF this _ assms(2,3)] show ?thesis
    by (simp add: construct_def is_signaled_def)
qed

lemma signaled_iff_sigint_since_construction_witness:
  "\<exists>st'. run_events [Constructed 7, Constructed 8, Sigint 100, Destroyed 8] initial_cancel_state =
     Some st' \<and> is_signaled (registry st') 7"
proof -
  let ?es = "[Constructed 8, Sigint 100, Destroyed 8]"
  obtain st' where st': "run_events (Constructed 7 # ?es) initial_cancel_state = Some st'"
    by (simp add: initial_cancel_state_def sigint_handler_def signal_all_def no_signalables_def
        construct_def)
  have "is_signaled (registry st') 7 \<longleftrightarrow> (\<exists>e \<in> set ?es. is_sigint e)"
    by (rule signaled_iff_sigint_since_construction [OF st']) auto
  then show ?thesis using st' by (auto simp: is_sigint_def)
qed

section \<open>Repeated signals\<close>

lemma handler_same_second:
  "recent_cancel_time st = now \<Longrightarrow> recent_cancel_count st \<le> 1 \<Longrightarrow>
   \<exists>msg st'. sigint_handler now st = Some (msg, st') \<and> recent_cancel_time st' = now \<and>
     recent_cancel_count st' = recent_cancel_count st + 1"
  by (simp add: sigint_handler_def signal_all_def Let_def not_less)

lemma handler_new_second:
  "recent_cancel_time st \<noteq> now \<Longrightarrow>
   \<exists>msg st'. sigint_handler now st = Some (msg, st') \<and> recent_cancel_time st' = now \<and>
     recent_cancel_count st' = 0"
  by (simp add: sigint_handler_def signal_all_def Let_def)

lemma handler_exits:
  "recent_cancel_time st = now \<Longrightarrow> 1 < recent_cancel_count st \<Longrightarrow> sigint_handler now st = None"
  by (simp add: sigint_handler_def)

lemma signals_in_second:
  assumes "recent_cancel_time st = now" and "recent_cancel_count st \<le> 2"
  shows "run_events (replicate n (Sigint now)) st = None \<longleftrightarrow> 2 - unat (recent_cancel_count st) < n"
  using assms
proof (induction n arbitrary: st)
  case (Suc n)
  show ?case
  proof (cases "recent_cancel_count st \<le> 1")
    case True
    then obtain msg st' where h: "sigint_handler now st = Some (msg, st')"
      "recent_cancel_time st' = now" "recent_cancel_count st' = recent_cancel_count st + 1"
      using handler_same_second [OF Suc.prems(1)] by blast
    have le: "unat (recent_cancel_count st) \<le> 1" using True by (simp add: word_le_nat_alt)
    then have "unat (recent_cancel_count st + 1) = Suc (unat (recent_cancel_count st))"
      by (simp add: unat_word_ariths)
    with le show ?thesis
      using Suc.IH [OF h(2)] h(1,3) by (auto simp: word_le_nat_alt)
  next
    case False
    then have "1 < recent_cancel_count st" by simp
    moreover have "unat (recent_cancel_count st) = 2"
      using False Suc.prems(2) by (simp add: word_le_nat_alt)
    ultimately show ?thesis using handler_exits [OF Suc.prems(1)] by simp
  qed
qed simp

text \<open>
  The program ends on the fourth SIGINT of one second, not on the first one that finds
  nothing to cancel: whether operations are registered plays no part in the decision.
\<close>

theorem fourth_sigint_in_a_second_exits:
  assumes "recent_cancel_time st \<noteq> now"
  shows "run_events (replicate n (Sigint now)) st = None \<longleftrightarrow> 4 \<le> n"
proof (cases n)
  case (Suc m)
  obtain msg st' where "sigint_handler now st = Some (msg, st')"
    "recent_cancel_time st' = now" "recent_cancel_count st' = 0"
    using handler_new_second [OF assms] by blast
  then show ?thesis using signals_in_second [of st' now m] Suc by auto
qed simp

lemma fourth_sigint_in_a_second_exits_witness:
  "run_events (replicate 4 (Sigint 100)) initial_cancel_state = None"
  using fourth_sigint_in_a_second_exits [of initial_cancel_state 100 4]
  by (simp add: initial_cancel_state_def)

end
