(* ===== verification/MainProgram.thy ===== *)
theory MainProgram
  imports ShellMain Signalable
begin

text \<open>
  Main.cc: the command line, the choice of the process and the start of the shell. Strings of
  \<open>argv\<close> are C strings and hold no NUL.
\<close>

section \<open>The command line\<close>

record options =
  opt_pid :: int
  opt_process_name :: string
  opt_use_color :: bool
  opt_pause_target :: bool
  opt_allow_parent :: bool
  opt_max_results :: u64
  opt_max_search_iterations :: u64
  num_bad_arguments :: nat
  commands :: "string list"
  parsing_terminated :: bool

definition default_options :: options where
  "default_options =
     \<lparr>opt_pid = 0, opt_process_name = [], opt_use_color = True, opt_pause_target = False,
      opt_allow_parent = False, opt_max_results = 1024 * 1024 * 1024,
      opt_max_search_iterations = 5, num_bad_arguments = 0, commands = [],
      parsing_terminated = False\<rparr>"

text \<open>\<open>!strncmp(arg, p, n)\<close>, and \<open>&arg[n]\<close>, which must not lie behind the terminating NUL.\<close>

definition strncmp_eq :: "string \<Rightarrow> string \<Rightarrow> nat \<Rightarrow> bool" where
  "strncmp_eq arg p n \<longleftrightarrow> take n arg = take n p"

definition arg_from :: "string \<Rightarrow> nat \<Rightarrow> string res" where
  "arg_from arg n = (if n \<le> length arg then Inr (drop n arg) else Inl (Undefined Past_buffer))"

definition number_from :: "string \<Rightarrow> nat \<Rightarrow> u64 res" where
  "number_from arg n = res_bind (arg_from arg n) (\<lambda>rest. Inr (fst (strtoull rest 0)))"

definition parse_option :: "string \<Rightarrow> options \<Rightarrow> options res" where
  "parse_option arg o1 =
     (if arg = ''--'' then Inr (o1\<lparr>parsing_terminated := True\<rparr>)
      else if arg = ''-c'' \<or> arg = ''--no-color'' then Inr (o1\<lparr>opt_use_color := False\<rparr>)
      else if arg = ''-p'' \<or> arg = ''--pause-target'' then Inr (o1\<lparr>opt_pause_target := True\<rparr>)
      else if arg = ''-P'' \<or> arg = ''--allow-parent'' then Inr (o1\<lparr>opt_allow_parent := True\<rparr>)
      else if strncmp_eq arg ''-n'' 2 then
        res_bind (number_from arg 2) (\<lambda>v. Inr (o1\<lparr>opt_max_results := v\<rparr>))
      else if strncmp_eq arg ''--max-results='' 14 then
        res_bind (number_from arg 14) (\<lambda>v. Inr (o1\<lparr>opt_max_results := v\<rparr>))
      else if strncmp_eq arg ''-i'' 2 then
        res_bind (number_from arg 2) (\<lambda>v. Inr (o1\<lparr>opt_max_search_iterations := v\<rparr>))
      else if strncmp_eq arg ''--max-search-iterations='' 14 then
        res_bind (number_from arg 24) (\<lambda>v. Inr (o1\<lparr>opt_max_search_iterations := v\<rparr>))
      else Inr (o1\<lparr>num_bad_arguments := num_bad_arguments o1 + 1\<rparr>))"

text \<open>The process argument: a number, which is cut to 32 bits, and a name when text follows it.\<close>

definition parse_process :: "string \<Rightarrow> options \<Rightarrow> options" where
  "parse_process arg o1 =
     (case strtoull arg 0 of
        (v, pos) \<Rightarrow>
          (let o2 = o1\<lparr>opt_pid := sint (ucast v :: 32 word)\<rparr>
           in if pos < length arg then o2\<lparr>opt_process_name := arg\<rparr> else o2))"

definition add_command_word :: "string \<Rightarrow> string list \<Rightarrow> string list" where
  "add_command_word arg cmds =
     (if arg = '';'' then cmds @ [[]]
      else (let cmds' = (if cmds = [] then [[]] else cmds); cmd = last cmds'
            in butlast cmds' @ [(if cmd \<noteq> [] then cmd @ '' '' else cmd) @ arg]))"

definition parse_arg :: "string \<Rightarrow> options \<Rightarrow> options res" where
  "parse_arg arg o1 =
     (if \<not> parsing_terminated o1 \<and> char_at arg 0 = CHR ''-'' then parse_option arg o1
      else if \<not> parsing_terminated o1 \<and> opt_pid o1 = 0 \<and> opt_process_name o1 = []
      then Inr (parse_process arg o1)
      else Inr (o1\<lparr>commands := add_command_word arg (commands o1)\<rparr>))"

fun parse_argv :: "string list \<Rightarrow> options \<Rightarrow> options res" where
  "parse_argv [] o1 = Inr o1"
| "parse_argv (arg # args) o1 = res_bind (parse_arg arg o1) (parse_argv args)"

section \<open>The process\<close>

text \<open>What \<open>main\<close> asks the system: processes, its own ids, and a line of input.\<close>

record os =
  list_processes :: "(int \<times> string) list"
  own_pid :: int
  parent_pid :: int
  choice_line :: string

definition to_lower :: "char \<Rightarrow> char" where
  "to_lower c = (if 65 \<le> (of_char c :: nat) \<and> (of_char c :: nat) \<le> 90
                 then char_of ((of_char c :: nat) + 32) else c)"

fun starts_with :: "string \<Rightarrow> string \<Rightarrow> bool" where
  "starts_with s [] = True"
| "starts_with [] (c # p) = False"
| "starts_with (x # s) (c # p) = (x = c \<and> starts_with s p)"

fun contains_text :: "string \<Rightarrow> string \<Rightarrow> bool" where
  "contains_text [] p = (p = [])"
| "contains_text (x # s) p = (starts_with (x # s) p \<or> contains_text s p)"

definition strcasestr :: "string \<Rightarrow> string \<Rightarrow> bool" where
  "strcasestr s p = contains_text (map to_lower (c_str s)) (map to_lower (c_str p))"

definition matching_pids :: "os \<Rightarrow> bool \<Rightarrow> string \<Rightarrow> int list" where
  "matching_pids sys allow_parent name =
     (let parent = (if allow_parent then 0 else parent_pid sys)
      in sort (map fst (filter (\<lambda>(p, n). p \<noteq> own_pid sys \<and> p \<noteq> parent \<and> strcasestr n name)
           (list_processes sys))))"

text \<open>The outcome of the search for a process: its pid, or the return value of \<open>main\<close>.\<close>

datatype choice = Chosen int | Exit int

definition choose_process :: "os \<Rightarrow> options \<Rightarrow> choice" where
  "choose_process sys o1 =
     (let pids = matching_pids sys (opt_allow_parent o1) (opt_process_name o1)
      in if pids = [] then Exit 2
         else if 1 < length pids
         then (let choice_index = fst (strtoull (choice_line sys) 0)
               in if length pids \<le> unat choice_index then Exit 2 else Chosen (pids ! unat choice_index))
         else Chosen (pids ! 0))"

definition is_kernel :: "options \<Rightarrow> bool" where
  "is_kernel o1 \<longleftrightarrow> opt_process_name o1 = ''KERNEL''"

definition kernel_options :: "options \<Rightarrow> options" where
  "kernel_options o1 = (if is_kernel o1 then o1\<lparr>opt_pid := 0, opt_pause_target := False\<rparr> else o1)"

definition find_target :: "os \<Rightarrow> options \<Rightarrow> choice" where
  "find_target sys o1 =
     (case (if opt_process_name o1 \<noteq> [] \<and> opt_pid o1 = 0 \<and> \<not> is_kernel o1
            then choose_process sys o1 else Chosen (opt_pid o1)) of
        Exit n \<Rightarrow> Exit n
      | Chosen p \<Rightarrow>
          if p = 0 \<and> \<not> is_kernel o1 then Exit 1
          else if p = own_pid sys then Exit 2
          else Chosen p)"

section \<open>Running\<close>

fun run_commands :: "'k env \<Rightarrow> string list \<Rightarrow> 'k shell \<Rightarrow> (int res \<times> 'k shell) option" where
  "run_commands env [] sh = Some (Inr 0, sh)"
| "run_commands env (c # cs) sh =
     (case execute_command env c sh of
        None \<Rightarrow> None
      | Some (Inl f, sh') \<Rightarrow> Some (Inl f, sh')
      | Some (Inr ret, sh') \<Rightarrow> if ret \<noteq> 0 then Some (Inr ret, sh') else run_commands env cs sh')"

text \<open>
  The return value. An exception of the constructor is caught only on the way to the
  interactive interface; with commands on the command line it ends the program.
\<close>

definition run_shell :: "'k env \<Rightarrow> string list \<Rightarrow> options \<Rightarrow> int \<Rightarrow> 'k \<Rightarrow> int prog" where
  "run_shell env inputs o1 p k =
     (let is_inter = (commands o1 = []);
          sh = new_shell env p (opt_max_results o1) (opt_max_search_iterations o1)
                 (opt_pause_target o1) is_inter (opt_use_color o1) k
      in if \<not> is_inter
         then (case sh of
                 Inl f \<Rightarrow> Some (Inl (if is_exception f then Terminate else f))
               | Inr s \<Rightarrow> map_option fst (run_commands env (commands o1) s))
         else (case sh of
                 Inl f \<Rightarrow> Some (if is_exception f then Inr 3 else Inl f)
               | Inr s \<Rightarrow>
                   (case execute_commands env inputs [] s of
                      None \<Rightarrow> None
                    | Some (Inl f, _) \<Rightarrow> Some (if is_exception f then Inr 3 else Inl f)
                    | Some (Inr (ret, _), _) \<Rightarrow> Some (Inr ret))))"

definition run_main :: "'k env \<Rightarrow> os \<Rightarrow> string list \<Rightarrow> string list \<Rightarrow> 'k \<Rightarrow> int prog" where
  "run_main env sys argv inputs k =
     prog_bind (Some (parse_argv argv default_options)) (\<lambda>o1.
       if num_bad_arguments o1 \<noteq> 0 then Some (Inr 1)
       else (let o2 = kernel_options o1
             in case find_target sys o2 of
                  Exit n \<Rightarrow> Some (Inr n)
                | Chosen p \<Rightarrow> run_shell env inputs o2 p k))"

end
