(* ===== verification/MainProps.thy ===== *)
theory MainProps
  imports MainProgram
begin

text \<open>Properties of the command line: which process an argument names.\<close>

lemma parse_number_decimal:
  assumes "ds \<noteq> []" and "\<forall>c \<in> set ds. is_digit 10 c" and "hd ds \<noteq> CHR ''0''"
    and "rest = [] \<or> \<not> is_digit 10 (hd rest)"
  shows "parse_number 0 (ds @ rest) = Some (False, of_digits 10 ds, length ds)"
proof -
  obtain c cs where ds: "ds = c # cs" using assms(1) by (cases ds) auto
  have c: "is_digit 16 c" using assms(2) ds by (auto simp: is_digit_def split: option.splits)
  note special = digit_not_special [OF c]
  have not_hex: "\<not> hex_prefixed (ds @ rest)"
    using assms(3) ds by (cases "ds @ rest" rule: hex_prefixed.cases) auto
  have sp: "takeWhile is_space (ds @ rest) = []" using special ds by auto
  have tw: "takeWhile (is_digit 10) (ds @ rest) = ds"
    using assms(2,4) by (cases rest) (auto simp: takeWhile_append)
  have signs: "(hd (ds @ rest) = CHR ''+'') = False" "(hd (ds @ rest) = CHR ''-'') = False"
    "(hd (ds @ rest) = CHR ''0'') = False"
    using special ds assms(3) by auto
  show ?thesis
    unfolding parse_number_def Let_def sp list.size drop_0 signs simp_thms if_False
    by (simp add: tw not_hex assms(1))
qed

lemma of_nat_pid: "n < 2 ^ 31 \<Longrightarrow> sint (ucast (of_nat n :: u64) :: 32 word) = int n"
proof -
  assume n: "n < 2 ^ 31"
  have "(ucast (of_nat n :: u64) :: 32 word) = of_nat n"
    using n by (simp add: unsigned_of_nat take_bit_nat_eq_self)
  moreover have "sint (of_nat n :: 32 word) = int n"
    using n by (simp add: sint_uint signed_take_bit_int_eq_self uint_nat unat_of_nat)
  ultimately show ?thesis by simp
qed

lemma decimal_pid:
  assumes "ds \<noteq> []" and "\<forall>c \<in> set ds. is_digit 10 c" and "hd ds \<noteq> CHR ''0''"
    and "rest = [] \<or> \<not> is_digit 10 (hd rest)" and "of_digits 10 ds < 2 ^ 31"
  shows "snd (strtoull (ds @ rest) 0) = length ds"
    and "sint (ucast (fst (strtoull (ds @ rest) 0)) :: 32 word) = int (of_digits 10 ds)"
proof -
  have "strtoull (ds @ rest) 0 = (of_nat (of_digits 10 ds), length ds)"
    using parse_number_decimal [OF assms(1-4)] assms(5) by (simp add: strtoull_def)
  then show "snd (strtoull (ds @ rest) 0) = length ds"
    and "sint (ucast (fst (strtoull (ds @ rest) 0)) :: 32 word) = int (of_digits 10 ds)"
    using of_nat_pid [OF assms(5)] by simp_all
qed


end
