(* ===== verification/ShellWitness.thy ===== *)
theory ShellWitness
  imports FindProps ShellHistory ShellRegistry FreezeCommand MainProps SearchWitness
begin

text \<open>
  A small world in which the properties of the shell are applied: one task with one region of
  a page, whose memory and suspend count are the kernel state, and a phosg that splits and skips
  as documented and knows one data string. The shell pauses the task around its accesses.
\<close>

type_synonym image = "u64 \<Rightarrow> byte"

definition bytes_at :: "image \<Rightarrow> u64 \<Rightarrow> nat \<Rightarrow> byte list" where
  "bytes_at m a n = map (\<lambda>j. m (a + of_nat j)) [0..<n]"

definition stored :: "image \<Rightarrow> u64 \<Rightarrow> byte list \<Rightarrow> image" where
  "stored m a bs = (\<lambda>x. if unat (x - a) < length bs then bs ! unat (x - a) else m x)"

type_synonym world = "image \<times> nat"

definition page_mach :: "world mach" where
  "page_mach = \<lparr>
     task_for_pid = (\<lambda>k p. (KERN_SUCCESS, 7)),
     mach_vm_region = (\<lambda>k t x. if x < 8192 then (KERN_SUCCESS, 4096, 4096, rw_info) else (1, x, 0, rw_info)),
     mach_vm_read_overwrite = (\<lambda>k t x n. (KERN_SUCCESS, bytes_at (fst k) x (unat n))),
     mach_vm_write = (\<lambda>k t x bs. if length bs \<le> 4096 then (KERN_SUCCESS, stored (fst k) x bs, snd k) else (1, k)),
     mach_vm_protect = (\<lambda>k t x n p. (KERN_SUCCESS, k)),
     vm_allocate = (\<lambda>k t x n b. (1, x, k)),
     vm_deallocate = (\<lambda>k t x n. (1, k)),
     task_suspend = (\<lambda>k t. (KERN_SUCCESS, fst k, snd k + 1)),
     task_resume = (\<lambda>k t. if snd k = 0 then (5, k) else (KERN_SUCCESS, fst k, snd k - 1)),
     task_terminate = (\<lambda>k t. (1, k)),
     task_threads = (\<lambda>k t. (1, [])),
     thread_terminate = (\<lambda>k t. (1, k))\<rparr>"

definition word_phosg :: phosg where
  "word_phosg = \<lparr>string_printf = (\<lambda>f _. f), split_string = (\<lambda>s c. if s = [] then [] else split_on c s),
     skip_whitespace = (\<lambda>s i. i + length (takeWhile white (drop i s))),
     skip_non_whitespace = (\<lambda>s i. i + length (takeWhile (\<lambda>c. \<not> white c) (drop i s))),
     parse_data_string = (\<lambda>s. if s = ''2A'' then Inr ([42], [255]) else Inr ([], [])),
     format_data_string = (\<lambda>d m. ''2A''), format_size = (\<lambda>n. []), print_data = (\<lambda>d a prev flags. [])\<rparr>"

definition page_env :: "world env" where
  "page_env = \<lparr>env_mach = page_mach, env_phosg = word_phosg, env_encoding = reference_encoding,
     stof = (\<lambda>s. Inr 0), stod = (\<lambda>s. Inr 0), pid_for_name = (\<lambda>k n. Inr 42),
     name_for_pid = (\<lambda>k p. Inr ''game''), kill_process = (\<lambda>k p n. (0, k)),
     save_file = (\<lambda>k f d. (Inr (), k)), fopen_unique = (\<lambda>k f m. (Inr (), k)),
     format_now = (\<lambda>k. ''now''), sleep = (\<lambda>k n. k), signals = (\<lambda>k. 0),
     find_poll = (\<lambda>k i z. False), past_end = Some 0, new_string = (\<lambda>n. Inr ())\<rparr>"

lemma page_table:
  "table_kernel page_mach t {k} [(4096, 4096)]" "table_wf [(4096, 4096)]"
  by (auto simp: table_kernel_def table_wf_def page_mach_def bytes_at_def KERN_SUCCESS_def)

lemma page_world: "world_ok page_env (\<lambda>k t. [(4096, 4096)])"
proof -
  have "table_wf [(4096, 4096)]" by (simp add: table_wf_def)
  moreover have "table_kernel page_mach t UNIV [(4096, 4096)]" for t
    by (auto simp: table_kernel_def page_mach_def bytes_at_def KERN_SUCCESS_def)
  ultimately show ?thesis by (simp add: world_ok_def tables_ok_def page_env_def)
qed

lemma words_ok_page: "words_ok (env_phosg page_env)"
  by (simp add: words_ok_def page_env_def word_phosg_def)

section \<open>Witnesses\<close>

text \<open>
  A string of 4097 bytes is looked for in a region of two pages, and one of 4098 bytes in a
  region of a single page.
\<close>

theorem find_outcomes_witness:
  "find_results_in (\<lambda>i z. False) (replicate 4097 1) (replicate 4097 255)
     [(region_of_info 4096 8192 rw_info)\<lparr>region_data := replicate 8192 0\<rparr>] = None \<and>
   find_results_in (\<lambda>i z. False) (replicate 4098 1) (replicate 4098 255)
     [(region_of_info 4096 4096 rw_info)\<lparr>region_data := replicate 4096 0\<rparr>] = Some (Inl (Undefined Past_buffer))"
proof -
  let ?r = "(region_of_info 4096 8192 rw_info)\<lparr>region_data := replicate 8192 0\<rparr>"
  let ?q = "(region_of_info 4096 4096 rw_info)\<lparr>region_data := replicate 4096 0\<rparr>"
  have wf: "regions_wf [?r]" "regions_wf [?q]"
    by (simp_all add: regions_wf_def region_wf_def region_of_info_def)
  have pages: "\<forall>r \<in> set [?r]. 0x1000 dvd unat (region_size r)" "\<forall>r \<in> set [?q]. 0x1000 dvd unat (region_size r)"
    by (simp_all add: region_of_info_def)
  have over: "\<not> (\<exists>r \<in> set [?r]. overrun 4097 r)" "\<exists>r \<in> set [?q]. overrun 4098 r"
    by (simp_all add: overrun_def region_of_info_def)
  have mask: "\<exists>i < length (replicate 4098 1 :: byte list). replicate 4098 (255 :: byte) ! i \<noteq> 0"
    by (intro exI [of _ 0]) (simp add: nth_replicate)
  have data: "\<not> (\<forall>r \<in> set [?r]. region_data r = [])" by simp
  show ?thesis
    using find_outcomes [OF wf(1) pages(1), of "replicate 4097 255" "replicate 4097 1" "\<lambda>i z. False"]
      find_outcomes [OF wf(2) pages(2), of "replicate 4098 255" "replicate 4098 1" "\<lambda>i z. False"]
      over mask data by simp
qed

text \<open>A shell is started and a search opened.\<close>

definition game_shell :: "world shell" where
  "game_shell = \<lparr>sh_adapter = \<lparr>pid = 42, task = 7\<rparr>, sh_freezer = new_freezer, sh_pid = 42,
     process_name = ''game'', pause_target = True, watch = False, interactive = True, run = True,
     use_color = False, num_commands_run = 0, max_results = 1, max_search_iterations = 5,
     name_to_searches = [], current_search_name = [], find_results = [], kernel = (\<lambda>_. 0, 0), printed = []\<rparr>"

lemma game_start: "new_shell page_env 42 1 5 True True False (\<lambda>_. 0, 0) = Inr game_shell"
  by (simp add: new_shell_def attach_def page_env_def page_mach_def game_shell_def KERN_SUCCESS_def)

definition with_search :: "world shell" where
  "with_search = game_shell\<lparr>name_to_searches := [(''a'', [new_memory_search UINT8 False])],
     current_search_name := ''a'',
     printed := [Printf (''opened new %s search named %s'' @ nl) [PStr (name_for_search_type UINT8), PStr ''a'']]\<rparr>"

lemma open_u8: "execute_command page_env ''o u8 a'' game_shell = Some (Inr 0, with_search)"
proof -
  have "find_handler word_phosg ''o u8 a'' = Inr (Open_cmd, ''u8 a'')"
    by (simp add: find_handler_def word_phosg_def white_def substr_def command_handlers_def)
  then have "dispatch_command page_env ''o u8 a'' game_shell = command_open page_env ''u8 a'' game_shell"
    by (subst dispatch_run) (auto simp: page_env_def run_handler_def)
  also have "\<dots> = Some (Inr (), with_search)"
    by (simp add: command_open_def interactive_only_def split_args_def page_env_def word_phosg_def
        game_shell_def open_new_def open_type_def c_str_def search_type_for_name_def
        search_type_names_def find_char_def replace_search_def close_unnamed_def omap_erase_def
        with_search_def Let_def name_for_search_type.simps)
  finally show ?thesis by (simp add: execute_command_def report_def)
qed

theorem session_searches_consistent_witness:
  "session page_env with_search \<and> \<not> watch with_search \<and>
   sorted_wrt (<) (map fst (name_to_searches with_search))"
proof -
  have "session page_env with_search"
    by (rule session.step [OF session.start [OF game_start] session_step.command [OF open_u8]])
  then show ?thesis using session_searches_consistent [OF _ page_world] by blast
qed

theorem freeze_drops_spaces_witness:
  "parse_freeze_args game_shell (split_on (CHR '' '') (hex016 4096 @ '' a b'')) no_freeze_args =
     Inr (no_freeze_args\<lparr>fa_addr_arg := hex016 4096, fa_addr := 4096, fa_data := ''ab''\<rparr>)"
  using freeze_drops_spaces [of 4096 "''a b''" game_shell] by simp

definition frozen_lives :: frozen where
  "frozen_lives = new_region ''lives'' 3 4096 [42] False"

lemma lives_line:
  "print_command (env_phosg page_env) frozen_lives = ''f +nlives 0000000000001000 2A +d'' @ [CHR 0x0A]"
  "typeable (env_phosg page_env) frozen_lives" "parse_data_string (env_phosg page_env) [] = Inr ([], [])"
  "interactive game_shell" "sh_freezer game_shell = new_freezer"
proof -
  have hex: "hex016 4096 = ''0000000000001000''" by code_simp
  show "print_command (env_phosg page_env) frozen_lives = ''f +nlives 0000000000001000 2A +d'' @ [CHR 0x0A]"
    by (simp add: print_command_def frozen_lives_def new_region_def hex c_str_def page_env_def word_phosg_def)
  show "typeable (env_phosg page_env) frozen_lives"
    by (simp add: typeable_def frozen_lives_def new_region_def text_ok_def page_env_def word_phosg_def
        c_str_def white_def)
qed (simp_all add: page_env_def word_phosg_def game_shell_def)

theorem printed_freeze_command_roundtrip_witness:
  "execute_command page_env ''f +nlives 0000000000001000 2A +d'' game_shell =
     Some (Inr 0, game_shell\<lparr>sh_freezer := registered frozen_lives new_freezer\<rparr>)"
  using printed_freeze_command_roundtrip [OF lives_line(2) words_ok_page lives_line(3,4,1)] lives_line(5) by simp

definition with_region :: "world shell" where
  "with_region = game_shell\<lparr>sh_freezer := registered frozen_lives new_freezer\<rparr>"

lemma region_session: "session page_env with_region"
proof -
  have "execute_command page_env ''f +nlives 0000000000001000 2A +d'' game_shell = Some (Inr 0, with_region)"
    using printed_command_registers [OF lives_line(2) words_ok_page lives_line(3,4,1)] lives_line(5)
    by (simp add: with_region_def)
  then show ?thesis
    by (rule session.step [OF session.start [OF game_start] session_step.command])
qed

theorem session_registry_consistent_witness:
  "regions_by_index (sh_freezer with_region) = [(0, 0)] \<and>
   regions_by_name (sh_freezer with_region) = [(''lives'', 0)] \<and>
   0 < length (objects (sh_freezer with_region)) \<and> rgn_index (objects (sh_freezer with_region) ! 0) = 0 \<and>
   rgn_name (objects (sh_freezer with_region) ! 0) = ''lives''"
proof -
  have fz: "regions_by_index (sh_freezer with_region) = [(0, 0)]"
    "regions_by_name (sh_freezer with_region) = [(''lives'', 0)]" "length (objects (sh_freezer with_region)) = 1"
    by (simp_all add: with_region_def game_shell_def registered_def add_region_def new_freezer_def Let_def
        multi_emplace_def frozen_lives_def new_region_def)
  then show ?thesis using session_registry_consistent [OF region_session] by auto
qed

text \<open>Commands on the session with one search and on the one with one region.\<close>

lemma search_session: "session page_env with_search"
  by (rule session.step [OF session.start [OF game_start] session_step.command [OF open_u8]])

lemma page_count: "steady_count page_mach t snd"
  by (auto simp: steady_count_def suspend_counted_def page_mach_def KERN_SUCCESS_def split: if_splits)

lemma page_library: "library_ok is_exception page_env"
  using page_count by (auto simp: library_ok_def page_env_def word_phosg_def)

text \<open>A guarded body that returns runs between a pause and a resume of the task.\<close>

lemma page_guarded:
  assumes "kernel s = (i, n)" and "\<And>c. m (sh_adapter s) (i, c) = Some (r, j, c)"
  shows "guarded page_env m s = Some (r, s\<lparr>kernel := (j, n)\<rparr>)"
  using assms by (cases "pause_target s")
    (simp_all add: guarded_def with_pause_guard_def pause_def resume_def page_env_def page_mach_def KERN_SUCCESS_def)

theorem commands_return_witness:
  "\<exists>ret s'. execute_command page_env ''s a all'' with_search = Some (ret, s')"
proof -
  have "command_of page_env ''s a all'' = Some Search"
    by (simp add: command_of_def find_handler_def page_env_def word_phosg_def white_def substr_def command_handlers_def)
  then show ?thesis using commands_return [OF search_session page_world] by simp
qed

theorem commands_survive_witness:
  "\<exists>ret s'. execute_command page_env ''unfreeze *'' with_region = Some (Inr ret, s') \<and> (ret = 0 \<or> ret = 1)"
proof -
  have "command_of page_env ''unfreeze *'' = Some Unfreeze"
    by (simp add: command_of_def find_handler_def page_env_def word_phosg_def white_def substr_def command_handlers_def)
  then show ?thesis using commands_survive [OF region_session page_world page_library] by auto
qed

definition u8_initial :: memory_search where
  "u8_initial = (new_memory_search UINT8 False)\<lparr>memory := Some []\<rparr>"

text \<open>No signal ever comes in this world: the watched command does not return.\<close>

theorem watched_results_stop_at_signal_witness:
  "command_results page_env ''a'' (with_search\<lparr>watch := True, name_to_searches := [(''a'', [u8_initial])]\<rparr>) = None"
  using watched_results_stop_at_signal [OF page_world,
      of "with_search\<lparr>watch := True, name_to_searches := [(''a'', [u8_initial])]\<rparr>" "''a''" u8_initial]
  by (simp add: with_search_def game_shell_def get_latest_search_def get_searches_def search_key_def opt_name_def
      has_memory_snapshot_def u8_initial_def page_env_def)

theorem trim_iterations_outcome_witness:
  "trim_iterations 1 [u8_initial, new_memory_search UINT8 False] = Inr [new_memory_search UINT8 False] \<and>
   trim_iterations (- 1) [u8_initial] = Inl (Undefined Bad_erase)"
  using trim_iterations_outcome [of "[u8_initial, new_memory_search UINT8 False]" 1]
    trim_iterations_outcome [of "[u8_initial]" "- 1"]
  by (simp add: unsigned_minus_1_eq_mask mask_eq_exp_minus_1)

lemma length_bytes_at [simp]: "length (bytes_at m a n) = n"
  by (simp add: bytes_at_def)

lemma bytes_at_Nil [simp]: "bytes_at m a n = [] \<longleftrightarrow> n = 0"
  by (simp add: bytes_at_def)

text \<open>The snapshot of the page, for a first search and for a search with results.\<close>

definition page_of :: "image \<Rightarrow> region" where
  "page_of k = (region_of_info 4096 4096 rw_info)\<lparr>region_data := bytes_at k 4096 4096\<rparr>"

lemma page_of_simps [simp]:
  "region_addr (page_of k) = 4096" "region_size (page_of k) = 4096" "region_data (page_of k) = bytes_at k 4096 4096"
  by (simp_all add: page_of_def region_of_info_def)

lemma page_region:
  "read_if page_mach ph ad True (region_of_info 4096 4096 rw_info) (k, c) = (Inr (page_of k), k, c)"
  "x < 8192 \<Longrightarrow> get_region page_mach ph ad x True (k, c) = (Inr (page_of k), k, c)"
  "x < 8192 \<Longrightarrow> get_region page_mach ph ad x False (k, c) = (Inr (region_of_info 4096 4096 rw_info), k, c)"
  "\<not> x < 8192 \<Longrightarrow> get_region page_mach ph ad x rd (k, c) = (Inl (Throw (Out_of_range ''no region found'')), k, c)"
proof -
  show read: "read_if page_mach ph ad True (region_of_info 4096 4096 rw_info) (k, c) = (Inr (page_of k), k, c)"
    by (simp add: read_if_def try_read_region_def read_region_def read_bytes_def page_of_def Let_def
        set_protection_def page_mach_def KERN_SUCCESS_def region_of_info_def prot_of_info_def rw_info_def)
  show "x < 8192 \<Longrightarrow> get_region page_mach ph ad x True (k, c) = (Inr (page_of k), k, c)"
    "x < 8192 \<Longrightarrow> get_region page_mach ph ad x False (k, c) = (Inr (region_of_info 4096 4096 rw_info), k, c)"
    "\<not> x < 8192 \<Longrightarrow> get_region page_mach ph ad x rd (k, c) = (Inl (Throw (Out_of_range ''no region found'')), k, c)"
    using read by (simp_all add: get_region_def page_mach_def KERN_SUCCESS_def read_if_def)
qed

lemma page_end [simp]: "end_addr (page_of k) = 8192" "end_addr (region_of_info 4096 4096 rw_info) = 8192"
  "region_addr (region_of_info 4096 4096 rw_info) = 4096"
  by (simp_all add: end_addr_def region_of_info_def page_of_def)

lemma page_snapshots:
  "get_all_regions page_mach ph ad True (k, c) = Some (Inr [page_of k], k, c)"
  "get_target_regions page_mach ph ad (Some 0) [4096] True (k, c) = Some (Inr [page_of k], k, c)"
proof -
  have "get_all_regions_from page_mach ph ad True 8192 [page_of k] (k, c) = Some (Inr [page_of k], k, c)"
    by (subst get_all_regions_from.simps) (simp add: page_region)
  then show "get_all_regions page_mach ph ad True (k, c) = Some (Inr [page_of k], k, c)"
    unfolding get_all_regions_def by (subst get_all_regions_from.simps) (simp add: page_region)
  have "get_target_regions_from page_mach ph ad (Some 0) True [4096] 8192 [page_of k] (k, c) = Some (Inr [page_of k], k, c)"
    by (subst get_target_regions_from.simps) (simp add: page_region)
  then show "get_target_regions page_mach ph ad (Some 0) [4096] True (k, c) = Some (Inr [page_of k], k, c)"
    unfolding get_target_regions_def by (subst get_target_regions_from.simps) (simp add: page_region)
qed


text \<open>A snapshot is taken while the task is paused, and the task is resumed after it.\<close>

lemma page_snapshot:
  assumes "kernel s = (k, n)" and "sh_adapter s = \<lparr>pid = 42, task = 7\<rparr>"
    and "has_valid_results x \<Longrightarrow> results x = [4096]"
  shows "snapshot_for page_env x s = Some (Inr [page_of k], s)"
proof -
  have "snapshot_for page_env x s = Some (Inr [page_of k], s\<lparr>kernel := (k, n)\<rparr>)"
    unfolding snapshot_for_def using assms(3)
    by (intro page_guarded [OF assms(1)]) (simp add: page_snapshots page_env_def)
  then show ?thesis using assms(1) by (cases s) simp
qed

text \<open>A search for everything takes a snapshot; \<open>undo\<close> drops it again.\<close>

lemma search_all: "\<exists>s1. run_search page_env ''a'' ALL_P [] [] with_search = Some (Inr (), s1)"
proof -
  let ?x = "new_memory_search UINT8 False"
  let ?rs = "[page_of (\<lambda>_. 0)]"
  have snap: "snapshot_for page_env ?x with_search = Some (Inr ?rs, with_search)"
    by (rule page_snapshot) (simp_all add: with_search_def game_shell_def has_valid_results_def new_memory_search_def)
  let ?y = "?x\<lparr>memory := Some ?rs\<rparr>"
  have check: "check_can_update ?x ALL_P [] = Inr ()"
    by (simp add: check_can_update_def new_memory_search_def evaluator_for_all)
  have up: "update (env_encoding page_env) (set_annotation [] ?x) ?rs ALL_P [] 1 = Some (Inr ?y)"
    using check by (simp add: update_def set_annotation_def new_memory_search_def Let_def)
  have trim: "trim_iterations 5 [?x, ?y] = Inr [?x, ?y]"
    using trim_outcome [of "[?x, ?y]" 5] by simp
  have fields: "max_results with_search = 1" "max_search_iterations with_search = 5"
    by (simp_all add: with_search_def game_shell_def)
  have "results ?y = []" by (simp add: new_memory_search_def)
  then have "print_search_results page_env ?y = sret ()"
    by (simp add: print_search_results_def)
  then have "\<exists>s1. finish_search page_env ''a'' ALL_P [] [?x] [] ?rs with_search = Some (Inr (), s1)"
    using up trim by (simp add: finish_search_def slift_prog_def set_searches_def fields)
  moreover have "get_searches (Some ''a'') with_search = Inr [?x]"
    by (simp add: get_searches_def search_key_def with_search_def)
  ultimately show ?thesis
    using check snap by (simp add: run_search_finish)
qed

theorem undo_reverts_search_witness:
  "\<exists>s1 s2. run_search page_env ''a'' ALL_P [] [] with_search = Some (Inr (), s1) \<and>
     command_undo ''a'' s1 = Some (Inr (), s2) \<and> name_to_searches s2 = name_to_searches with_search"
proof -
  obtain s1 where s1: "run_search page_env ''a'' ALL_P [] [] with_search = Some (Inr (), s1)"
    using search_all by blast
  have "interactive with_search" "get_searches (Some ''a'') with_search = Inr [new_memory_search UINT8 False]"
    "max_search_iterations with_search = 5"
    by (simp_all add: get_searches_def search_key_def with_search_def game_shell_def)
  then show ?thesis using undo_reverts_search [OF search_session page_world s1] s1 by auto
qed



end
