(* ===== verification/ValueText.thy ===== *)
theory ValueText
  imports ShellSearch EvaluatorProps
begin

text \<open>
  Values as they are typed and as they are printed: for the integer types \<open>results\<close> prints the
  number that \<open>search\<close> or \<open>set\<close> was given, reduced to the width and signedness of the type.
\<close>

section \<open>Swapping the bytes of the union\<close>

lemma swap_union_rev:
  assumes "bswap_ok enc" and "sz \<le> length d" and "sz \<in> {2, 4, 8}"
  shows "swap_union enc sz d = rev (take sz d) @ drop sz d"
proof -
  have bytes: "to_le n (le_nat (rev bs)) = rev bs" if "length bs = n" for n bs
    using to_le_le_nat [of "rev bs"] that by simp
  have len: "length (take sz d) = sz" using assms(2) by simp
  show ?thesis
    using assms(1,3) len bytes [OF len] by (auto simp: swap_union_def bswap_ok_def simp del: to_le.simps length_take)
qed

lemma swap_union_twice:
  assumes "bswap_ok enc" and "sz \<le> length d" and "sz \<in> {2, 4, 8}"
  shows "swap_union enc sz (take sz (swap_union enc sz d)) = take sz d"
  using assms by (simp add: swap_union_rev)

section \<open>The round trip\<close>

lemma take_to_le: "k \<le> n \<Longrightarrow> take k (to_le n v) = to_le k v"
proof (induction n v arbitrary: k rule: to_le.induct)
  case (2 n v)
  then show ?case by (cases k) simp_all
qed simp

definition signed_type :: "search_type \<Rightarrow> bool" where
  "signed_type t \<longleftrightarrow> t \<in> {INT8, INT16, INT16_RE, INT32, INT32_RE, INT64, INT64_RE}"


text \<open>What the integer types print: the number of the bytes, read with the sign of the type.\<close>

definition printed_int :: "search_type \<Rightarrow> byte list \<Rightarrow> int" where
  "printed_int t bytes =
     (if signed_type t then signed_take_bit (8 * value_size_for_search_type t - 1) (int (le_nat bytes))
      else int (le_nat bytes))"

lemma value_format_int:
  assumes "is_integer_search_type t" and "\<not> is_reverse_endian_search_type t"
  shows "\<exists>fmt. value_format enc t d = (fmt, [PInt (printed_int t d), PInt (printed_int t d)])"
  using assms
  by (cases t) (simp_all add: value_format_def printed_int_def signed_type_def is_integer_search_type_def
      is_reverse_endian_search_type_def Let_def value_size_for_search_type_def)

lemma value_format_swapped:
  assumes "is_integer_search_type t" and "is_reverse_endian_search_type t"
  shows "\<exists>fmt. value_format enc t d = (fmt,
    [PInt (printed_int t (swap_union enc (value_size_for_search_type t) d)),
     PInt (printed_int t (swap_union enc (value_size_for_search_type t) d))])"
  using assms
  by (cases t) (simp_all add: value_format_def printed_int_def signed_type_def is_integer_search_type_def
      is_reverse_endian_search_type_def Let_def value_size_for_search_type_def)

lemma stored_integer:
  assumes "bswap_ok (env_encoding env)" and "is_integer_search_type t" and "stoull s 0 = Inr (v, n)"
  shows "\<exists>d. read_typed_value env t s = Inr d \<and>
    (if is_reverse_endian_search_type t then swap_union (env_encoding env) (value_size_for_search_type t) d else d) =
      to_le (value_size_for_search_type t) (unat v)"
proof -
  let ?sz = "value_size_for_search_type t"
  have t: "t \<noteq> DATA" "?sz \<le> 8" "is_reverse_endian_search_type t \<Longrightarrow> ?sz \<in> {2, 4, 8}"
    using assms(2) by (cases t; simp add: is_integer_search_type_def is_reverse_endian_search_type_def
        value_size_for_search_type_def)+
  then have "swap_union (env_encoding env) ?sz (take ?sz (swap_union (env_encoding env) ?sz (to_le 8 (unat v)))) =
      to_le ?sz (unat v)" if "is_reverse_endian_search_type t"
    using swap_union_twice [OF assms(1), of ?sz "to_le 8 (unat v)"] that by (simp add: take_to_le del: to_le.simps)
  then show ?thesis
    using assms(2,3) t(1,2) by (auto simp: read_typed_value_def Let_def take_to_le simp del: to_le.simps)
qed

text \<open>
  C24. A number that is typed for an integer type, in either byte order, is printed as that
  number modulo the width of the type, as a negative number when the type is signed and the
  top bit is set. (phosg's byte swaps are taken at their documented meaning.)
\<close>

theorem typed_value_prints:
  assumes "bswap_ok (env_encoding env)" and "is_integer_search_type t" and "stoull s 0 = Inr (v, n)"
  defines "w \<equiv> 8 * value_size_for_search_type t"
  shows "\<exists>d fmt. read_typed_value env t s = Inr d \<and>
    value_format (env_encoding env) t d = (fmt,
      if signed_type t then [PInt (signed_take_bit (w - 1) (uint v)), PInt (signed_take_bit (w - 1) (uint v))]
      else [PInt (uint v mod 2 ^ w), PInt (uint v mod 2 ^ w)])"
proof -
  let ?sz = "value_size_for_search_type t"
  obtain d where d: "read_typed_value env t s = Inr d"
    "(if is_reverse_endian_search_type t then swap_union (env_encoding env) ?sz d else d) = to_le ?sz (unat v)"
    using stored_integer [OF assms(1-3)] by blast
  have "\<not> w \<le> w - 1" unfolding w_def using assms(2) by (cases t) (simp_all add: is_integer_search_type_def value_size_for_search_type_def)
  moreover have "int (le_nat (to_le ?sz (unat v))) = take_bit w (uint v)"
    by (simp add: le_nat_to_le w_def take_bit_eq_mod power_mult zmod_int)
  ultimately have "printed_int t (to_le ?sz (unat v)) =
      (if signed_type t then signed_take_bit (w - 1) (uint v) else uint v mod 2 ^ w)"
    by (simp add: printed_int_def w_def signed_take_bit_take_bit take_bit_eq_mod [symmetric] not_le)
  moreover have "\<exists>fmt. value_format (env_encoding env) t d =
      (fmt, [PInt (printed_int t (to_le ?sz (unat v))), PInt (printed_int t (to_le ?sz (unat v)))])"
    using value_format_int [OF assms(2), of "env_encoding env" d]
      value_format_swapped [OF assms(2), of "env_encoding env" d] d(2)
    by (cases "is_reverse_endian_search_type t") (simp_all del: to_le.simps)
  ultimately show ?thesis using d(1) by auto
qed


end
