(* ===== verification/WriteWitness.thy ===== *)
theory WriteWitness
  imports ShellWrite ShellWitness ValueText
begin

text \<open>
  The properties of \<open>set\<close> applied: in the world of ShellWitness a search for 0 finds the first
  byte of the page, \<open>set 7\<close> changes it, and a search for 7 keeps it.
\<close>

lemma page_memory: "memory_ok page_mach t fst"
proof -
  have "stored m a bs (a + of_nat j) = bs ! j" if "length bs \<le> 4096" "j < length bs" for m a bs j
    using that by (simp add: stored_def unat_of_nat)
  moreover have "stored m a bs x = m x" if "x \<notin> footprint a (length bs)" for m a bs x
  proof -
    have "x = a + of_nat (unat (x - a))" by simp
    then have "\<not> unat (x - a) < length bs" using that unfolding footprint_def by blast
    then show ?thesis by (simp add: stored_def)
  qed
  ultimately show ?thesis
    by (simp add: memory_ok_def write_stores_def page_mach_def bytes_at_def KERN_SUCCESS_def)
qed

section \<open>A search for zero\<close>

definition found_zero :: "string \<Rightarrow> memory_search" where
  "found_zero an = (set_annotation an (new_memory_search UINT8 False))\<lparr>results := [4096],
     results_valid := True, prev_size := 1, memory := Some [page_of (\<lambda>_. 0)]\<rparr>"

lemma u8_entry: "evaluator_for UINT8 EQUAL = Some (Op_function EQ U8)" "field_size UINT8 = 1"
  by code_simp+

lemma first_byte: "load 1 (at_offset (bytes_at k 4096 4096) 0) = Inr [k 4096]" "load 1 (at_offset [b] 0) = Inr [b]"
proof -
  have "take 1 (bytes_at k 4096 4096) = [k 4096]"
    unfolding bytes_at_def take_map by (simp add: take_upt del: upt_rec_numeral)
  then show "load 1 (at_offset (bytes_at k 4096 4096) 0) = Inr [k 4096]" by (simp add: load_def at_offset_def)
qed (simp add: load_def at_offset_def)

lemma first_byte_equal:
  "run_evaluator enc (Op_function EQ U8) (at_offset (bytes_at k 4096 4096) 0) (at_offset [b] 0) n = Inr (k 4096 = b)"
proof -
  have "le_nat [x] = le_nat [y] \<longleftrightarrow> x = y" for x y by (simp add: word_unat_eq_iff)
  then show ?thesis using first_byte by (simp add: load2_def)
qed

lemma scan_page:
  "scan_region enc (Op_function EQ U8) 1 [0] 1 (page_of (\<lambda>_. 0)) 0 [] = Some (Inr [4096])"
proof -
  have "scan_region enc (Op_function EQ U8) 1 [0] 1 (page_of (\<lambda>_. 0)) 1 [4096] = Some (Inr [4096])"
    by (subst scan_region.simps) simp
  then show ?thesis
    by (subst scan_region.simps) (simp add: first_byte_equal del: run_evaluator.simps)
qed

lemma update_zero:
  "update enc (set_annotation an (new_memory_search UINT8 False)) [page_of (\<lambda>_. 0)] EQUAL [0] 1 =
     Some (Inr (found_zero an))"
proof -
  have "check_can_update (set_annotation an (new_memory_search UINT8 False)) EQUAL [0] = Inr ()"
    by (simp add: check_can_update_def set_annotation_def new_memory_search_def u8_entry value_size_for_search_type_def)
  then show ?thesis
    using scan_page [of enc]
    by (simp add: update_def found_zero_def set_annotation_def new_memory_search_def u8_entry prog_bind_def Let_def)
qed

lemma typed_u8:
  "read_typed_value page_env UINT8 ''0'' = Inr [0]" "read_typed_value page_env UINT8 ''7'' = Inr [7]"
proof -
  have "parse_number 0 ''0'' = Some (False, 0, 1)" "parse_number 0 ''7'' = Some (False, 7, 1)" by code_simp+
  then have "stoull ''0'' 0 = Inr (0, 1)" "stoull ''7'' 0 = Inr (7, 1)" by (simp_all add: stoull_def)
  moreover have "take 1 (to_le 8 v) = [of_nat v]" for v
    using to_le.simps(2) [of 7 v] by (simp del: to_le.simps)
  ultimately show "read_typed_value page_env UINT8 ''0'' = Inr [0]" "read_typed_value page_env UINT8 ''7'' = Inr [7]"
    by (simp_all add: read_typed_value_def is_integer_search_type_def is_reverse_endian_search_type_def
        value_size_for_search_type_def del: to_le.simps)
qed


definition found_shell :: "string \<Rightarrow> out list \<Rightarrow> world shell" where
  "found_shell an out = with_search\<lparr>printed := out,
     name_to_searches := [(''a'', [new_memory_search UINT8 False, found_zero an])]\<rparr>"

lemma with_search_fields [simp]:
  "max_results with_search = 1" "max_search_iterations with_search = 5" "interactive with_search"
  "pause_target with_search = True" "sh_adapter with_search = \<lparr>pid = 42, task = 7\<rparr>"
  "kernel with_search = (\<lambda>_. 0, 0)" "current_search_name with_search = ''a''"
  "name_to_searches with_search = [(''a'', [new_memory_search UINT8 False])]"
  by (simp_all add: with_search_def game_shell_def)

lemma page_env_fields [simp]:
  "env_mach page_env = page_mach" "env_phosg page_env = word_phosg" "env_encoding page_env = reference_encoding"
  "past_end page_env = Some 0" "format_now page_env = (\<lambda>k. ''now'')"
  by (simp_all add: page_env_def)

lemma search_zero:
  "\<exists>out. run_search page_env ''a'' EQUAL ''0'' an with_search = Some (Inr (), found_shell an out)"
proof -
  let ?x = "new_memory_search UINT8 False"
  have ss: "get_searches (Some ''a'') with_search = Inr [?x]" "search_type ?x = UINT8"
    by (simp_all add: get_searches_def search_key_def new_memory_search_def)
  have check: "check_can_update ?x EQUAL [0] = Inr ()"
    by (simp add: check_can_update_def new_memory_search_def u8_entry value_size_for_search_type_def)
  have snap: "snapshot_for page_env ?x with_search = Some (Inr [page_of (\<lambda>_. 0)], with_search)"
    by (rule page_snapshot) (simp_all add: has_valid_results_def new_memory_search_def)
  have trim: "trim_iterations 5 [?x, found_zero an] = Inr [?x, found_zero an]"
    using trim_outcome [of "[?x, found_zero an]" 5] by simp
  obtain out where "(if length (results (found_zero an)) \<le> 20 then print_search_results page_env (found_zero an)
      else sret ()) with_search = Some (Inr (), with_search\<lparr>printed := out\<rparr>)"
    using show_new_effect [OF page_world] by blast
  then have "finish_search page_env ''a'' EQUAL an [?x] [0] [page_of (\<lambda>_. 0)] with_search =
      Some (Inr (), found_shell an out)"
    using update_zero [of reference_encoding an] trim
    by (simp add: finish_search_def slift_prog_def set_searches_def sthen_def found_shell_def omap_modify_def)
  then show ?thesis
    using ss check snap typed_u8(1) by (intro exI [of _ out]) (simp add: run_search_finish)
qed

lemma found_session: "\<exists>an out. session page_env (found_shell an out)"
proof -
  obtain out where run: "run_search page_env ''a'' EQUAL ''0'' ''= 0 at now'' with_search =
      Some (Inr (), found_shell ''= 0 at now'' out)"
    using search_zero by blast
  have "find_handler word_phosg ''s = 0'' = Inr (Search, ''= 0'')"
    by (simp add: find_handler_def word_phosg_def white_def substr_def command_handlers_def)
  then have "dispatch_command page_env ''s = 0'' with_search = command_search page_env ''= 0'' with_search"
    by (subst dispatch_run) (auto simp: run_handler_def)
  also have "\<dots> = run_search page_env ''a'' EQUAL ''0'' ''= 0 at now'' with_search"
    by (simp add: command_search_def interactive_only_def split_args_def word_phosg_def parse_search_args_def
        search_predicate_for_name_def search_predicate_names_def c_str_def Let_def)
  finally have "execute_command page_env ''s = 0'' with_search = Some (Inr 0, found_shell ''= 0 at now'' out)"
    using run by (simp add: execute_command_def report_def)
  then show ?thesis using session.step [OF search_session session_step.command] by blast
qed


section \<open>Witnesses\<close>

lemma found_fields [simp]:
  "max_results (found_shell an out) = 1" "max_search_iterations (found_shell an out) = 5"
  "interactive (found_shell an out)" "pause_target (found_shell an out) = True"
  "sh_adapter (found_shell an out) = \<lparr>pid = 42, task = 7\<rparr>" "kernel (found_shell an out) = (\<lambda>_. 0, 0)"
  "current_search_name (found_shell an out) = ''a''" "printed (found_shell an out) = out"
  "name_to_searches (found_shell an out) = [(''a'', [new_memory_search UINT8 False, found_zero an])]"
  by (simp_all add: found_shell_def)

lemma found_zero_fields [simp]:
  "search_type (found_zero an) = UINT8" "results (found_zero an) = [4096]" "results_valid (found_zero an)"
  "memory (found_zero an) = Some [page_of (\<lambda>_. 0)]"
  by (simp_all add: found_zero_def set_annotation_def new_memory_search_def)

lemma found_latest: "get_latest_search None (found_shell an out) = Inr (found_zero an)"
  by (simp add: get_latest_search_def get_searches_def search_key_def)

lemma set_seven_world:
  "memory_ok (env_mach page_env) (task (sh_adapter (found_shell an out))) fst"
  "pausable page_env (found_shell an out)" "interactive (found_shell an out)"
proof -
  have "fst (task_suspend page_mach k t) = KERN_SUCCESS" for k t by (simp add: page_mach_def)
  then show "pausable page_env (found_shell an out)" using page_count [of 7] by (auto simp: pausable_def simp del: split_paired_All)
qed (simp_all add: page_memory)

lemma set_seven:
  "command_set page_env ''7'' (found_shell an out) =
     Some (Inr (), (found_shell an out)\<lparr>kernel := (stored (\<lambda>_. 0) 4096 [7], 0), printed := out @ [wrote [7] 4096]\<rparr>)"
proof -
  have "parse_set_args ''7'' = Inr (- 1, ''7'')" by (simp add: parse_set_args_def char_at_def)
  moreover have "write_result page_env ad [7] 4096 (\<lambda>_. 0, c) = (Inr (wrote [7] 4096), stored (\<lambda>_. 0) 4096 [7], c)"
    for ad c
    by (simp add: write_result_def write_bytes_def page_mach_def wrote_def KERN_SUCCESS_def)
  then have "guarded page_env (\<lambda>ad. total (\<lambda>k. write_results page_env ad [7] [4096] k)) (found_shell an out) =
      Some (Inr [wrote [7] 4096], (found_shell an out)\<lparr>kernel := (stored (\<lambda>_. 0) 4096 [7], 0)\<rparr>)"
    by (intro page_guarded [where i = "\<lambda>_. 0"]) (simp_all add: total_def)
  ultimately show ?thesis
    by (simp add: command_set_def interactive_only_def found_latest has_memory_snapshot_def typed_u8
        set_targets_def emit_all_def)
qed


lemma seven_typed: "search_type (found_zero an) \<noteq> DATA" "has_memory_snapshot (found_zero an)"
  "char_at ''7'' 0 \<noteq> CHR ''s''" "read_typed_value page_env (search_type (found_zero an)) ''7'' = Inr [7]"
  by (simp_all add: has_memory_snapshot_def char_at_def typed_u8)

theorem set_writes_every_result_witness:
  "\<exists>s k. session page_env s \<and>
     command_set page_env ''7'' s = Some (Inr (), s\<lparr>kernel := k, printed := printed s @ [wrote [7] 4096]\<rparr>) \<and>
     fst k 4095 = 0 \<and> fst k 4096 = 7 \<and> fst k 4097 = 0"
proof -
  obtain an out where s: "session page_env (found_shell an out)" using found_session by blast
  let ?s = "found_shell an out"
  obtain lines k where set: "command_set page_env ''7'' ?s =
      Some (Inr (), ?s\<lparr>kernel := k, printed := printed ?s @ lines\<rparr>)"
    "list_all2 (\<lambda>a e. e = wrote [7] a \<and> holds_at (fst k) [7] a \<or> refused a e) (results (found_zero an)) lines"
    "\<forall>x. (\<forall>a \<in> set (results (found_zero an)). x \<notin> footprint a (length [7 :: byte])) \<longrightarrow> fst k x = fst (kernel ?s) x"
    using set_writes_every_result [OF s page_world set_seven_world found_latest seven_typed(2,1,3,4)] by blast
  have "printed (snd (the (command_set page_env ''7'' ?s))) = out @ [wrote [7] 4096]"
    by (simp add: set_seven)
  then have lines: "lines = [wrote [7] 4096]" using set(1) by simp
  have "footprint 4096 1 = {4096}" by (auto simp: footprint_def)
  then have "fst k 4095 = 0" "fst k 4097 = 0" "fst k 4096 = 7"
    using set(2,3) lines by (auto simp: wrote_not_refused holds_at_def)
  then show ?thesis using s set(1) lines by blast
qed

text \<open>The byte is 7 now; the search for 7 keeps address 4096.\<close>

lemma search_seven:
  assumes "session page_env (found_shell an out)"
    and "command_set page_env ''7'' (found_shell an out) = Some (Inr (), s1)"
  shows "\<exists>s2 y. run_search page_env ''a'' EQUAL ''7'' an' s1 = Some (Inr (), s2) \<and>
    get_latest_search None s2 = Inr y \<and> memory y = Some [page_of (stored (\<lambda>_. 0) 4096 [7])]"
proof -
  let ?k = "stored (\<lambda>_. 0) 4096 [7]" and ?x = "found_zero an" and ?start = "new_memory_search UINT8 False"
  have s1: "s1 = (found_shell an out)\<lparr>kernel := (?k, 0), printed := out @ [wrote [7] 4096]\<rparr>"
    using assms(2) by (simp add: set_seven)
  have inv: "search_inv ?x"
    using session_inv [OF assms(1) page_world] get_latest_ok [OF _ found_latest [of an out]] by blast
  have ss: "get_searches (Some ''a'') s1 = Inr [?start, ?x]"
    by (simp add: get_searches_def search_key_def s1)
  have snap: "snapshot_for page_env ?x s1 = Some (Inr [page_of ?k], s1)"
    by (rule page_snapshot) (simp_all add: s1)
  have check: "check_can_update (set_annotation a ?x) EQUAL [7] = Inr ()" "check_can_update ?x EQUAL [7] = Inr ()" for a
    by (simp_all add: check_can_update_def set_annotation_def u8_entry value_size_for_search_type_def)
  have wf: "snapshot_ok UINT8 [page_of ?k]"
    by (simp add: snapshot_ok_def regions_wf_def region_wf_def aligned_def u8_entry)
  obtain y where up: "update reference_encoding (set_annotation an' ?x) [page_of ?k] EQUAL [7] 1 = Some (Inr y)"
      "memory y = Some [page_of ?k]"
    using narrowing_results [of "set_annotation an' ?x" "[page_of (\<lambda>_. 0)]" EQUAL "[7]"] inv check(1) wf
    by (simp add: annotation_ok flag_may_overflow_def) (simp add: set_annotation_def)
  obtain out' where shown: "(if length (results y) \<le> 20 then print_search_results page_env y else sret ()) s1 =
      Some (Inr (), s1\<lparr>printed := out'\<rparr>)"
    using show_new_effect [OF page_world] by blast
  have trim: "trim_iterations 5 [?start, ?x, y] = Inr [?start, ?x, y]"
    using trim_outcome [of "[?start, ?x, y]" 5] by simp
  have fields: "max_results s1 = 1" "max_search_iterations s1 = 5" by (simp_all add: s1)
  let ?s2 = "s1\<lparr>printed := out', name_to_searches := [(''a'', [?start, ?x, y])]\<rparr>"
  have "finish_search page_env ''a'' EQUAL an' [?start, ?x] [7] [page_of ?k] s1 = Some (Inr (), ?s2)"
    using up(1) shown trim fields
    by (simp add: finish_search_def slift_prog_def set_searches_def sthen_def s1 omap_modify_def)
  then have "run_search page_env ''a'' EQUAL ''7'' an' s1 = Some (Inr (), ?s2)"
    using ss snap check(2) seven_typed(4) by (simp add: run_search_finish)
  moreover have "get_latest_search None ?s2 = Inr y"
    by (simp add: get_latest_search_def get_searches_def search_key_def s1)
  ultimately show ?thesis using up(2) by blast
qed

theorem set_then_search_keeps_witness:
  "\<exists>s s1 s2 x. session page_env s \<and> command_set page_env ''7'' s = Some (Inr (), s1) \<and>
     run_search page_env ''a'' EQUAL ''7'' [] s1 = Some (Inr (), s2) \<and>
     get_latest_search None s2 = Inr x \<and> results x = [4096]"
proof -
  obtain an out where s: "session page_env (found_shell an out)" using found_session by blast
  let ?s = "found_shell an out"
  obtain s1 where s1: "command_set page_env ''7'' ?s = Some (Inr (), s1)" "printed s1 = out @ [wrote [7] 4096]"
    by (simp add: set_seven)
  obtain s2 y where s2: "run_search page_env (current_search_name ?s) EQUAL ''7'' [] s1 = Some (Inr (), s2)"
    "get_latest_search None s2 = Inr y" "memory y = Some [page_of (stored (\<lambda>_. 0) 4096 [7])]"
    using search_seven [OF s s1(1), of "[]"] by auto
  have held: "has_valid_results (found_zero an)"
    "search_type (found_zero an) \<notin> {FLOAT, FLOAT_RE, DOUBLE, DOUBLE_RE, DATA}" "''7'' \<noteq> []"
    "printed s1 = printed ?s @ map (wrote [7]) (results (found_zero an))"
    "bswap_ok (env_encoding page_env)" "0 < unat (max_search_iterations ?s)" "unat (max_search_iterations ?s) \<le> 2 ^ 63"
    "length (the (map_of (name_to_searches ?s) (current_search_name ?s))) + 1 < 2 ^ 63"
    using s1(2) by (simp_all add: has_valid_results_def reference_encoding_ok)
  have "\<exists>x snap. get_latest_search None s2 = Inr x \<and> memory x = Some snap \<and>
      results x = filter (\<lambda>a. a \<noteq> 0 \<and> (\<exists>r \<in> set snap. contains a r \<and> region_data r \<noteq> [])) (results (found_zero an))"
    by (rule set_then_search_keeps [OF s page_world set_seven_world found_latest held(1,2) seven_typed(3,4) held(3)
          s1(1) held(4) s2(1) held(5-8)])
  then have "results y = [4096]" using s2(2,3) by (simp add: contains_def)
  then show ?thesis using s s1(1) s2 by auto
qed


section \<open>A typed value\<close>

text \<open>\<open>-2\<close> is typed for a signed 16-bit type in the other byte order.\<close>

theorem typed_value_prints_witness:
  "\<exists>d. read_typed_value page_env INT16_RE ''-2'' = Inr d \<and>
     snd (value_format (env_encoding page_env) INT16_RE d) = [PInt (- 2), PInt (- 2)]"
proof -
  have "parse_number 0 ''-2'' = Some (True, 2, 2)" by code_simp
  then have "stoull ''-2'' 0 = Inr (- 2, 2)" by (simp add: stoull_def)
  moreover have "bswap_ok (env_encoding page_env)" "is_integer_search_type INT16_RE" "signed_type INT16_RE"
    "value_size_for_search_type INT16_RE = 2"
    by (simp_all add: reference_encoding_ok is_integer_search_type_def signed_type_def value_size_for_search_type_def)
  moreover have "signed_take_bit 15 (uint (- 2 :: u64)) = - 2" by code_simp
  ultimately show ?thesis
    using typed_value_prints [of page_env INT16_RE "''-2''" "- 2" 2] by fastforce
qed

end
