(* ===== verification/Spec2Isabelle.thy ===== *)
theory Spec2Isabelle
  imports SearchWitness FreezerWitness WriteWitness
begin

text \<open>
  Memwatch attaches to a running process, searches its memory for values, narrows a search as
  the values change, and writes (once, or again and again: "freezes") values into that memory.

  \<^bold>\<open>The program and its model.\<close> The program is a shell (src/src/MemwatchShell.cc), started by
  src/src/Main.cc, over four classes. Each has its theory or group of theories:

  \<^item> \<open>ProcessMemoryAdapter\<close> (src/src/ProcessMemoryAdapter.cc), the Mach VM calls: theory
    \<open>ProcessMemoryAdapter\<close>. A method is an effect on a kernel state; the kernel is the record
    \<open>mach\<close> of functions, a parameter. Regions are the record \<open>region\<close>, \<open>get_all_regions\<close> and
    \<open>get_target_regions\<close> are the loops of the source, \<open>with_pause_guard\<close> is the scope of a
    \<open>PauseGuard\<close>.
  \<^item> \<open>MemorySearch\<close> (src/src/MemorySearch.cc): theory \<open>SearchTypes\<close> has the value types, the
    predicates and their name tables, \<open>Evaluators\<close> the comparators and the table that selects
    one, \<open>MemorySearch\<close> the class: the record \<open>memory_search\<close> is one iteration of a search, and
    \<open>update\<close> has the three branches of the source (\<open>scan_regions\<close> over a snapshot with a known
    value, \<open>scan_changed_regions\<close> over two snapshots, \<open>verify_results\<close> over earlier results, followed by
    \<open>compact\<close>).
  \<^item> \<open>RegionFreezer\<close> (src/src/RegionFreezer.cc): theory \<open>RegionFreezer\<close>. The region objects that
    the three indices of the source share through pointers are a list that only grows; the
    indices map to positions in it. \<open>write_pass\<close> is one round of the write thread. \<open>OrderedMap\<close>
    has \<open>std::map\<close> and the multimaps, \<open>StdText\<close> the number parsers and formats of the C library.
  \<^item> \<open>Signalable\<close> (src/src/Signalable.cc) and the signal handler of Main.cc: theory \<open>Signalable\<close>.
  \<^item> \<open>MemwatchShell\<close>: theory \<open>ShellState\<close> has the record \<open>shell\<close> (the members of the class, the
    kernel state and the output so far) and the shared argument parsers; \<open>ShellSearch\<close>,
    \<open>ShellFreeze\<close> and \<open>ShellMemory\<close> have the command handlers, each under the name it has in the
    source; \<open>ShellMain\<close> has the command table, \<open>dispatch_command\<close>, \<open>execute_command\<close>,
    \<open>command_watch\<close>, the prompt and the loop \<open>execute_commands\<close>.
  \<^item> \<open>main\<close>: theory \<open>MainProgram\<close>.

  \<^bold>\<open>Effects.\<close> A function returns \<open>Inr\<close> of its value or \<open>Inl\<close> of a failure: one of the
  exception classes, an operation the C++ standard leaves undefined (\<open>Undefined\<close>), or
  \<open>Terminate\<close>. Effects return the state with either, so what was done before a throw stays done.
  Loops that may run forever are \<open>partial_function (option)\<close>, and \<open>None\<close> is the outcome "does not
  return"; no fuel is used. Loops over lists recurse on the list. Addresses, sizes and values
  are words of the width the source uses and wrap around as they do there. Reads through pointers are
  checked against their buffer.

  \<^bold>\<open>Parameters.\<close> What the repository does not define is an argument of the definitions: the Mach
  calls (\<open>mach\<close>), the phosg library (\<open>phosg\<close>, \<open>encoding\<close>: string splitting, skipping, printing,
  data strings, byte swaps), and for the shell the record \<open>env\<close>, which adds files, the clock,
  process names, signals and the allocator (\<open>new_string\<close>). Properties that rely on them name what they rely on as hypotheses:
  \<open>table_kernel\<close> and \<open>world_ok\<close> (a task has a table of disjoint page-aligned regions which the
  region call reports and a change of protection leaves alone), \<open>words_ok\<close> and \<open>text_ok\<close> (phosg splits and
  skips as documented), \<open>library_ok\<close> (the number and data parsers, the allocator and the file
  functions fail by throwing, and the kernel counts the suspensions of a task as documented, so that
  a resume fails when the count is 0; nobody but the shell changes the count within a command:
  \<open>steady_count\<close>), \<open>memory_ok\<close> (the target's memory:
  writes store, reads deliver, the other calls leave it alone). \<open>RefKernel\<close> and \<open>ShellWitness\<close> contain a concrete kernel and a concrete
  world that satisfy them, and every property with hypotheses is applied there.

  \<^bold>\<open>The session.\<close> \<open>session\<close> is the set of shell states reached by any sequence of three steps:
  a command line that returns, a round of the freezer's write thread, and any change the target
  or the kernel makes on its own. A command is one step: the freezer's lock orders its
  change of the registry against the rounds.

  \<^bold>\<open>What the lemmas show.\<close>

  \<^item> \<open>EvaluatorProps\<close>: the comparators compute the relation they are named after on the decoded
    values, with the exceptions found (order predicates on signed values in reverse byte order, the
    flag predicate).
  \<^item> \<open>AdapterProps\<close>: the region loops terminate and list the table of the task, protection
    changes touch the masked bits, pause guards are balanced, and a target that was suspended and
    then only read, written and protected can be resumed (\<open>resume_after_suspend\<close>).
  \<^item> \<open>SearchScan\<close>, \<open>SearchChanged\<close>, \<open>SearchNarrow\<close>: each branch of \<open>update\<close> equals a filter over the
    cells of the snapshot; \<open>SearchInvariant\<close> and \<open>SearchReachable\<close>: the invariant of a search
    (of byte strings too) holds for every search that can be reached, and when an update cannot
    fail; \<open>SearchReturns\<close>: every update returns; \<open>SearchOutcome\<close>: the three outcomes of an update
    of a search over values of fixed size.
  \<^item> \<open>FreezerProps\<close>: the three indices agree and each operation is a list operation on the
    frozen regions; \<open>FreezerRegistry\<close>: the part of the agreement that \<open>unfreeze *\<close> leaves intact,
    which every operation keeps; \<open>FreezerWrite\<close>: what a round writes.
  \<^item> \<open>ShellFrame\<close>, \<open>ShellInvariant\<close> and \<open>ShellRegistry\<close>: invariants of the session, of its searches
    and of its frozen regions. \<open>ShellEnds\<close>: which commands return in every state of a session,
    which cannot take the shell down, and when a watched command stops. \<open>ShellHistory\<close>: the
    iterations of a search, \<open>undo\<close>, and why a search cannot take the shell down. \<open>ShellWrite\<close>:
    what \<open>set\<close> does to the target's memory, and that a search finds it there. \<open>ValueText\<close>: integers are printed
    as they were typed. \<open>FindProps\<close>: the result of
    \<open>find\<close>, when it does not return, and when it reads behind a buffer. \<open>FreezeCommand\<close>: the command line of \<open>freeze\<close>.
    \<open>MainProps\<close>: how the process argument is understood.

  \<^bold>\<open>Interfaces.\<close> Contracts that several proofs share are locales, interpreted on the definitions
  of the model: \<open>region_cursor\<close> (the index carried through a sorted list of regions, three loops
  of MemorySearch.cc), \<open>comparator\<close> and \<open>total_comparator\<close> (relational evaluators),
  \<open>finite_map\<close> (\<open>std::map\<close>), \<open>region_lookup\<close> (the ways to select frozen regions, one set of
  lemmas for \<open>unfreeze\<close> and \<open>enable\<close> by name, by address and for all), \<open>ending\<close>
  (which failures the steps of a command may end with, interpreted for any failure and for
  exceptions only), and \<open>shell_frame\<close> with \<open>freezer_frame\<close>, \<open>search_frame\<close> and
  \<open>command_frame\<close> (which parts of the shell a group of handlers leaves alone).

  \<^bold>\<open>Not modelled.\<close> Progress output and messages to \<open>stderr\<close> (the prompt and the message at its
  end are kept with the other output); a failed allocation of the adapter's own buffers; the readline library and its history
  file; the sleeping and the end of the write thread; the interleaving of the worker threads of
  \<open>find\<close>, whose results are sorted when they are joined; changes the target makes
  in the middle of a command other than through the kernel state that each call returns; the
  programs under src/src/tests, which are targets to try memwatch on; the build files.
\<close>

end
